(* ===== verification/GoBase.thy ===== *)
theory GoBase
  imports Main "HOL-Library.Word" "HOL-Library.Char_ord" "HOL-Library.List_Lexorder"
begin

text \<open>
  Prelude: the parts of the Go language and of its standard library that the
  components share. A Go string is a sequence of bytes, so it is a
  \<open>string\<close> (a list of 8-bit \<open>char\<close>s) here and \<open>length\<close> is Go's \<open>len\<close>.
  The section on UTF-8 models \<open>range\<close> over a string, \<open>utf8.DecodeRune\<close>,
  \<open>utf8.DecodeLastRune\<close> and \<open>strings.Builder.WriteRune\<close>; the section on
  package \<open>strings\<close> models the functions the source calls. A fallible Go
  function \<open>f() (T, error)\<close> returns a sum \<open>error + T\<close>; a function
  \<open>f() error\<close> returns \<open>error option\<close>, with \<open>None\<close> for \<open>nil\<close>. Code
  that acts on the outside world takes the world and returns it, and
  \<open>seqE\<close> and \<open>forE\<close> are the statement sequence and the \<open>for\<close> loop with
  the early return \<open>if err != nil { return err }\<close>.
\<close>

named_theorems go_simps \<open>evaluation of the prelude's string functions\<close>

subsection \<open>UTF-8\<close>

definition RuneError :: nat where
  "RuneError = 0xFFFD"

definition valid_rune :: "nat \<Rightarrow> bool" where
  "valid_rune r \<longleftrightarrow> r < 0xD800 \<or> (0xE000 \<le> r \<and> r \<le> 0x10FFFF)"

abbreviation byte :: "char \<Rightarrow> nat" where
  "byte c \<equiv> of_char c"

definition within :: "nat \<Rightarrow> nat \<Rightarrow> char \<Rightarrow> bool" where
  "within lo hi c \<longleftrightarrow> lo \<le> byte c \<and> byte c \<le> hi"

abbreviation cont :: "char \<Rightarrow> bool" where
  "cont \<equiv> within 0x80 0xBF"

text \<open>The rune a byte string starts with and the number of bytes it takes; an
  invalid sequence is one byte wide and reads as U+FFFD.\<close>

definition DecodeRune :: "string \<Rightarrow> nat \<times> nat" where
  "DecodeRune s =
    (case s of
       [] \<Rightarrow> (RuneError, 0)
     | c0 # cs \<Rightarrow>
       (let b0 = byte c0 in
        if b0 < 0x80 then (b0, 1)
        else if b0 < 0xC2 \<or> 0xF4 < b0 then (RuneError, 1)
        else if b0 < 0xE0 then
          (case cs of
             c1 # _ \<Rightarrow>
               if cont c1 then ((b0 - 0xC0) * 0x40 + (byte c1 - 0x80), 2) else (RuneError, 1)
           | [] \<Rightarrow> (RuneError, 1))
        else if b0 < 0xF0 then
          (case cs of
             c1 # c2 # _ \<Rightarrow>
               if within (if b0 = 0xE0 then 0xA0 else 0x80) (if b0 = 0xED then 0x9F else 0xBF) c1
                  \<and> cont c2
               then ((b0 - 0xE0) * 0x1000 + (byte c1 - 0x80) * 0x40 + (byte c2 - 0x80), 3)
               else (RuneError, 1)
           | _ \<Rightarrow> (RuneError, 1))
        else
          (case cs of
             c1 # c2 # c3 # _ \<Rightarrow>
               if within (if b0 = 0xF0 then 0x90 else 0x80) (if b0 = 0xF4 then 0x8F else 0xBF) c1
                  \<and> cont c2 \<and> cont c3
               then ((b0 - 0xF0) * 0x40000 + (byte c1 - 0x80) * 0x1000
                     + (byte c2 - 0x80) * 0x40 + (byte c3 - 0x80), 4)
               else (RuneError, 1)
           | _ \<Rightarrow> (RuneError, 1))))"

definition EncodeRune :: "nat \<Rightarrow> string" where
  "EncodeRune r0 =
    (let r = (if valid_rune r0 then r0 else RuneError) in
     if r < 0x80 then [char_of r]
     else if r < 0x800 then [char_of (0xC0 + r div 0x40), char_of (0x80 + r mod 0x40)]
     else if r < 0x10000 then
       [char_of (0xE0 + r div 0x1000), char_of (0x80 + r div 0x40 mod 0x40),
        char_of (0x80 + r mod 0x40)]
     else
       [char_of (0xF0 + r div 0x40000), char_of (0x80 + r div 0x1000 mod 0x40),
        char_of (0x80 + r div 0x40 mod 0x40), char_of (0x80 + r mod 0x40)])"


lemma char_of_eq_iff_small: "n < 256 \<Longrightarrow> byte (char_of n) = n"
  by simp

lemma DecodeRune_Nil [simp]: "DecodeRune [] = (RuneError, 0)"
  by (simp add: DecodeRune_def)

lemma valid_RuneError [simp]: "valid_rune RuneError"
  by (simp add: valid_rune_def RuneError_def)

text \<open>What follows a well-formed encoding does not matter to the decoder, and it
  reads back exactly the rune that was written.\<close>

lemma decode1:
  assumes "r < 0x80"
  shows "DecodeRune (char_of r # s) = (r, 1)"
  using assms by (simp add: DecodeRune_def)

lemma decode2:
  assumes "0x80 \<le> r" "r < 0x800"
  shows "DecodeRune (char_of (0xC0 + r div 0x40) # char_of (0x80 + r mod 0x40) # s) = (r, 2)"
proof -
  have "r div 0x40 < 0x20" "2 \<le> r div 0x40" "r mod 0x40 < 0x40"
    using assms by auto
  then show ?thesis
    by (simp add: DecodeRune_def within_def)
qed

lemma decode3_bytes:
  assumes "a < 0x10" "b < 0x40" "c < 0x40" "a = 0 \<Longrightarrow> 0x20 \<le> b" "a = 0xD \<Longrightarrow> b < 0x20"
    and A: "byte x = 0xE0 + a" and B: "byte y = 0x80 + b" and C: "byte z = 0x80 + c"
  shows "DecodeRune (x # y # z # s) = (a * 0x1000 + b * 0x40 + c, 3)"
proof -
  have "within (if 0xE0 + a = 0xE0 then 0xA0 else 0x80) (if 0xE0 + a = 0xED then 0x9F else 0xBF) y"
    using assms(2,4,5) by (auto simp: within_def B)
  moreover have "cont z"
    using assms(3) by (simp add: within_def C)
  ultimately show ?thesis
    using assms(1) by (simp add: DecodeRune_def A B C)
qed

lemma decode4_bytes:
  assumes "a < 5" "b < 0x40" "c < 0x40" "d < 0x40" "a = 0 \<Longrightarrow> 0x10 \<le> b" "a = 4 \<Longrightarrow> b < 0x10"
    and A: "byte x = 0xF0 + a" and B: "byte y = 0x80 + b" and C: "byte z = 0x80 + c"
    and D: "byte w = 0x80 + d"
  shows "DecodeRune (x # y # z # w # s) = (a * 0x40000 + b * 0x1000 + c * 0x40 + d, 4)"
proof -
  have "within (if 0xF0 + a = 0xF0 then 0x90 else 0x80) (if 0xF0 + a = 0xF4 then 0x8F else 0xBF) y"
    using assms(2,5,6) by (auto simp: within_def B)
  moreover have "cont z" "cont w"
    using assms(3,4) by (simp_all add: within_def C D)
  ultimately show ?thesis
    using assms(1) by (simp add: DecodeRune_def A B C D)
qed

lemma split_sextets2: "(r::nat) = r div 0x1000 * 0x1000 + r div 0x40 mod 0x40 * 0x40 + r mod 0x40"
proof -
  have "r = r div 0x40 * 0x40 + r mod 0x40"
    by simp
  moreover have "r div 0x40 = r div 0x40 div 0x40 * 0x40 + r div 0x40 mod 0x40"
    by (rule div_mult_mod_eq [symmetric])
  moreover have "r div 0x40 div 0x40 = r div 0x1000"
    by (simp add: div_mult2_eq [symmetric])
  ultimately show ?thesis
    by linarith
qed

lemma split_sextets3:
  "(r::nat) = r div 0x40000 * 0x40000 + r div 0x1000 mod 0x40 * 0x1000
     + r div 0x40 mod 0x40 * 0x40 + r mod 0x40"
proof -
  have "r div 0x1000 = r div 0x1000 div 0x40 * 0x40 + r div 0x1000 mod 0x40"
    by (rule div_mult_mod_eq [symmetric])
  moreover have "r div 0x1000 div 0x40 = r div 0x40000"
    by (simp add: div_mult2_eq [symmetric])
  ultimately show ?thesis
    using split_sextets2 [of r] by linarith
qed

lemma decode3:
  assumes "0x800 \<le> r" "r < 0x10000" "valid_rune r"
  shows "DecodeRune (char_of (0xE0 + r div 0x1000) # char_of (0x80 + r div 0x40 mod 0x40)
           # char_of (0x80 + r mod 0x40) # s) = (r, 3)"
proof -
  define a b c where "a = r div 0x1000" and "b = r div 0x40 mod 0x40" and "c = r mod 0x40"
  have r: "r = a * 0x1000 + b * 0x40 + c"
    unfolding a_def b_def c_def by (rule split_sextets2)
  have bnd: "a < 0x10" "b < 0x40" "c < 0x40"
    using assms(2) by (auto simp: a_def b_def c_def)
  have lo: "a = 0 \<Longrightarrow> 0x20 \<le> b"
    using assms(1) bnd r by simp
  have sur: "a = 0xD \<Longrightarrow> b < 0x20"
    using assms(3) bnd r by (auto simp: valid_rune_def)
  have "DecodeRune (char_of (0xE0 + a) # char_of (0x80 + b) # char_of (0x80 + c) # s)
      = (a * 0x1000 + b * 0x40 + c, 3)"
    by (rule decode3_bytes) (use bnd lo sur in \<open>simp_all\<close>)
  with r show ?thesis
    by (simp add: a_def b_def c_def)
qed

lemma decode4:
  assumes "0x10000 \<le> r" "r \<le> 0x10FFFF"
  shows "DecodeRune (char_of (0xF0 + r div 0x40000) # char_of (0x80 + r div 0x1000 mod 0x40)
           # char_of (0x80 + r div 0x40 mod 0x40) # char_of (0x80 + r mod 0x40) # s) = (r, 4)"
proof -
  define a b c d where "a = r div 0x40000" and "b = r div 0x1000 mod 0x40"
    and "c = r div 0x40 mod 0x40" and "d = r mod 0x40"
  have r: "r = a * 0x40000 + b * 0x1000 + c * 0x40 + d"
    unfolding a_def b_def c_def d_def by (rule split_sextets3)
  have bnd: "a < 5" "b < 0x40" "c < 0x40" "d < 0x40"
    using assms(2) by (auto simp: a_def b_def c_def d_def)
  have lo: "a = 0 \<Longrightarrow> 0x10 \<le> b"
    using assms(1) bnd r by simp
  have hi: "a = 4 \<Longrightarrow> b < 0x10"
    using assms(2) bnd r by simp
  have "DecodeRune (char_of (0xF0 + a) # char_of (0x80 + b) # char_of (0x80 + c)
          # char_of (0x80 + d) # s) = (a * 0x40000 + b * 0x1000 + c * 0x40 + d, 4)"
    by (rule decode4_bytes) (use bnd lo hi in \<open>simp_all\<close>)
  with r show ?thesis
    by (simp add: a_def b_def c_def d_def)
qed

lemma decode_encode:
  assumes "valid_rune r"
  shows "DecodeRune (EncodeRune r @ s) = (r, length (EncodeRune r))"
proof -
  have "r \<le> 0x10FFFF"
    using assms by (auto simp: valid_rune_def)
  then consider "r < 0x80" | "0x80 \<le> r" "r < 0x800" | "0x800 \<le> r" "r < 0x10000"
    | "0x10000 \<le> r" "r \<le> 0x10FFFF"
    by linarith
  then show ?thesis
    by cases (use assms in \<open>simp_all add: EncodeRune_def decode1 decode2 decode3 decode4 Let_def\<close>)
qed

lemma length_EncodeRune_pos [simp]: "EncodeRune r \<noteq> []"
  by (simp add: EncodeRune_def Let_def)

lemma DecodeRune_width: "s \<noteq> [] \<Longrightarrow> 0 < snd (DecodeRune s) \<and> snd (DecodeRune s) \<le> length s"
  by (cases s) (auto simp: DecodeRune_def Let_def split: list.splits)

lemma DecodeRune_ascii: "byte c < 0x80 \<Longrightarrow> DecodeRune (c # s) = (byte c, 1)"
  by (simp add: DecodeRune_def)

text \<open>Every rune the decoder yields is a Unicode scalar value.\<close>

lemma sextet: "cont c \<Longrightarrow> byte c - 0x80 < 0x40"
  by (auto simp: within_def)

lemma DecodeRune_valid: "valid_rune (fst (DecodeRune s))"
proof (cases s)
  case Nil
  then show ?thesis by simp
next
  case (Cons c0 cs)
  define b0 where "b0 = byte c0"
  consider "b0 < 0x80" | "0x80 \<le> b0" "b0 < 0xC2" | "0xF4 < b0" | "0xC2 \<le> b0" "b0 < 0xE0"
    | "0xE0 \<le> b0" "b0 < 0xF0" | "0xF0 \<le> b0" "b0 \<le> 0xF4"
    by linarith
  then show ?thesis
  proof cases
    case 4
    then show ?thesis
      unfolding Cons DecodeRune_def b0_def [symmetric] Let_def
      by (auto simp: valid_rune_def RuneError_def within_def b0_def [symmetric] split: list.splits)
  next
    case 5
    then show ?thesis
      unfolding Cons DecodeRune_def
      by (auto simp: valid_rune_def RuneError_def within_def b0_def [symmetric] Let_def
          split: list.splits if_splits)
  next
    case 6
    then show ?thesis
      unfolding Cons DecodeRune_def
      by (auto simp: valid_rune_def RuneError_def within_def b0_def [symmetric] Let_def
          split: list.splits if_splits)
  qed (simp_all add: Cons DecodeRune_def valid_rune_def RuneError_def b0_def)
qed

text \<open>\<open>for _, r := range s\<close>: the runes of a string, one after another.\<close>

function runes :: "string \<Rightarrow> nat list" where
  "runes s = (if s = [] then [] else fst (DecodeRune s) # runes (drop (snd (DecodeRune s)) s))"
  by pat_completeness auto
termination
  by (relation "measure length") (use DecodeRune_width in \<open>auto simp: neq_Nil_conv\<close>)

declare runes.simps [simp del]

lemma runes_Nil [simp, go_simps]: "runes [] = []"
  by (simp add: runes.simps)

lemma runes_nonempty: "s \<noteq> [] \<Longrightarrow> runes s = fst (DecodeRune s) # runes (drop (snd (DecodeRune s)) s)"
  by (subst runes.simps) simp

lemma runes_Cons_ascii [go_simps]: "byte c < 0x80 \<Longrightarrow> runes (c # s) = byte c # runes s"
  by (simp add: runes_nonempty DecodeRune_ascii)

lemma runes_ascii: "\<forall>c \<in> set s. byte c < 0x80 \<Longrightarrow> runes s = map byte s"
  by (induction s) (simp_all add: runes_Cons_ascii)

lemma runes_EncodeRune_append: "valid_rune r \<Longrightarrow> runes (EncodeRune r @ s) = r # runes s"
  by (subst runes_nonempty) (simp_all add: decode_encode)

text \<open>\<open>strings.Builder.WriteRune\<close> called on each rune in turn.\<close>

definition write_runes :: "nat list \<Rightarrow> string" where
  "write_runes rs = concat (map EncodeRune rs)"

lemma write_runes_simps [simp]:
  "write_runes [] = []" "write_runes (r # rs) = EncodeRune r @ write_runes rs"
  by (simp_all add: write_runes_def)

lemma runes_write_runes: "\<forall>r \<in> set rs. valid_rune r \<Longrightarrow> runes (write_runes rs) = rs"
  by (induction rs) (simp_all add: runes_EncodeRune_append)

lemma runes_valid: "r \<in> set (runes s) \<Longrightarrow> valid_rune r"
proof (induction s rule: runes.induct)
  case (1 s)
  then show ?case
    by (cases "s = []") (auto simp: runes_nonempty DecodeRune_valid)
qed

lemma EncodeRune_ascii: "byte c < 0x80 \<Longrightarrow> EncodeRune (byte c) = [c]"
  by (simp add: EncodeRune_def valid_rune_def)

lemma write_runes_ascii:
  "\<forall>c \<in> set s. byte c < 0x80 \<Longrightarrow> write_runes (map byte s) = s"
  by (induction s) (simp_all add: EncodeRune_ascii)

text \<open>\<open>utf8.DecodeLastRuneInString\<close>: step back over continuation bytes, at most
  to the fourth byte from the end, and decode there.\<close>

definition rune_start :: "char \<Rightarrow> bool" where
  "rune_start c \<longleftrightarrow> \<not> cont c"

definition last_rune_at :: "string \<Rightarrow> nat \<Rightarrow> bool" where
  "last_rune_at s k \<longleftrightarrow> k \<le> length s \<and> rune_start (s ! (length s - k))"

definition DecodeLastRune :: "string \<Rightarrow> nat \<times> nat" where
  "DecodeLastRune s =
    (if s = [] then (RuneError, 0)
     else
       (let try = (\<lambda>k. let (r, n) = DecodeRune (drop (length s - k) s)
                        in if n = k then (r, n) else (RuneError, 1))
        in if last_rune_at s 1 then try 1
           else if last_rune_at s 2 then try 2
           else if last_rune_at s 3 then try 3
           else if last_rune_at s 4 then try 4
           else (RuneError, 1)))"

lemma DecodeLastRune_width:
  "s \<noteq> [] \<Longrightarrow> 0 < snd (DecodeLastRune s) \<and> snd (DecodeLastRune s) \<le> length s"
  by (cases s) (auto simp: DecodeLastRune_def last_rune_at_def Let_def split: prod.split)

subsection \<open>Package unicode\<close>

text \<open>\<open>unicode.IsSpace\<close>: the Latin-1 spaces and the White_Space property.\<close>

definition IsSpace :: "nat \<Rightarrow> bool" where
  "IsSpace r \<longleftrightarrow> r \<in> {9, 10, 11, 12, 13, 0x20, 0x85, 0xA0, 0x1680, 0x2028, 0x2029, 0x202F, 0x205F, 0x3000}
     \<or> (0x2000 \<le> r \<and> r \<le> 0x200A)"

text \<open>\<open>unicode.IsDigit\<close>: general category Nd of Unicode 15. Every block has
  the ten digits in order from its first code point; the mathematical digits
  from U+1D7CE are five such blocks.\<close>

definition digit_blocks :: "nat list" where
  "digit_blocks =
    [0x30, 0x660, 0x6F0, 0x7C0, 0x966, 0x9E6, 0xA66, 0xAE6, 0xB66, 0xBE6, 0xC66, 0xCE6, 0xD66,
     0xDE6, 0xE50, 0xED0, 0xF20, 0x1040, 0x1090, 0x17E0, 0x1810, 0x1946, 0x19D0, 0x1A80, 0x1A90,
     0x1B50, 0x1BB0, 0x1C40, 0x1C50, 0xA620, 0xA8D0, 0xA900, 0xA9D0, 0xA9F0, 0xAA50, 0xABF0,
     0xFF10, 0x104A0, 0x10D30, 0x11066, 0x110F0, 0x11136, 0x111D0, 0x112F0, 0x11450, 0x114D0,
     0x11650, 0x116C0, 0x11730, 0x118E0, 0x11950, 0x11C50, 0x11D50, 0x11DA0, 0x11F50, 0x16A60,
     0x16AC0, 0x16B50, 0x1D7CE, 0x1D7D8, 0x1D7E2, 0x1D7EC, 0x1D7F6, 0x1E140, 0x1E2F0, 0x1E4F0,
     0x1E950, 0x1FBF0]"

definition IsDigit :: "nat \<Rightarrow> bool" where
  "IsDigit r \<longleftrightarrow> list_ex (\<lambda>b. b \<le> r \<and> r < b + 10) digit_blocks"

lemma IsDigit_ascii: "r < 0x80 \<Longrightarrow> IsDigit r \<longleftrightarrow> 0x30 \<le> r \<and> r \<le> 0x39"
  by (auto simp: IsDigit_def digit_blocks_def)

lemma RuneError_no_class [simp]: "\<not> IsDigit RuneError" "\<not> IsSpace RuneError"
  by (simp_all add: IsDigit_def digit_blocks_def IsSpace_def RuneError_def)

subsection \<open>Package strings\<close>

definition HasPrefix :: "string \<Rightarrow> string \<Rightarrow> bool" where
  "HasPrefix s p \<longleftrightarrow> length p \<le> length s \<and> take (length p) s = p"

definition HasSuffix :: "string \<Rightarrow> string \<Rightarrow> bool" where
  "HasSuffix s p \<longleftrightarrow> length p \<le> length s \<and> drop (length s - length p) s = p"

definition TrimPrefix :: "string \<Rightarrow> string \<Rightarrow> string" where
  "TrimPrefix s p = (if HasPrefix s p then drop (length p) s else s)"

definition TrimSuffix :: "string \<Rightarrow> string \<Rightarrow> string" where
  "TrimSuffix s p = (if HasSuffix s p then take (length s - length p) s else s)"

text \<open>\<open>strings.Index\<close>; \<open>None\<close> is Go's -1.\<close>

fun Index :: "string \<Rightarrow> string \<Rightarrow> nat option" where
  "Index [] sub = (if sub = [] then Some 0 else None)"
| "Index (c # s) sub = (if HasPrefix (c # s) sub then Some 0 else map_option Suc (Index s sub))"

definition Contains :: "string \<Rightarrow> string \<Rightarrow> bool" where
  "Contains s sub \<longleftrightarrow> Index s sub \<noteq> None"

text \<open>\<open>strings.Split\<close> with a one-byte separator.\<close>

fun Split :: "string \<Rightarrow> char \<Rightarrow> string list" where
  "Split [] sep = [[]]"
| "Split (c # s) sep =
     (if c = sep then [] # Split s sep
      else (case Split s sep of p # ps \<Rightarrow> (c # p) # ps | [] \<Rightarrow> [[c]]))"

function TrimLeftSpace :: "string \<Rightarrow> string" where
  "TrimLeftSpace s =
     (if s \<noteq> [] \<and> IsSpace (fst (DecodeRune s)) then TrimLeftSpace (drop (snd (DecodeRune s)) s) else s)"
  by pat_completeness auto
termination
  by (relation "measure length") (use DecodeRune_width in \<open>auto simp: neq_Nil_conv\<close>)

function TrimRightSpace :: "string \<Rightarrow> string" where
  "TrimRightSpace s =
     (if s \<noteq> [] \<and> IsSpace (fst (DecodeLastRune s))
      then TrimRightSpace (take (length s - snd (DecodeLastRune s)) s) else s)"
  by pat_completeness auto
termination
  by (relation "measure length") (use DecodeLastRune_width in \<open>auto simp: neq_Nil_conv\<close>)

declare TrimLeftSpace.simps [simp del] TrimRightSpace.simps [simp del]

definition TrimSpace :: "string \<Rightarrow> string" where
  "TrimSpace s = TrimRightSpace (TrimLeftSpace s)"

lemma HasPrefix_append: "HasPrefix s p \<longleftrightarrow> (\<exists>t. s = p @ t)"
  by (auto simp: HasPrefix_def) (metis append_take_drop_id)

lemma HasSuffix_append: "HasSuffix s p \<longleftrightarrow> (\<exists>t. s = t @ p)"
  by (auto simp: HasSuffix_def) (metis append_take_drop_id)

lemma HasPrefix_Cons_Cons [simp]: "HasPrefix (c # s) (d # p) \<longleftrightarrow> c = d \<and> HasPrefix s p"
  by (auto simp: HasPrefix_def)

lemma HasPrefix_Nil [simp]: "HasPrefix s []" "HasPrefix [] (c # p) \<longleftrightarrow> False"
  by (simp_all add: HasPrefix_def)

lemma Index_Some: "Index s sub = Some i \<Longrightarrow> i + length sub \<le> length s \<and> HasPrefix (drop i s) sub"
  by (induction s sub arbitrary: i rule: Index.induct)
     (auto simp: HasPrefix_def split: if_splits)

lemma Index_least: "Index s sub = Some i \<Longrightarrow> j < i \<Longrightarrow> \<not> HasPrefix (drop j s) sub"
proof (induction s sub arbitrary: i j rule: Index.induct)
  case (1 sub)
  then show ?case by (simp split: if_splits)
next
  case (2 c s sub)
  then show ?case
    by (cases j) (auto split: if_splits)
qed

lemma Index_None: "Index s sub = None \<longleftrightarrow> (\<forall>j \<le> length s. \<not> HasPrefix (drop j s) sub)"
proof (induction s sub rule: Index.induct)
  case (1 sub)
  then show ?case by (cases sub) auto
next
  case (2 c s sub)
  show ?case
  proof
    assume "Index (c # s) sub = None"
    then have no: "\<not> HasPrefix (c # s) sub" "Index s sub = None"
      by (auto split: if_splits)
    show "\<forall>j \<le> length (c # s). \<not> HasPrefix (drop j (c # s)) sub"
    proof (intro allI impI)
      fix j assume "j \<le> length (c # s)"
      then show "\<not> HasPrefix (drop j (c # s)) sub"
        by (cases j) (use 2 no in auto)
    qed
  next
    assume all: "\<forall>j \<le> length (c # s). \<not> HasPrefix (drop j (c # s)) sub"
    have "\<not> HasPrefix (drop j s) sub" if "j \<le> length s" for j
      using spec [OF all, of "Suc j"] that by simp
    moreover have "\<not> HasPrefix (c # s) sub"
      using spec [OF all, of 0] by simp
    ultimately show "Index (c # s) sub = None"
      using 2 by auto
  qed
qed

lemma Index_0: "HasPrefix s sub \<Longrightarrow> Index s sub = Some 0"
  by (cases s; cases sub) (auto simp: HasPrefix_def)

lemma Contains_byte: "Contains s [c] \<longleftrightarrow> c \<in> set s"
  by (induction s) (auto simp: Contains_def)

lemma HasSuffix_byte: "HasSuffix s [c] \<longleftrightarrow> s \<noteq> [] \<and> last s = c"
  by (auto simp: HasSuffix_append) (metis append_butlast_last_id)

lemma HasPrefix_byte: "HasPrefix s [c] \<longleftrightarrow> (\<exists>t. s = c # t)"
  by (simp add: HasPrefix_append)

lemma Split_nonempty [simp]: "Split s c \<noteq> []"
  by (induction s) (auto split: list.splits)

lemma Split_one: "c \<notin> set s \<Longrightarrow> Split s c = [s]"
  by (induction s) auto

lemma Split_append: "c \<notin> set s \<Longrightarrow> Split (s @ c # t) c = s # Split t c"
  by (induction s) auto

lemma Split_eq_one: "Split s c = [b] \<Longrightarrow> s = b \<and> c \<notin> set b"
  by (induction s arbitrary: b) (auto split: if_splits list.splits)

lemma Split_two: "Split s c = [a, b] \<longleftrightarrow> s = a @ c # b \<and> c \<notin> set a \<and> c \<notin> set b"
proof (induction s arbitrary: a)
  case Nil
  then show ?case by simp
next
  case (Cons x s)
  show ?case
  proof (cases "x = c")
    case True
    have "Split s c = [b] \<longleftrightarrow> s = b \<and> c \<notin> set b"
      by (metis Split_eq_one Split_one)
    with True show ?thesis by (cases a) auto
  next
    case False
    then obtain p ps where sp: "Split s c = p # ps"
      by (meson Split_nonempty neq_Nil_conv)
    with False Cons [of "tl a"] show ?thesis
      by (cases a) auto
  qed
qed

text \<open>Trimming removes white space only, from the two ends.\<close>

lemma TrimLeftSpace_suffix: "\<exists>a. s = a @ TrimLeftSpace s"
proof (induction s rule: TrimLeftSpace.induct)
  case (1 s)
  show ?case
  proof (cases "s \<noteq> [] \<and> IsSpace (fst (DecodeRune s))")
    case True
    with 1 obtain a where "drop (snd (DecodeRune s)) s = a @ TrimLeftSpace (drop (snd (DecodeRune s)) s)"
      by blast
    with True show ?thesis
      by (metis TrimLeftSpace.simps append_assoc append_take_drop_id)
  next
    case False
    then show ?thesis by (subst TrimLeftSpace.simps) auto
  qed
qed

lemma TrimRightSpace_prefix: "\<exists>b. s = TrimRightSpace s @ b"
proof (induction s rule: TrimRightSpace.induct)
  case (1 s)
  let ?t = "take (length s - snd (DecodeLastRune s)) s"
  show ?case
  proof (cases "s \<noteq> [] \<and> IsSpace (fst (DecodeLastRune s))")
    case True
    with 1 obtain b where "?t = TrimRightSpace ?t @ b"
      by blast
    with True show ?thesis
      by (metis TrimRightSpace.simps append_assoc append_take_drop_id)
  next
    case False
    then show ?thesis by (subst TrimRightSpace.simps) auto
  qed
qed

lemma TrimSpace_infix: "\<exists>a b. s = a @ TrimSpace s @ b"
  using TrimLeftSpace_suffix [of s] TrimRightSpace_prefix [of "TrimLeftSpace s"]
  by (metis TrimSpace_def)

lemma length_TrimSpace: "length (TrimSpace s) \<le> length s"
  by (metis TrimSpace_infix le_add1 le_add2 le_trans length_append)

text \<open>A string that neither starts nor ends with a space is not changed.\<close>

lemma TrimSpace_ascii_word:
  assumes "s \<noteq> []" "byte (hd s) < 0x80" "\<not> IsSpace (byte (hd s))" "byte (last s) < 0x80" "\<not> IsSpace (byte (last s))"
  shows "TrimSpace s = s"
proof -
  have "TrimLeftSpace s = s"
    using assms(1-3) by (subst TrimLeftSpace.simps) (auto simp: neq_Nil_conv DecodeRune_ascii)
  moreover have "DecodeLastRune s = (byte (last s), 1)"
  proof -
    have "s ! (length s - 1) = last s" "drop (length s - 1) s = [last s]"
      using assms(1) by (simp_all add: last_conv_nth Cons_nth_drop_Suc [symmetric])
    then show ?thesis
      using assms(1,4)
      by (simp add: DecodeLastRune_def last_rune_at_def rune_start_def within_def DecodeRune_ascii Suc_le_eq)
  qed
  then have "TrimRightSpace s = s"
    using assms(5) by (subst TrimRightSpace.simps) simp
  ultimately show ?thesis
    by (simp add: TrimSpace_def)
qed

subsection \<open>Statements that may return an error early\<close>

type_synonym go_int = "64 word"

text \<open>\<open>if err := m(); err != nil { return err }; k()\<close> on a state.\<close>

definition seqE :: "('s \<Rightarrow> 'e option \<times> 's) \<Rightarrow> ('s \<Rightarrow> 'e option \<times> 's) \<Rightarrow> 's \<Rightarrow> 'e option \<times> 's" where
  "seqE m k s = (case m s of (Some e, s') \<Rightarrow> (Some e, s') | (None, s') \<Rightarrow> k s')"

text \<open>\<open>for _, x := range xs { if err := body(x); err != nil { return err } }\<close>\<close>

fun forE :: "('a \<Rightarrow> 's \<Rightarrow> 'e option \<times> 's) \<Rightarrow> 'a list \<Rightarrow> 's \<Rightarrow> 'e option \<times> 's" where
  "forE body [] s = (None, s)"
| "forE body (x # xs) s = seqE (body x) (forE body xs) s"

lemma seqE_None: "seqE m k s = (None, t) \<longleftrightarrow> (\<exists>s'. m s = (None, s') \<and> k s' = (None, t))"
  by (auto simp: seqE_def split: prod.splits option.splits)

lemma seqE_Some:
  "seqE m k s = (Some e, t) \<longleftrightarrow> m s = (Some e, t) \<or> (\<exists>s'. m s = (None, s') \<and> k s' = (Some e, t))"
  by (auto simp: seqE_def split: prod.splits option.splits)

text \<open>The same loop over a function that builds a result: \<open>foldE\<close>.\<close>

fun foldE :: "('a \<Rightarrow> 's \<Rightarrow> 'e + 's) \<Rightarrow> 'a list \<Rightarrow> 's \<Rightarrow> 'e + 's" where
  "foldE f [] s = Inr s"
| "foldE f (x # xs) s = (case f x s of Inl e \<Rightarrow> Inl e | Inr s' \<Rightarrow> foldE f xs s')"

text \<open>Every step that keeps a property makes the loop keep it.\<close>

lemma foldE_invariant:
  assumes "foldE f xs s = Inr t" and "P s"
    and "\<And>x s s'. x \<in> set xs \<Longrightarrow> P s \<Longrightarrow> f x s = Inr s' \<Longrightarrow> P s'"
  shows "P t"
  using assms
proof (induction xs arbitrary: s)
  case Nil
  then show ?case by simp
next
  case (Cons x xs)
  from Cons.prems(1) obtain s' where x: "f x s = Inr s'" and xs: "foldE f xs s' = Inr t"
    by (auto split: sum.splits)
  from x Cons.prems(2,3) have "P s'" by auto
  with xs show ?case
    using Cons.IH [of s'] Cons.prems(3) by auto
qed

subsection \<open>Package context, values and maps\<close>

text \<open>Times and durations are nanoseconds. Of a context the program uses the
  deadline; \<open>context.WithTimeout\<close> keeps the earlier of the two.\<close>

record ctx =
  ctx_deadline :: "int option"

definition Background :: ctx where
  "Background = \<lparr>ctx_deadline = None\<rparr>"

definition WithTimeout :: "ctx \<Rightarrow> int \<Rightarrow> int \<Rightarrow> ctx" where
  "WithTimeout c now d =
    c\<lparr>ctx_deadline := (case ctx_deadline c of
        None \<Rightarrow> Some (now + d) | Some t \<Rightarrow> Some (min t (now + d)))\<rparr>"

lemma WithTimeout_bound:
  "\<exists>t. ctx_deadline (WithTimeout c now d) = Some t \<and> t \<le> now + d"
  by (auto simp: WithTimeout_def split: option.split)

text \<open>A Go \<open>any\<close> as \<open>encoding/json\<close> decodes it (a \<open>float64\<close> by its bits), and
  Go maps with string keys: the entries, or \<open>None\<close> for the nil map.\<close>

datatype any =
    ANil | ABool bool | AFloat64 "64 word" | AString string
  | ASlice "any list" | AMap "(string \<times> any) list"

type_synonym any_map = "(string \<times> any) list option"
type_synonym string_map = "(string \<times> string) list option"

end
