(* ===== verification/GoErrors.thy ===== *)
theory GoErrors
  imports GoBase
begin

text \<open>
  Go error values, from internal/domain/notification/errors.go,
  internal/domain/template/errors.go, internal/app/notification/errors.go and
  the error variables of internal/domain/provider. A package-level
  \<open>errors.New\<close> variable is a \<open>Sentinel\<close>, compared by identity; an error type
  of the program is a constructor with its fields; \<open>fmt.Errorf\<close> with one
  \<open>%w\<close> is \<open>Errorf\<close> with the parts of its format; an echo HTTP error
  carries its code, its message, the text its \<open>Error\<close> method returns and its
  internal error; any other error of a third-party package is \<open>External\<close>.
  \<open>chain\<close> is the sequence \<open>errors.Is\<close> and \<open>errors.As\<close> walk through with
  \<open>Unwrap\<close>.
\<close>

datatype sentinel =
    ErrInvalidType | ErrInvalidPriority | ErrEmptyRecipient | ErrPublishFailed
  | ErrInvalidEmail | ErrEmptyBody | ErrInvalidPhoneNumber | ErrEmptyMessage
  | ErrInvalidDeviceToken | ErrEmptyPushBody
  | ErrTemplateNotFound | ErrNoDefaultTemplate

text \<open>A format string, cut at its verbs: literal text and \<open>%s\<close> arguments are
  \<open>Lit\<close>, a \<open>%q\<close> argument is \<open>Quoted\<close>, \<open>%w\<close> is \<open>Cause\<close>.\<close>

datatype fmt_part = Lit string | Quoted string | Cause

datatype go_error =
    Sentinel sentinel
  | ValidationError string go_error
  | PermanentError go_error
  | RenderError string go_error
  | Errorf "fmt_part list" go_error
  | ErrorfNew "fmt_part list"
  | HTTPError int string string "go_error option"
  | External string

type_synonym 'a result = "go_error + 'a"

fun sentinel_text :: "sentinel \<Rightarrow> string" where
  "sentinel_text ErrInvalidType = ''invalid notification type''"
| "sentinel_text ErrInvalidPriority = ''invalid notification priority''"
| "sentinel_text ErrEmptyRecipient = ''recipient address is empty''"
| "sentinel_text ErrPublishFailed = ''failed to publish notification''"
| "sentinel_text ErrInvalidEmail = ''invalid email address''"
| "sentinel_text ErrEmptyBody = ''email body cannot be empty''"
| "sentinel_text ErrInvalidPhoneNumber = ''invalid phone number''"
| "sentinel_text ErrEmptyMessage = ''SMS message cannot be empty''"
| "sentinel_text ErrInvalidDeviceToken = ''invalid device token''"
| "sentinel_text ErrEmptyPushBody = ''push notification body cannot be empty''"
| "sentinel_text ErrTemplateNotFound = ''template not found''"
| "sentinel_text ErrNoDefaultTemplate = ''no default template for notification type''"

text \<open>\<open>Unwrap\<close> of each error type.\<close>

fun Unwrap :: "go_error \<Rightarrow> go_error option" where
  "Unwrap (ValidationError f e) = Some e"
| "Unwrap (PermanentError e) = Some e"
| "Unwrap (RenderError f e) = Some e"
| "Unwrap (Errorf ps e) = Some e"
| "Unwrap (HTTPError c m t i) = i"
| "Unwrap _ = None"

fun chain :: "go_error \<Rightarrow> go_error list" where
  "chain (ValidationError f e) = ValidationError f e # chain e"
| "chain (PermanentError e) = PermanentError e # chain e"
| "chain (RenderError f e) = RenderError f e # chain e"
| "chain (Errorf ps e) = Errorf ps e # chain e"
| "chain (HTTPError c m t (Some e)) = HTTPError c m t (Some e) # chain e"
| "chain e = [e]"

text \<open>\<open>Error()\<close> of each error type; \<open>q\<close> is \<open>strconv.Quote\<close>.\<close>

fun error_text :: "(string \<Rightarrow> string) \<Rightarrow> go_error \<Rightarrow> string" where
  "error_text q (Sentinel s) = sentinel_text s"
| "error_text q (ValidationError f e) = ''validation error on '' @ f @ '': '' @ error_text q e"
| "error_text q (PermanentError e) = error_text q e"
| "error_text q (RenderError f e) = ''failed to render template '' @ f @ '': '' @ error_text q e"
| "error_text q (Errorf ps e) =
     concat (map (\<lambda>p. case p of Lit s \<Rightarrow> s | Quoted s \<Rightarrow> q s | Cause \<Rightarrow> error_text q e) ps)"
| "error_text q (ErrorfNew ps) =
     concat (map (\<lambda>p. case p of Lit s \<Rightarrow> s | Quoted s \<Rightarrow> q s | Cause \<Rightarrow> []) ps)"
| "error_text q (HTTPError c m t i) = t"
| "error_text q (External t) = t"

definition errors_Is :: "go_error \<Rightarrow> sentinel \<Rightarrow> bool" where
  "errors_Is e s \<longleftrightarrow> Sentinel s \<in> set (chain e)"

text \<open>\<open>errors.As\<close> with a target of the given type: the first error of the chain
  with that type.\<close>

fun is_ValidationError :: "go_error \<Rightarrow> bool" where
  "is_ValidationError (ValidationError f e) = True"
| "is_ValidationError _ = False"

fun is_PermanentError :: "go_error \<Rightarrow> bool" where
  "is_PermanentError (PermanentError e) = True"
| "is_PermanentError _ = False"

fun is_HTTPError :: "go_error \<Rightarrow> bool" where
  "is_HTTPError (HTTPError c m t i) = True"
| "is_HTTPError _ = False"

definition errors_As :: "(go_error \<Rightarrow> bool) \<Rightarrow> go_error \<Rightarrow> go_error option" where
  "errors_As is_target e = List.find is_target (chain e)"

text \<open>The constructors of the program.\<close>

definition NewValidationError :: "string \<Rightarrow> go_error \<Rightarrow> go_error" where
  "NewValidationError field err = ValidationError field err"

definition NewRenderError :: "string \<Rightarrow> go_error \<Rightarrow> go_error" where
  "NewRenderError field err = RenderError field err"

definition newPermanentError :: "go_error \<Rightarrow> go_error" where
  "newPermanentError err = PermanentError err"

lemmas error_constructors = NewValidationError_def NewRenderError_def newPermanentError_def

text \<open>The chain starts with the error and goes on with what it wraps.\<close>

lemma chain_Unwrap: "chain e = e # (case Unwrap e of None \<Rightarrow> [] | Some e' \<Rightarrow> chain e')"
  by (cases e rule: chain.cases) simp_all

lemma chain_nonempty [simp]: "chain e \<noteq> []"
  by (subst chain_Unwrap) simp

lemma errors_Is_simps [simp]:
  "errors_Is (Sentinel t) s \<longleftrightarrow> t = s"
  "errors_Is (ValidationError f e) s \<longleftrightarrow> errors_Is e s"
  "errors_Is (PermanentError e) s \<longleftrightarrow> errors_Is e s"
  "errors_Is (RenderError f e) s \<longleftrightarrow> errors_Is e s"
  "errors_Is (Errorf ps e) s \<longleftrightarrow> errors_Is e s"
  "errors_Is (ErrorfNew ps) s \<longleftrightarrow> False"
  "errors_Is (External x) s \<longleftrightarrow> False"
  by (auto simp: errors_Is_def)

lemma errors_As_step:
  "is_target e \<Longrightarrow> errors_As is_target e = Some e"
  "\<not> is_target e \<Longrightarrow> errors_As is_target e = (case Unwrap e of None \<Rightarrow> None | Some e' \<Rightarrow> errors_As is_target e')"
  by (simp_all add: errors_As_def chain_Unwrap [of e] split: option.split)

lemma errors_As_Errorf [simp]:
  "errors_As is_ValidationError (Errorf ps e) = errors_As is_ValidationError e"
  "errors_As is_PermanentError (Errorf ps e) = errors_As is_PermanentError e"
  "errors_As is_HTTPError (Errorf ps e) = errors_As is_HTTPError e"
  by (simp_all add: errors_As_step)

lemma errors_As_Sentinel [simp]:
  "errors_As is_ValidationError (Sentinel s) = None"
  "errors_As is_PermanentError (Sentinel s) = None"
  "errors_As is_HTTPError (Sentinel s) = None"
  by (simp_all add: errors_As_step)

lemma errors_As_own [simp]:
  "errors_As is_ValidationError (ValidationError f e) = Some (ValidationError f e)"
  "errors_As is_PermanentError (PermanentError e) = Some (PermanentError e)"
  "errors_As is_HTTPError (HTTPError c m t i) = Some (HTTPError c m t i)"
  by (simp_all add: errors_As_step)

lemma errors_As_Some_is: "errors_As P e = Some e' \<Longrightarrow> P e'"
  by (auto simp: errors_As_def find_Some_iff)

end
