(* ===== verification/Go_Strconv.thy ===== *)
theory Go_Strconv
  imports GoBase
begin

text \<open>
  The parts of package \<open>strconv\<close> the program and the JSON codec use: decimal
  numbers. \<open>Atoi\<close> is \<open>strconv.Atoi\<close> on a 64-bit machine, which is also
  \<open>strconv.ParseInt\<close> with base 10 and 64 bits; \<open>FormatInt\<close> is
  \<open>strconv.FormatInt\<close> with base 10. \<open>pad\<close> writes a number with a fixed
  number of digits, as package \<open>time\<close> does.
\<close>

definition decimal_digit :: "char \<Rightarrow> bool" where
  "decimal_digit c \<longleftrightarrow> 48 \<le> byte c \<and> byte c \<le> 57"

definition decimal_value :: "string \<Rightarrow> int" where
  "decimal_value ds = foldl (\<lambda>v c. 10 * v + (int (byte c) - 48)) 0 ds"

definition Atoi :: "string \<Rightarrow> go_int option" where
  "Atoi s =
    (let digits = (case s of [] \<Rightarrow> [] | c # cs \<Rightarrow> if c = CHR ''-'' \<or> c = CHR ''+'' then cs else s);
         v = (if HasPrefix s ''-'' then - decimal_value digits else decimal_value digits)
     in if digits = [] \<or> \<not> list_all decimal_digit digits then None
        else if v < - (2 ^ 63) \<or> 2 ^ 63 \<le> v then None
        else Some (word_of_int v))"

definition digit_char :: "nat \<Rightarrow> char" where
  "digit_char d = char_of (48 + d)"

fun decimal :: "nat \<Rightarrow> string" where
  "decimal n = (if n < 10 then [digit_char n] else decimal (n div 10) @ [digit_char (n mod 10)])"

declare decimal.simps [simp del]

definition FormatInt :: "int \<Rightarrow> string" where
  "FormatInt i = (if i < 0 then CHR ''-'' # decimal (nat (- i)) else decimal (nat i))"

primrec pad :: "nat \<Rightarrow> nat \<Rightarrow> string" where
  "pad 0 n = []"
| "pad (Suc k) n = pad k (n div 10) @ [digit_char (n mod 10)]"

subsection \<open>Reading back\<close>

lemma decimal_value_append: "decimal_value (ds @ [c]) = 10 * decimal_value ds + (int (byte c) - 48)"
  by (simp add: decimal_value_def)

lemma decimal_value_Nil [simp]: "decimal_value [] = 0"
  by (simp add: decimal_value_def)

lemma decimal_value_bounds:
  "list_all decimal_digit ds \<Longrightarrow> 0 \<le> decimal_value ds \<and> decimal_value ds < 10 ^ length ds"
proof (induction ds rule: rev_induct)
  case Nil
  then show ?case by (simp add: decimal_value_def)
next
  case (snoc c ds)
  then show ?case by (auto simp: decimal_value_append decimal_digit_def)
qed

lemma byte_digit_char [simp]: "d < 10 \<Longrightarrow> byte (digit_char d) = 48 + d"
  by (simp add: digit_char_def)

lemma decimal_digit_char [simp]: "d < 10 \<Longrightarrow> decimal_digit (digit_char d)"
  by (simp add: decimal_digit_def)

lemma digits_decimal: "decimal n \<noteq> [] \<and> list_all decimal_digit (decimal n)"
  by (induction n rule: decimal.induct) (subst (1 2) decimal.simps, simp)

lemma value_decimal: "decimal_value (decimal n) = int n"
proof (induction n rule: decimal.induct)
  case (1 n)
  show ?case
  proof (cases "n < 10")
    case True
    then show ?thesis by (subst decimal.simps) (simp add: decimal_value_append [of "[]", simplified])
  next
    case False
    have "10 * int (n div 10) + int (n mod 10) = int n"
      by (metis mult_div_mod_eq of_nat_add of_nat_mult of_nat_numeral)
    with False 1 show ?thesis by (subst decimal.simps) (simp add: decimal_value_append)
  qed
qed

lemma decimal_no_sign: "hd (decimal n) \<noteq> CHR ''-'' \<and> hd (decimal n) \<noteq> CHR ''+''"
proof -
  have "decimal_digit (hd (decimal n))"
    using digits_decimal [of n] by (cases "decimal n") auto
  then show ?thesis by (auto simp: decimal_digit_def)
qed

lemma Atoi_FormatInt: "Atoi (FormatInt (sint w)) = Some (w :: go_int)"
proof -
  have range: "- (2 ^ 63) \<le> sint w" "sint w < 2 ^ 63"
    using sint_ge [of w] sint_lt [of w] by simp_all
  have same: "word_of_int (sint w) = w" by simp
  show ?thesis
  proof (cases "sint w < 0")
    case True
    have "decimal_value (decimal (nat (- sint w))) = - sint w"
      using True by (simp add: value_decimal)
    with True range same digits_decimal [of "nat (- sint w)"] show ?thesis
      by (simp add: Atoi_def FormatInt_def HasPrefix_byte)
  next
    case False
    obtain c cs where d: "decimal (nat (sint w)) = c # cs"
      using digits_decimal [of "nat (sint w)"] by (cases "decimal (nat (sint w))") auto
    have "decimal_value (c # cs) = sint w"
      using False value_decimal [of "nat (sint w)"] by (simp add: d)
    with False range same digits_decimal [of "nat (sint w)"] decimal_no_sign [of "nat (sint w)"] show ?thesis
      by (simp add: Atoi_def FormatInt_def HasPrefix_byte d)
  qed
qed

lemma length_pad [simp]: "length (pad k n) = k"
  by (induction k arbitrary: n) simp_all

lemma digits_pad [simp]: "list_all decimal_digit (pad k n)"
  by (induction k arbitrary: n) simp_all

lemma value_pad: "n < 10 ^ k \<Longrightarrow> decimal_value (pad k n) = int n"
proof (induction k arbitrary: n)
  case (Suc k)
  then have "n div 10 < 10 ^ k" by (simp add: less_mult_imp_div_less mult.commute)
  moreover have "10 * int (n div 10) + int (n mod 10) = int n"
    by (metis mult_div_mod_eq of_nat_add of_nat_mult of_nat_numeral)
  ultimately show ?case by (simp add: Suc.IH decimal_value_append)
qed simp

end
