(* ===== verification/Go_Json.thy ===== *)
theory Go_Json
  imports Go_Strconv "HOL-Library.AList"
begin

text \<open>
  Package \<open>encoding/json\<close> at the types the program gives it, as the standard
  library defines it: the text of a value (\<open>print\<close>, the compact form
  \<open>Marshal\<close> writes), the parser with its nesting limit (\<open>parse\<close>), the
  literals of strings with HTML escaping, UTF-8 repair and surrogate pairs, and the
  values of type \<open>any\<close> both ways. A \<open>json\<close> tree keeps numbers and strings
  as they are written. \<open>floats\<close> has \<open>strconv\<close>'s shortest formatting of a
  \<open>float64\<close> and its \<open>ParseFloat\<close>. A map is the list of its entries sorted by key,
  which is how it is written. The text of an error is only ever logged, so
  all errors of the codec are one.
\<close>

datatype json =
    JNull | JBool bool | JNum string | JStr string
  | JArr "json list" | JObj "(string \<times> json) list"

abbreviation dquote :: char where "dquote \<equiv> CHR 0x22"
abbreviation backslash :: char where "backslash \<equiv> CHR 0x5C"

subsection \<open>String literals\<close>

definition hex_char :: "nat \<Rightarrow> char" where
  "hex_char d = (if d < 10 then char_of (48 + d) else char_of (87 + d))"

definition hex_digit :: "char \<Rightarrow> nat option" where
  "hex_digit c =
    (let b = byte c in
     if 48 \<le> b \<and> b \<le> 57 then Some (b - 48)
     else if 97 \<le> b \<and> b \<le> 102 then Some (b - 87)
     else if 65 \<le> b \<and> b \<le> 70 then Some (b - 55)
     else None)"

text \<open>\<open>appendString\<close> with \<open>escapeHTML\<close>: \<open>escape_ascii\<close> of a byte below 0x80.\<close>

definition escape_ascii :: "char \<Rightarrow> string" where
  "escape_ascii c =
    (if c = backslash \<or> c = dquote then [backslash, c]
     else if byte c = 0x08 then [backslash, CHR ''b'']
     else if byte c = 0x0C then [backslash, CHR ''f'']
     else if byte c = 0x0A then [backslash, CHR ''n'']
     else if byte c = 0x0D then [backslash, CHR ''r'']
     else if byte c = 0x09 then [backslash, CHR ''t'']
     else if byte c < 0x20 \<or> c = CHR ''<'' \<or> c = CHR ''>'' \<or> c = CHR ''&''
       then [backslash, CHR ''u'', CHR ''0'', CHR ''0'', hex_char (byte c div 16), hex_char (byte c mod 16)]
     else [c])"

function appendString :: "string \<Rightarrow> string" where
  "appendString s =
    (if s = [] then []
     else
       (let (r, n) = DecodeRune s in
        (if r < 0x80 then escape_ascii (hd s)
         else if r = RuneError \<and> n = 1 then [backslash] @ ''ufffd''
         else if r = 0x2028 \<or> r = 0x2029 then [backslash] @ ''u202'' @ [hex_char (r mod 16)]
         else take n s) @ appendString (drop n s)))"
  by pat_completeness auto
termination
proof (relation "measure length")
  fix s x r n
  assume "s \<noteq> []" "x = DecodeRune s" "(r, n) = x"
  then have "n = snd (DecodeRune s)" by (metis snd_conv)
  with \<open>s \<noteq> []\<close> show "(drop n s, s) \<in> measure length"
    using DecodeRune_width [of s] by auto
qed simp

declare appendString.simps [simp del]

text \<open>The scanner inside a string literal: the bytes up to the closing quote, and what follows it.\<close>

definition is_hex :: "char \<Rightarrow> bool" where
  "is_hex c \<longleftrightarrow> hex_digit c \<noteq> None"

definition simple_escape :: "char \<Rightarrow> char option" where
  "simple_escape c =
    (if c = dquote \<or> c = backslash \<or> c = CHR ''/'' then Some c
     else if c = CHR ''b'' then Some (CHR 0x08)
     else if c = CHR ''f'' then Some (CHR 0x0C)
     else if c = CHR ''n'' then Some (CHR 0x0A)
     else if c = CHR ''r'' then Some (CHR 0x0D)
     else if c = CHR ''t'' then Some (CHR 0x09)
     else None)"

fun scan_string :: "string \<Rightarrow> (string \<times> string) option" where
  "scan_string [] = None"
| "scan_string (c # s) =
    (if c = dquote then Some ([], s)
     else if byte c < 0x20 then None
     else if c = backslash then
       (case s of
          [] \<Rightarrow> None
        | e # t \<Rightarrow>
           if simple_escape e \<noteq> None then map_option (\<lambda>(raw, rest). (c # e # raw, rest)) (scan_string t)
           else if e = CHR ''u'' then
             (case t of
                h1 # h2 # h3 # h4 # u \<Rightarrow>
                  if is_hex h1 \<and> is_hex h2 \<and> is_hex h3 \<and> is_hex h4
                  then map_option (\<lambda>(raw, rest). (c # e # h1 # h2 # h3 # h4 # raw, rest)) (scan_string u)
                  else None
              | _ \<Rightarrow> None)
           else None)
     else map_option (\<lambda>(raw, rest). (c # raw, rest)) (scan_string s))"

text \<open>\<open>getu4\<close>: the code point of an escape \<open>uXXXX\<close> at the start.\<close>

definition getu4 :: "string \<Rightarrow> nat option" where
  "getu4 s =
    (case s of
       b # u # h1 # h2 # h3 # h4 # rest \<Rightarrow>
         if b = backslash \<and> u = CHR ''u'' then
           (case (hex_digit h1, hex_digit h2, hex_digit h3, hex_digit h4) of
              (Some a, Some b, Some c, Some d) \<Rightarrow> Some (((a * 16 + b) * 16 + c) * 16 + d)
            | _ \<Rightarrow> None)
         else None
     | _ \<Rightarrow> None)"

definition surrogate :: "nat \<Rightarrow> bool" where
  "surrogate r \<longleftrightarrow> 0xD800 \<le> r \<and> r < 0xE000"

text \<open>\<open>utf16.DecodeRune\<close>, \<open>None\<close> for the replacement character.\<close>

definition utf16_DecodeRune :: "nat \<Rightarrow> nat \<Rightarrow> nat option" where
  "utf16_DecodeRune r1 r2 =
    (if 0xD800 \<le> r1 \<and> r1 < 0xDC00 \<and> 0xDC00 \<le> r2 \<and> r2 < 0xE000
     then Some ((r1 - 0xD800) * 0x400 + (r2 - 0xDC00) + 0x10000) else None)"

text \<open>One step of \<open>unquote\<close> on a scanned literal: what is written and how many bytes are read.\<close>

definition unquote_step :: "string \<Rightarrow> string \<times> nat" where
  "unquote_step s =
    (case s of
       [] \<Rightarrow> ([], 1)
     | c # t \<Rightarrow>
        if c = backslash then
          (case getu4 s of
             Some rr \<Rightarrow>
               if surrogate rr then
                 (case getu4 (drop 6 s) of
                    Some rr1 \<Rightarrow> (case utf16_DecodeRune rr rr1 of
                        Some d \<Rightarrow> (EncodeRune d, 12) | None \<Rightarrow> (EncodeRune RuneError, 6))
                  | None \<Rightarrow> (EncodeRune RuneError, 6))
               else (EncodeRune rr, 6)
           | None \<Rightarrow>
               (case t of [] \<Rightarrow> ([], 1)
                | e # u \<Rightarrow> (case simple_escape e of Some x \<Rightarrow> ([x], 2) | None \<Rightarrow> ([], 1))))
        else if byte c < 0x80 then ([c], 1)
        else (let (r, n) = DecodeRune s in (EncodeRune r, n)))"

lemma unquote_step_pos: "s \<noteq> [] \<Longrightarrow> 0 < snd (unquote_step s)"
  using DecodeRune_width [of s]
  by (auto simp: unquote_step_def Let_def split: list.split option.split prod.split)

function unquote :: "string \<Rightarrow> string" where
  "unquote s = (if s = [] then [] else fst (unquote_step s) @ unquote (drop (snd (unquote_step s)) s))"
  by pat_completeness auto
termination
  by (relation "measure length") (use unquote_step_pos in auto)

declare unquote.simps [simp del]

subsection \<open>Numbers\<close>

definition number_char :: "char \<Rightarrow> bool" where
  "number_char c \<longleftrightarrow> decimal_digit c \<or> c \<in> set ''+-.eE''"

fun digits_then :: "string \<Rightarrow> string" where
  "digits_then [] = []"
| "digits_then (c # s) = (if decimal_digit c then digits_then s else c # s)"

text \<open>The grammar of numbers, as \<open>isValidNumber\<close> checks it stage by stage: after the sign and the integer part, the fraction and
  the exponent.\<close>

definition drop_fraction :: "string \<Rightarrow> string" where
  "drop_fraction s =
    (case s of
       p # d # t \<Rightarrow> if p = CHR ''.'' \<and> decimal_digit d then digits_then t else s
     | _ \<Rightarrow> s)"

definition exponent_ok :: "string \<Rightarrow> bool" where
  "exponent_ok s =
    (case s of
       e # x # t \<Rightarrow>
         if e = CHR ''e'' \<or> e = CHR ''E'' then
           (if x = CHR ''+'' \<or> x = CHR ''-'' then t \<noteq> [] \<and> digits_then t = [] else digits_then (x # t) = [])
         else False
     | [e] \<Rightarrow> False
     | [] \<Rightarrow> True)"

definition isValidNumber :: "string \<Rightarrow> bool" where
  "isValidNumber s =
    (let t = (case s of c # cs \<Rightarrow> if c = CHR ''-'' then cs else s | [] \<Rightarrow> []) in
     case t of
       [] \<Rightarrow> False
     | c # cs \<Rightarrow>
         if c = CHR ''0'' then exponent_ok (drop_fraction cs)
         else if decimal_digit c then exponent_ok (drop_fraction (digits_then cs))
         else False)"

definition scan_number :: "string \<Rightarrow> (string \<times> string) option" where
  "scan_number s =
    (let l = takeWhile number_char s
     in if isValidNumber l then Some (l, dropWhile number_char s) else None)"

subsection \<open>Printing and parsing\<close>

definition join :: "string \<Rightarrow> string list \<Rightarrow> string" where
  "join sep xs = (case xs of [] \<Rightarrow> [] | y # ys \<Rightarrow> y @ concat (map (\<lambda>z. sep @ z) ys))"

fun print :: "json \<Rightarrow> string" where
  "print JNull = ''null''"
| "print (JBool b) = (if b then ''true'' else ''false'')"
| "print (JNum l) = l"
| "print (JStr raw) = [dquote] @ raw @ [dquote]"
| "print (JArr xs) = ''['' @ join '','' (map print xs) @ '']''"
| "print (JObj kvs) = ''{'' @ join '','' (map (\<lambda>(k, v). [dquote] @ k @ [dquote] @ '':'' @ print v) kvs) @ ''}''"

definition is_ws :: "char \<Rightarrow> bool" where
  "is_ws c \<longleftrightarrow> byte c \<in> {0x20, 0x09, 0x0D, 0x0A}"

definition skip_ws :: "string \<Rightarrow> string" where
  "skip_ws s = dropWhile is_ws s"

definition literal :: "string \<Rightarrow> json \<Rightarrow> string \<Rightarrow> (json \<times> string) option" where
  "literal word value s = (if HasPrefix s word then Some (value, drop (length word) s) else None)"

text \<open>The parser. The first argument is fuel, of which \<open>2 * length s + 2\<close> is always
  enough; the second is how deep objects and arrays may still nest.\<close>

fun parse_value :: "nat \<Rightarrow> nat \<Rightarrow> string \<Rightarrow> (json \<times> string) option"
  and parse_elements :: "nat \<Rightarrow> nat \<Rightarrow> string \<Rightarrow> (json list \<times> string) option"
  and parse_members :: "nat \<Rightarrow> nat \<Rightarrow> string \<Rightarrow> ((string \<times> json) list \<times> string) option" where
  "parse_value 0 d s = None"
| "parse_value (Suc f) d s =
    (case skip_ws s of
       [] \<Rightarrow> None
     | c # t \<Rightarrow>
        if c = dquote then map_option (\<lambda>(raw, rest). (JStr raw, rest)) (scan_string t)
        else if c = CHR ''{'' then
          (case d of
             0 \<Rightarrow> None
           | Suc d' \<Rightarrow>
              if HasPrefix (skip_ws t) ''}'' then Some (JObj [], tl (skip_ws t))
              else map_option (\<lambda>(kvs, rest). (JObj kvs, rest)) (parse_members f d' t))
        else if c = CHR ''['' then
          (case d of
             0 \<Rightarrow> None
           | Suc d' \<Rightarrow>
              if HasPrefix (skip_ws t) '']'' then Some (JArr [], tl (skip_ws t))
              else map_option (\<lambda>(xs, rest). (JArr xs, rest)) (parse_elements f d' t))
        else if c = CHR ''n'' then literal ''null'' JNull (c # t)
        else if c = CHR ''t'' then literal ''true'' (JBool True) (c # t)
        else if c = CHR ''f'' then literal ''false'' (JBool False) (c # t)
        else map_option (\<lambda>(l, rest). (JNum l, rest)) (scan_number (c # t)))"
| "parse_elements 0 d s = None"
| "parse_elements (Suc f) d s =
    (case parse_value f d s of
       None \<Rightarrow> None
     | Some (x, t) \<Rightarrow>
        (case skip_ws t of
           [] \<Rightarrow> None
         | c # u \<Rightarrow>
            if c = CHR '']'' then Some ([x], u)
            else if c = CHR '','' then map_option (\<lambda>(xs, rest). (x # xs, rest)) (parse_elements f d u)
            else None))"
| "parse_members 0 d s = None"
| "parse_members (Suc f) d s =
    (case skip_ws s of
       [] \<Rightarrow> None
     | q # s1 \<Rightarrow>
        if q \<noteq> dquote then None
        else
          (case scan_string s1 of
             None \<Rightarrow> None
           | Some (k, s2) \<Rightarrow>
              (case skip_ws s2 of
                 [] \<Rightarrow> None
               | c # s3 \<Rightarrow>
                  if c \<noteq> CHR '':'' then None
                  else
                    (case parse_value f d s3 of
                       None \<Rightarrow> None
                     | Some (v, t) \<Rightarrow>
                        (case skip_ws t of
                           [] \<Rightarrow> None
                         | c # u \<Rightarrow>
                            if c = CHR ''}'' then Some ([(k, v)], u)
                            else if c = CHR '','' then map_option (\<lambda>(kvs, rest). ((k, v) # kvs, rest)) (parse_members f d u)
                            else None)))))"

definition maxNestingDepth :: nat where
  "maxNestingDepth = 10000"

definition parse :: "string \<Rightarrow> json option" where
  "parse s =
    (case parse_value (2 * length s + 2) maxNestingDepth s of
       Some (x, rest) \<Rightarrow> if skip_ws rest = [] then Some x else None
     | None \<Rightarrow> None)"

subsection \<open>Values of type any\<close>

record floats =
  fl_Format :: "64 word \<Rightarrow> string"
  fl_Parse :: "string \<Rightarrow> 64 word option"

text \<open>Infinities and NaNs have all exponent bits set.\<close>

definition finite_float :: "64 word \<Rightarrow> bool" where
  "finite_float w \<longleftrightarrow> take_bit 11 (drop_bit 52 w) \<noteq> 0x7FF"

definition those_list :: "'a option list \<Rightarrow> 'a list option" where
  "those_list xs = (if None \<in> set xs then None else Some (map the xs))"

text \<open>A map is written sorted by key.\<close>

definition sort_entries :: "(string \<times> 'a) list \<Rightarrow> (string \<times> 'a) list" where
  "sort_entries kvs = sort_key fst kvs"

fun encode_any :: "floats \<Rightarrow> any \<Rightarrow> json option" where
  "encode_any fl ANil = Some JNull"
| "encode_any fl (ABool b) = Some (JBool b)"
| "encode_any fl (AFloat64 w) = (if finite_float w then Some (JNum (fl_Format fl w)) else None)"
| "encode_any fl (AString s) = Some (JStr (appendString s))"
| "encode_any fl (ASlice xs) = map_option JArr (those_list (map (encode_any fl) xs))"
| "encode_any fl (AMap kvs) =
    map_option JObj (those_list (map (\<lambda>(k, x). map_option (Pair (appendString k)) x)
      (sort_entries (map (\<lambda>(k, v). (k, encode_any fl v)) kvs))))"

text \<open>A map is the list of its entries in the order of the keys; a key that is repeated in
  the text takes its last value.\<close>

definition map_of_entries :: "(string \<times> 'a) list \<Rightarrow> (string \<times> 'a) list" where
  "map_of_entries kvs = sort_entries (fold (\<lambda>(k, v). AList.update k v) kvs [])"

fun decode_any :: "floats \<Rightarrow> json \<Rightarrow> any option" where
  "decode_any fl JNull = Some ANil"
| "decode_any fl (JBool b) = Some (ABool b)"
| "decode_any fl (JNum l) = map_option AFloat64 (fl_Parse fl l)"
| "decode_any fl (JStr raw) = Some (AString (unquote raw))"
| "decode_any fl (JArr xs) = map_option ASlice (those_list (map (decode_any fl) xs))"
| "decode_any fl (JObj kvs) =
    map_option (\<lambda>es. AMap (map_of_entries es))
      (those_list (map (\<lambda>(k, x). map_option (Pair (unquote k)) (decode_any fl x)) kvs))"


subsection \<open>Strings survive, with invalid UTF-8 repaired\<close>

lemma hex_digit_char [simp]: "d < 16 \<Longrightarrow> hex_digit (hex_char d) = Some d"
  by (auto simp: hex_digit_def hex_char_def Let_def)

lemma hex_digit_zero [simp]: "hex_digit (CHR ''0'') = Some 0" "hex_digit (CHR ''2'') = Some 2"
  "hex_digit (CHR ''f'') = Some 15" "hex_digit (CHR ''d'') = Some 13"
  by (simp_all add: hex_digit_def)

lemma is_hex_simps [simp]: "d < 16 \<Longrightarrow> is_hex (hex_char d)" "is_hex (CHR ''0'')" "is_hex (CHR ''2'')"
  "is_hex (CHR ''f'')" "is_hex (CHR ''d'')"
  by (simp_all add: is_hex_def)

lemma simple_escape_u [simp]: "simple_escape (CHR ''u'') = None"
  by (simp add: simple_escape_def)

lemma simple_escape_simps [simp]:
  "simple_escape dquote = Some dquote" "simple_escape backslash = Some backslash"
  "simple_escape (CHR ''b'') = Some (CHR 0x08)" "simple_escape (CHR ''f'') = Some (CHR 0x0C)"
  "simple_escape (CHR ''n'') = Some (CHR 0x0A)" "simple_escape (CHR ''r'') = Some (CHR 0x0D)"
  "simple_escape (CHR ''t'') = Some (CHR 0x09)"
  by (simp_all add: simple_escape_def)

lemma byte_inject: "byte c = byte d \<longleftrightarrow> c = d"
  by (metis char_of_char)

lemma ascii_cases:
  obtains (quoted) "c = backslash \<or> c = dquote" "escape_ascii c = [backslash, c]"
  | (short) e where "escape_ascii c = [backslash, e]" "simple_escape e = Some c"
  | (hex) "escape_ascii c = [backslash, CHR ''u'', CHR ''0'', CHR ''0'', hex_char (byte c div 16), hex_char (byte c mod 16)]"
      "byte c < 0x80"
  | (plain) "escape_ascii c = [c]" "c \<noteq> backslash" "c \<noteq> dquote" "0x20 \<le> byte c"
proof -
  consider "c = backslash \<or> c = dquote" | "c = CHR 0x08" | "c = CHR 0x0C" | "c = CHR 0x0A" | "c = CHR 0x0D" | "c = CHR 0x09"
    | "byte c < 0x20" "c \<noteq> CHR 0x08" "c \<noteq> CHR 0x0C" "c \<noteq> CHR 0x0A" "c \<noteq> CHR 0x0D" "c \<noteq> CHR 0x09"
    | "c = CHR ''<'' \<or> c = CHR ''>'' \<or> c = CHR ''&''"
    | "0x20 \<le> byte c" "c \<noteq> backslash" "c \<noteq> dquote" "c \<noteq> CHR ''<''" "c \<noteq> CHR ''>''" "c \<noteq> CHR ''&''"
    by linarith
  then show thesis
  proof cases
    case 1
    then show ?thesis by (intro quoted) (auto simp: escape_ascii_def)
  next
    case 2
    show ?thesis by (rule short [of "CHR ''b''"]) (simp_all add: escape_ascii_def 2)
  next
    case 3
    show ?thesis by (rule short [of "CHR ''f''"]) (simp_all add: escape_ascii_def 3)
  next
    case 4
    show ?thesis by (rule short [of "CHR ''n''"]) (simp_all add: escape_ascii_def 4)
  next
    case 5
    show ?thesis by (rule short [of "CHR ''r''"]) (simp_all add: escape_ascii_def 5)
  next
    case 6
    show ?thesis by (rule short [of "CHR ''t''"]) (simp_all add: escape_ascii_def 6)
  next
    case 7
    then have "byte c \<noteq> 0x08" "byte c \<noteq> 0x0C" "byte c \<noteq> 0x0A" "byte c \<noteq> 0x0D" "byte c \<noteq> 0x09"
      using byte_inject [of c "CHR 0x08"] byte_inject [of c "CHR 0x0C"] byte_inject [of c "CHR 0x0A"]
        byte_inject [of c "CHR 0x0D"] byte_inject [of c "CHR 0x09"] by simp_all
    moreover have "c \<noteq> backslash" "c \<noteq> dquote" using 7(1) by auto
    ultimately show ?thesis using 7(1) by (intro hex) (simp_all add: escape_ascii_def)
  next
    case 8
    then show ?thesis by (intro hex) (auto simp: escape_ascii_def)
  next
    case 9
    then show ?thesis by (intro plain) (simp_all add: escape_ascii_def)
  qed
qed

lemma escape_ascii_scan:
  "scan_string (escape_ascii c @ t) = map_option (\<lambda>(raw, rest). (escape_ascii c @ raw, rest)) (scan_string t)"
proof (cases c rule: ascii_cases)
  case hex
  then have "byte c div 16 < 16" "byte c mod 16 < 16" by auto
  with hex show ?thesis by (simp del: char_of_char)
qed auto

lemma escape_ascii_unquote: "byte c < 0x80 \<Longrightarrow> unquote (escape_ascii c @ t) = c # unquote t"
proof (cases c rule: ascii_cases)
  case hex
  then have d: "byte c div 16 < 16" "byte c mod 16 < 16" by auto
  have "EncodeRune (byte c) = [c]" using hex(2) by (rule EncodeRune_ascii)
  moreover have "byte c div 16 * 16 + byte c mod 16 = byte c" by simp
  moreover have "\<not> surrogate (byte c)" using hex(2) by (simp add: surrogate_def)
  ultimately show ?thesis
    using hex(1) d by (subst unquote.simps) (simp add: unquote_step_def getu4_def)
next
  case (short e)
  then have "e \<noteq> CHR ''u''" by auto
  with short show ?thesis by (subst unquote.simps) (simp add: unquote_step_def getu4_def split: list.split)
next
  case quoted
  then show ?thesis by (subst unquote.simps) (auto simp: unquote_step_def getu4_def split: list.split)
next
  case plain
  assume "byte c < 0x80"
  with plain show ?thesis by (subst unquote.simps) (simp add: unquote_step_def)
qed


text \<open>A rune that is not an encoding error is written the way it was read.\<close>

lemma encode3:
  assumes "a < 0x10" "b < 0x40" "c < 0x40" "a = 0 \<Longrightarrow> 0x20 \<le> b" "a = 0xD \<Longrightarrow> b < 0x20"
  shows "EncodeRune (a * 0x1000 + b * 0x40 + c) = [char_of (0xE0 + a), char_of (0x80 + b), char_of (0x80 + c)]"
proof -
  define r where "r = a * 0x1000 + b * 0x40 + c"
  have "0x800 \<le> r" using assms by (cases "a = 0") (auto simp: r_def)
  moreover have "r < 0x10000" using assms by (simp add: r_def)
  moreover have "valid_rune r"
  proof (cases "a < 0xD \<or> a = 0xD")
    case True
    then have "r < 0xD800" using assms by (cases "a = 0xD") (auto simp: r_def)
    then show ?thesis by (simp add: valid_rune_def)
  next
    case False
    then have "0xE000 \<le> r" by (simp add: r_def)
    then show ?thesis using \<open>r < 0x10000\<close> by (simp add: valid_rune_def)
  qed
  moreover have "r div 0x1000 = a" "r div 0x40 = a * 0x40 + b"
    using assms by (auto simp: r_def)
  moreover have "r = c + (a * 0x40 + b) * 0x40" by (simp add: r_def)
  then have "r mod 0x40 = c" using assms(3) by (simp only: mod_mult_self1) simp
  moreover have "(a * 0x40 + b) mod 0x40 = b" using assms by simp
  ultimately show ?thesis
    unfolding r_def [symmetric] by (simp add: EncodeRune_def Let_def)
qed

lemma encode4:
  assumes "a < 5" "b < 0x40" "c < 0x40" "d < 0x40" "a = 0 \<Longrightarrow> 0x10 \<le> b" "a = 4 \<Longrightarrow> b < 0x10"
  shows "EncodeRune (a * 0x40000 + b * 0x1000 + c * 0x40 + d)
    = [char_of (0xF0 + a), char_of (0x80 + b), char_of (0x80 + c), char_of (0x80 + d)]"
proof -
  define r where "r = a * 0x40000 + b * 0x1000 + c * 0x40 + d"
  have "0x10000 \<le> r" using assms by (cases "a = 0") (auto simp: r_def)
  moreover have "r \<le> 0x10FFFF" using assms by (cases "a = 4") (auto simp: r_def)
  moreover have "valid_rune r" using calculation by (simp add: valid_rune_def)
  moreover have "r div 0x40000 = a" "r div 0x1000 = a * 0x40 + b" "r div 0x40 = (a * 0x40 + b) * 0x40 + c"
    using assms by (auto simp: r_def)
  moreover have "r = d + ((a * 0x40 + b) * 0x40 + c) * 0x40" by (simp add: r_def)
  then have "r mod 0x40 = d" using assms(4) by (simp only: mod_mult_self1) simp
  moreover have "(a * 0x40 + b) mod 0x40 = b" "(c + (a * 0x40 + b) * 0x40) mod 0x40 = c"
    using assms by (simp, simp only: mod_mult_self1) simp
  then have "((a * 0x40 + b) * 0x40 + c) mod 0x40 = c" by (simp only: add.commute)
  ultimately show ?thesis
    unfolding r_def [symmetric] by (simp add: EncodeRune_def Let_def)
qed

lemma cont_obtain: "cont c \<Longrightarrow> \<exists>b < 0x40. byte c = 0x80 + b"
  by (auto simp: within_def intro: exI [of _ "byte c - 0x80"])

lemma char_byte: "byte c = n \<Longrightarrow> char_of n = c"
  by auto

lemma encode_decode:
  assumes "s \<noteq> []" "DecodeRune s = (r, n)" "\<not> (r = RuneError \<and> n = 1)"
  shows "take n s = EncodeRune r \<and> (0x80 \<le> r \<longrightarrow> (\<forall>c \<in> set (take n s). 0x80 \<le> byte c))
    \<and> (r < 0x80 \<longrightarrow> byte (hd s) = r \<and> n = 1)"
proof -
  obtain c0 cs where s: "s = c0 # cs" using assms(1) by (cases s) auto
  consider "byte c0 < 0x80" | "0x80 \<le> byte c0" "byte c0 < 0xC2 \<or> 0xF4 < byte c0" | "0xC2 \<le> byte c0" "byte c0 < 0xE0"
    | "0xE0 \<le> byte c0" "byte c0 < 0xF0" | "0xF0 \<le> byte c0" "byte c0 \<le> 0xF4"
    by linarith
  then show ?thesis
  proof cases
    case 1
    with assms(2) s have "r = byte c0" "n = 1" by (auto simp: DecodeRune_def)
    with 1 s show ?thesis by (simp add: EncodeRune_ascii)
  next
    case 2
    with assms(2,3) s show ?thesis by (auto simp: DecodeRune_def)
  next
    case 3
    with assms(2,3) s obtain c1 ct where cs: "cs = c1 # ct" "cont c1"
        and r: "r = (byte c0 - 0xC0) * 0x40 + (byte c1 - 0x80)" "n = 2"
      by (auto simp: DecodeRune_def Let_def split: list.splits if_splits)
    obtain b where b: "b < 0x40" "byte c1 = 0x80 + b" using cs(2) cont_obtain by blast
    obtain a where a: "byte c0 = 0xC0 + a" "2 \<le> a" "a < 0x20"
      using 3 by (intro that [of "byte c0 - 0xC0"]) auto
    have r': "r = a * 0x40 + b" using r(1) a b by simp
    moreover have "0x80 \<le> r" "r < 0x800" "r div 0x40 = a" "r mod 0x40 = b" "valid_rune r"
      using a b by (auto simp: r' valid_rune_def)
    ultimately show ?thesis
      using char_byte [OF a(1)] char_byte [OF b(2)] a b by (simp add: s cs r(2) EncodeRune_def Let_def)
  next
    case 4
    with assms(2,3) s obtain c1 c2 ct where cs: "cs = c1 # c2 # ct" "cont c2"
        and w: "within (if byte c0 = 0xE0 then 0xA0 else 0x80) (if byte c0 = 0xED then 0x9F else 0xBF) c1"
        and r: "r = (byte c0 - 0xE0) * 0x1000 + (byte c1 - 0x80) * 0x40 + (byte c2 - 0x80)" "n = 3"
      unfolding DecodeRune_def Let_def by (auto split: list.splits if_splits)
    obtain c where c: "c < 0x40" "byte c2 = 0x80 + c" using cs(2) cont_obtain by blast
    have "cont c1" using w by (auto simp: within_def split: if_splits)
    then obtain b where b: "b < 0x40" "byte c1 = 0x80 + b" using cont_obtain by blast
    obtain a where a: "byte c0 = 0xE0 + a" "a < 0x10"
      using 4 by (intro that [of "byte c0 - 0xE0"]) auto
    have lim: "a = 0 \<Longrightarrow> 0x20 \<le> b" "a = 0xD \<Longrightarrow> b < 0x20"
      using w a b by (auto simp: within_def)
    have r': "r = a * 0x1000 + b * 0x40 + c" using r(1) a b c by simp
    moreover have "0x80 \<le> r" using lim by (cases "a = 0") (auto simp: r')
    ultimately show ?thesis
      using encode3 [OF a(2) b(1) c(1) lim] char_byte [OF a(1)] char_byte [OF b(2)] char_byte [OF c(2)] a b c
      by (simp add: s cs r(2))
  next
    case 5
    with assms(2,3) s obtain c1 c2 c3 ct where cs: "cs = c1 # c2 # c3 # ct" "cont c2" "cont c3"
        and w: "within (if byte c0 = 0xF0 then 0x90 else 0x80) (if byte c0 = 0xF4 then 0x8F else 0xBF) c1"
        and r: "r = (byte c0 - 0xF0) * 0x40000 + (byte c1 - 0x80) * 0x1000 + (byte c2 - 0x80) * 0x40 + (byte c3 - 0x80)" "n = 4"
      unfolding DecodeRune_def Let_def by (auto split: list.splits if_splits)
    obtain c where c: "c < 0x40" "byte c2 = 0x80 + c" using cs(2) cont_obtain by blast
    obtain d where d: "d < 0x40" "byte c3 = 0x80 + d" using cs(3) cont_obtain by blast
    have "cont c1" using w by (auto simp: within_def split: if_splits)
    then obtain b where b: "b < 0x40" "byte c1 = 0x80 + b" using cont_obtain by blast
    obtain a where a: "byte c0 = 0xF0 + a" "a < 5"
      using 5 by (intro that [of "byte c0 - 0xF0"]) auto
    have lim: "a = 0 \<Longrightarrow> 0x10 \<le> b" "a = 4 \<Longrightarrow> b < 0x10"
      using w a b by (auto simp: within_def)
    have r': "r = a * 0x40000 + b * 0x1000 + c * 0x40 + d" using r(1) a b c d by simp
    moreover have "0x80 \<le> r" using lim by (cases "a = 0") (auto simp: r')
    ultimately show ?thesis
      using encode4 [OF a(2) b(1) c(1) d(1) lim] char_byte [OF a(1)] char_byte [OF b(2)] char_byte [OF c(2)]
        char_byte [OF d(2)] a b c d
      by (simp add: s cs r(2))
  qed
qed

lemma scan_high:
  "\<forall>c \<in> set p. 0x80 \<le> byte c \<Longrightarrow>
    scan_string (p @ t) = map_option (\<lambda>(raw, rest). (p @ raw, rest)) (scan_string t)"
proof (induction p)
  case Nil
  then show ?case by (cases "scan_string t") auto
next
  case (Cons c p)
  then have "c \<noteq> dquote" "c \<noteq> backslash" "\<not> byte c < 0x20" by auto
  with Cons show ?case by (simp add: option.map_comp comp_def case_prod_unfold)
qed

lemma hex_char_lit [simp]: "hex_char 9 = CHR ''9''" "hex_char 8 = CHR ''8''"
  by (auto simp: hex_char_def intro: char_byte)

lemma hex_digit_lit [simp]: "hex_digit (CHR ''9'') = Some 9" "hex_digit (CHR ''8'') = Some 8"
  by (simp_all add: hex_digit_def)

text \<open>One unfolding of \<open>appendString\<close>: a chunk the scanner takes as it is and \<open>unquote\<close> reads
  back as the rune.\<close>

definition chunk :: "string \<Rightarrow> string" where
  "chunk s =
    (let (r, n) = DecodeRune s in
     if r < 0x80 then escape_ascii (hd s)
     else if r = RuneError \<and> n = 1 then [backslash] @ ''ufffd''
     else if r = 0x2028 \<or> r = 0x2029 then [backslash] @ ''u202'' @ [hex_char (r mod 16)]
     else take n s)"

lemma appendString_Nil [simp]: "appendString [] = []"
  by (simp add: appendString.simps)

lemma appendString_chunk: "s \<noteq> [] \<Longrightarrow> appendString s = chunk s @ appendString (drop (snd (DecodeRune s)) s)"
  by (subst appendString.simps) (simp add: chunk_def case_prod_unfold Let_def)

lemma scan_chunk:
  assumes "s \<noteq> []"
  shows "scan_string (chunk s @ t) = map_option (\<lambda>(raw, rest). (chunk s @ raw, rest)) (scan_string t)"
proof -
  obtain r n where d: "DecodeRune s = (r, n)" by fastforce
  have "is_hex (CHR ''9'')" "is_hex (CHR ''8'')" by (simp_all add: is_hex_def)
  moreover have "0x80 \<le> r \<Longrightarrow> \<not> (r = RuneError \<and> n = 1) \<Longrightarrow> \<forall>c \<in> set (take n s). 0x80 \<le> byte c"
    using encode_decode [OF assms d] by blast
  ultimately show ?thesis
    using escape_ascii_scan [of "hd s" t] by (auto simp: chunk_def d scan_high)
qed

lemma unquote_chunk:
  assumes "s \<noteq> []"
  shows "unquote (chunk s @ t) = EncodeRune (fst (DecodeRune s)) @ unquote t"
proof -
  obtain r n where d: "DecodeRune s = (r, n)" by fastforce
  note step = unquote_step_def getu4_def surrogate_def
  consider "r < 0x80" | "r = RuneError" "n = 1" "0x80 \<le> r" | "r = 0x2028 \<or> r = 0x2029" "\<not> (r = RuneError \<and> n = 1)"
    | "0x80 \<le> r" "\<not> (r = RuneError \<and> n = 1)" "\<not> (r = 0x2028 \<or> r = 0x2029)"
    by linarith
  then show ?thesis
  proof cases
    case 1
    then have "\<not> (r = RuneError \<and> n = 1)" by (simp add: RuneError_def)
    then have "byte (hd s) = r \<and> EncodeRune r = take 1 s \<and> n = 1"
      using encode_decode [OF assms d] 1 by metis
    moreover have "chunk s = escape_ascii (hd s)" using 1 by (simp add: chunk_def d)
    moreover have "take 1 s = [hd s]" using assms by (cases s) auto
    ultimately show ?thesis
      using 1 escape_ascii_unquote [of "hd s" t] by (simp add: d)
  next
    case 2
    then show ?thesis
      by (subst unquote.simps) (simp add: chunk_def d step RuneError_def)
  next
    case 3
    then show ?thesis
      by (subst unquote.simps) (auto simp: chunk_def d step)
  next
    case 4
    then have tk: "take n s = EncodeRune r" "\<forall>c \<in> set (take n s). 0x80 \<le> byte c"
      using encode_decode [OF assms d] by simp_all
    have valid: "valid_rune r" using DecodeRune_valid [of s] by (simp add: d)
    obtain c cs where c: "EncodeRune r = c # cs" by (meson length_EncodeRune_pos neq_Nil_conv)
    with tk have "0x80 \<le> byte c" by simp
    then have "c \<noteq> backslash" "\<not> byte c < 0x80" by auto
    moreover have "DecodeRune (c # cs @ t) = (r, length (c # cs))"
      using decode_encode [OF valid, of t] by (simp add: c)
    ultimately have "unquote (EncodeRune r @ t) = EncodeRune r @ unquote t"
      by (subst unquote.simps) (simp add: c unquote_step_def)
    moreover have "chunk s = EncodeRune r" using 4 tk by (auto simp: chunk_def d)
    ultimately show ?thesis by (simp add: d)
  qed
qed

lemma scan_appendString: "scan_string (appendString s @ dquote # rest) = Some (appendString s, rest)"
proof (induction s rule: appendString.induct)
  case (1 s)
  show ?case
  proof (cases "s = []")
    case False
    obtain r n where d: "DecodeRune s = (r, n)" by fastforce
    have "scan_string (appendString (drop n s) @ dquote # rest) = Some (appendString (drop n s), rest)"
      using 1 [OF False refl d [symmetric]] .
    with False show ?thesis
      by (simp add: appendString_chunk scan_chunk d)
  qed simp
qed

lemma unquote_Nil [simp]: "unquote [] = []"
  by (simp add: unquote.simps)

lemma unquote_appendString: "unquote (appendString s) = write_runes (runes s)"
proof (induction s rule: appendString.induct)
  case (1 s)
  show ?case
  proof (cases "s = []")
    case False
    obtain r n where d: "DecodeRune s = (r, n)" by fastforce
    from 1 [OF False refl d [symmetric]] False show ?thesis
      by (simp add: appendString_chunk unquote_chunk runes_nonempty d)
  qed simp
qed

text \<open>A valid UTF-8 string is one that is not changed by reading its runes.\<close>

definition utf8_valid :: "string \<Rightarrow> bool" where
  "utf8_valid s \<longleftrightarrow> write_runes (runes s) = s"

lemma utf8_valid_write_runes: "\<forall>r \<in> set rs. valid_rune r \<Longrightarrow> utf8_valid (write_runes rs)"
  by (simp add: utf8_valid_def runes_write_runes)

lemma utf8_valid_ascii: "\<forall>c \<in> set s. byte c < 0x80 \<Longrightarrow> utf8_valid s"
  by (simp add: utf8_valid_def runes_ascii write_runes_ascii)


subsection \<open>The parser reads what is printed\<close>

lemma scan_string_length: "scan_string s = Some (raw, t) \<Longrightarrow> length t < length s"
proof (induction s arbitrary: raw t rule: scan_string.induct)
  case (2 c s)
  then show ?case by (fastforce split: if_splits list.splits)
qed simp

lemma isValidNumber_nonempty: "isValidNumber l \<Longrightarrow> l \<noteq> []"
  by (auto simp: isValidNumber_def)

lemma length_skip_ws: "length (skip_ws s) \<le> length s"
  by (simp add: skip_ws_def length_dropWhile_le)

lemma skip_ws_Cons: "skip_ws s = c # t \<Longrightarrow> length t < length s"
  using length_skip_ws [of s] by simp

lemma scan_number_length:
  assumes "scan_number s = Some (l, t)"
  shows "length t < length s"
proof -
  have "takeWhile number_char s \<noteq> []" "t = dropWhile number_char s"
    using assms isValidNumber_nonempty by (auto simp: scan_number_def Let_def split: if_splits)
  moreover have "length s = length (takeWhile number_char s) + length (dropWhile number_char s)"
    by (metis length_append takeWhile_dropWhile_id)
  ultimately show ?thesis by simp
qed

lemma literal_length: "literal word v s = Some (x, t) \<Longrightarrow> word \<noteq> [] \<Longrightarrow> length t < length s"
  by (cases word) (auto simp: literal_def HasPrefix_def split: if_splits)

lemma parse_length:
  "parse_value f d s = Some (x, t) \<Longrightarrow> length t < length s"
  "parse_elements f d s = Some (xs, t) \<Longrightarrow> length t < length s"
  "parse_members f d s = Some (kvs, t) \<Longrightarrow> length t < length s"
proof (induction f d s and f d s and f d s arbitrary: x t and xs t and kvs t
    rule: parse_value_parse_elements_parse_members.induct)
  case (2 f d s)
  obtain c u where s: "skip_ws s = c # u" using 2 by (auto split: list.splits)
  then have len: "length u < length s" by (rule skip_ws_Cons)
  have tl: "length (tl (skip_ws u)) \<le> length u" using length_skip_ws [of u] by simp
  show ?case
    using 2 len tl scan_string_length scan_number_length [of "c # u"] literal_length [of _ _ "c # u"]
    by (fastforce simp: s split: if_splits nat.splits)
next
  case (4 f d s)
  then show ?case
    by (fastforce split: option.splits list.splits if_splits dest: skip_ws_Cons)
next
  case (6 f d s)
  then show ?case
    by (fastforce split: option.splits list.splits if_splits dest: skip_ws_Cons scan_string_length)
qed simp_all


text \<open>Fuel beyond twice the length makes no difference.\<close>

lemma parse_fuel:
  "(2 * length s + 1 \<le> f \<longrightarrow> 2 * length s + 1 \<le> f' \<longrightarrow> parse_value f d s = parse_value f' d s)
   \<and> (2 * length s + 2 \<le> f \<longrightarrow> 2 * length s + 2 \<le> f' \<longrightarrow> parse_elements f d s = parse_elements f' d s)
   \<and> (2 * length s + 2 \<le> f \<longrightarrow> 2 * length s + 2 \<le> f' \<longrightarrow> parse_members f d s = parse_members f' d s)"
proof (induction f arbitrary: f' d s)
  case (Suc f)
  show ?case
  proof (intro conjI impI)
    assume b: "2 * length s + 1 \<le> Suc f" "2 * length s + 1 \<le> f'"
    then obtain g where f': "f' = Suc g" by (cases f') auto
    show "parse_value (Suc f) d s = parse_value f' d s"
    proof (cases "skip_ws s")
      case (Cons c t)
      have "parse_members f d' t = parse_members g d' t" "parse_elements f d' t = parse_elements g d' t" for d'
        using Suc.IH [of t g d'] skip_ws_Cons [OF Cons] b f' by simp_all
      then show ?thesis
        unfolding f' parse_value.simps Cons by (simp split: nat.split)
    next
      case Nil
      show ?thesis unfolding f' parse_value.simps Nil by simp
    qed
  next
    assume b: "2 * length s + 2 \<le> Suc f" "2 * length s + 2 \<le> f'"
    then obtain g where f': "f' = Suc g" by (cases f') auto
    have v: "parse_value f d s = parse_value g d s"
      using Suc.IH [of s g d] b f' by simp
    show "parse_elements (Suc f) d s = parse_elements f' d s"
    proof (cases "parse_value g d s")
      case (Some xt)
      obtain x t where xt: "xt = (x, t)" by fastforce
      show ?thesis
      proof (cases "skip_ws t")
        case (Cons c u)
        have "parse_elements f d u = parse_elements g d u"
          using Suc.IH [of u g d] parse_length(1) [OF Some [unfolded xt]] skip_ws_Cons [OF Cons] b f' by simp
        then show ?thesis by (simp add: f' v Some xt Cons)
      qed (simp add: f' v Some xt)
    qed (simp add: f' v)
  next
    assume b: "2 * length s + 2 \<le> Suc f" "2 * length s + 2 \<le> f'"
    then obtain g where f': "f' = Suc g" by (cases f') auto
    show "parse_members (Suc f) d s = parse_members f' d s"
    proof (cases "\<exists>s1 k s2 s3. skip_ws s = dquote # s1 \<and> scan_string s1 = Some (k, s2) \<and> skip_ws s2 = CHR '':'' # s3")
      case True
      then obtain s1 k s2 s3 where s: "skip_ws s = dquote # s1" "scan_string s1 = Some (k, s2)" "skip_ws s2 = CHR '':'' # s3"
        by blast
      have len: "length s3 + 3 \<le> length s"
        using skip_ws_Cons [OF s(1)] scan_string_length [OF s(2)] skip_ws_Cons [OF s(3)] by simp
      have v: "parse_value f d s3 = parse_value g d s3"
        using Suc.IH [of s3 g d] len b f' by simp
      show ?thesis
      proof (cases "parse_value g d s3")
        case (Some xt)
        obtain x t where xt: "xt = (x, t)" by fastforce
        show ?thesis
        proof (cases "skip_ws t")
          case (Cons c u)
          have "parse_members f d u = parse_members g d u"
            using Suc.IH [of u g d] parse_length(1) [OF Some [unfolded xt]] skip_ws_Cons [OF Cons] len b f' by simp
          then show ?thesis by (simp add: f' s v Some xt Cons)
        qed (simp add: f' s v Some xt)
      qed (simp add: f' s v)
    next
      case False
      then show ?thesis
        unfolding f' parse_members.simps by (auto split: list.split option.split)
    qed
  qed
qed simp

text \<open>The trees whose text is JSON within a depth.\<close>

definition number_literal :: "string \<Rightarrow> bool" where
  "number_literal l \<longleftrightarrow> isValidNumber l \<and> list_all number_char l"

definition string_literal :: "string \<Rightarrow> bool" where
  "string_literal raw \<longleftrightarrow> (\<forall>rest. scan_string (raw @ dquote # rest) = Some (raw, rest))"

fun wf_json :: "nat \<Rightarrow> json \<Rightarrow> bool" where
  "wf_json d (JNum l) = number_literal l"
| "wf_json d (JStr raw) = string_literal raw"
| "wf_json d (JArr xs) = (case d of 0 \<Rightarrow> False | Suc d' \<Rightarrow> \<forall>x \<in> set xs. wf_json d' x)"
| "wf_json d (JObj kvs) = (case d of 0 \<Rightarrow> False | Suc d' \<Rightarrow> \<forall>(k, v) \<in> set kvs. string_literal k \<and> wf_json d' v)"
| "wf_json d _ = True"

lemma join_simps [simp]:
  "join sep [] = []" "join sep [y] = y" "join sep (y # z # zs) = y @ sep @ join sep (z # zs)"
  by (simp_all add: join_def)

lemma number_char_plain: "number_char c \<Longrightarrow> c \<notin> {dquote, CHR ''{'', CHR ''['', CHR ''n'', CHR ''t'', CHR ''f'', CHR '']''} \<and> \<not> is_ws c"
  by (auto simp: number_char_def decimal_digit_def is_ws_def)

definition ends_value :: "string \<Rightarrow> bool" where
  "ends_value rest \<longleftrightarrow> rest = [] \<or> hd rest \<in> {CHR '','', CHR '']'', CHR ''}'', CHR 0x0A}"

lemma scan_number_print:
  assumes "number_literal l" "ends_value rest"
  shows "scan_number (l @ rest) = Some (l, rest)"
proof -
  have all: "\<forall>c \<in> set l. number_char c" using assms(1) by (simp add: number_literal_def list_all_iff)
  have no: "rest = [] \<or> \<not> number_char (hd rest)"
    using assms(2) by (auto simp: ends_value_def number_char_def decimal_digit_def)
  have "takeWhile number_char rest = []" "dropWhile number_char rest = rest"
    using no by (cases rest; simp)+
  with all have "takeWhile number_char (l @ rest) = l" "dropWhile number_char (l @ rest) = rest"
    by (simp_all add: takeWhile_append2 dropWhile_append2)
  with assms(1) show ?thesis by (simp add: scan_number_def number_literal_def)
qed

lemma print_start:
  assumes "wf_json d j"
  shows "\<exists>c t. print j = c # t \<and> \<not> is_ws c \<and> c \<noteq> CHR '']''"
proof (cases j)
  case (JNum l)
  with assms isValidNumber_nonempty obtain c t where "l = c # t" "number_char c"
    by (cases l) (auto simp: number_literal_def)
  with number_char_plain JNum show ?thesis by auto
qed (auto simp: is_ws_def)

lemma skip_ws_plain: "\<not> is_ws c \<Longrightarrow> skip_ws (c # t) = c # t"
  by (simp add: skip_ws_def)

lemma skip_ws_Nil [simp]: "skip_ws [] = []"
  by (simp add: skip_ws_def)

lemma skip_ws_print: "wf_json d j \<Longrightarrow> skip_ws (print j @ rest) = print j @ rest"
  using print_start [of d j] by (auto simp: skip_ws_plain)

lemma skip_ws_punct [simp]:
  "skip_ws (CHR '','' # t) = CHR '','' # t" "skip_ws (CHR '']'' # t) = CHR '']'' # t"
  "skip_ws (CHR ''}'' # t) = CHR ''}'' # t" "skip_ws (CHR '':'' # t) = CHR '':'' # t"
  "skip_ws (dquote # t) = dquote # t" "skip_ws (CHR ''{'' # t) = CHR ''{'' # t" "skip_ws (CHR ''['' # t) = CHR ''['' # t"
  by (simp_all add: is_ws_def skip_ws_plain)

lemma string_literalD: "string_literal raw \<Longrightarrow> scan_string (raw @ dquote # rest) = Some (raw, rest)"
  by (simp add: string_literal_def)

lemma parse_elements_print:
  assumes "\<And>x rest f. x \<in> set (x0 # xs) \<Longrightarrow> ends_value rest \<Longrightarrow> 2 * length (print x @ rest) + 1 \<le> f
      \<Longrightarrow> parse_value f d (print x @ rest) = Some (x, rest)"
    and "2 * length (join '','' (map print (x0 # xs)) @ CHR '']'' # rest) + 2 \<le> f"
  shows "parse_elements f d (join '','' (map print (x0 # xs)) @ CHR '']'' # rest) = Some (x0 # xs, rest)"
  using assms
proof (induction xs arbitrary: x0 f)
  case Nil
  then obtain g where g: "f = Suc g" by (cases f) auto
  have "parse_value g d (print x0 @ CHR '']'' # rest) = Some (x0, CHR '']'' # rest)"
    using Nil g by (simp add: ends_value_def)
  then show ?case by (simp add: g)
next
  case (Cons x xs)
  then obtain g where g: "f = Suc g" by (cases f) auto
  let ?rest = "join '','' (map print (x # xs)) @ CHR '']'' # rest"
  have "parse_value g d (print x0 @ CHR '','' # ?rest) = Some (x0, CHR '','' # ?rest)"
    using Cons.prems g by (simp add: ends_value_def)
  moreover have "parse_elements g d ?rest = Some (x # xs, rest)"
    using Cons.prems g by (intro Cons.IH) auto
  ultimately show ?case by (simp add: g)
qed

abbreviation print_member :: "string \<times> json \<Rightarrow> string" where
  "print_member \<equiv> \<lambda>(k, v). [dquote] @ k @ [dquote] @ '':'' @ print v"

lemma parse_members_print:
  assumes "\<And>k v rest f. (k, v) \<in> set (kv0 # kvs) \<Longrightarrow> ends_value rest \<Longrightarrow> 2 * length (print v @ rest) + 1 \<le> f
      \<Longrightarrow> parse_value f d (print v @ rest) = Some (v, rest)"
    and "\<And>k v. (k, v) \<in> set (kv0 # kvs) \<Longrightarrow> string_literal k"
    and "2 * length (join '','' (map print_member (kv0 # kvs)) @ CHR ''}'' # rest) + 2 \<le> f"
  shows "parse_members f d (join '','' (map print_member (kv0 # kvs)) @ CHR ''}'' # rest) = Some (kv0 # kvs, rest)"
  using assms
proof (induction kvs arbitrary: kv0 f)
  case Nil
  obtain k v where kv: "kv0 = (k, v)" by fastforce
  from Nil obtain g where g: "f = Suc g" by (cases f) auto
  have "parse_value g d (print v @ CHR ''}'' # rest) = Some (v, CHR ''}'' # rest)"
    using Nil kv g by (simp add: ends_value_def)
  moreover have "string_literal k" using Nil.prems(2) kv by simp
  ultimately show ?case by (simp add: g kv string_literalD)
next
  case (Cons x kvs)
  obtain k v where kv: "kv0 = (k, v)" by fastforce
  from Cons obtain g where g: "f = Suc g" by (cases f) auto
  let ?rest = "join '','' (map print_member (x # kvs)) @ CHR ''}'' # rest"
  have "parse_value g d (print v @ CHR '','' # ?rest) = Some (v, CHR '','' # ?rest)"
  proof (rule Cons.prems(1))
    show "(k, v) \<in> set (kv0 # x # kvs)" by (simp add: kv)
    show "2 * length (print v @ CHR '','' # ?rest) + 1 \<le> g" using Cons.prems(3) by (simp add: g kv)
  qed (simp add: ends_value_def)
  moreover have "string_literal k" by (rule Cons.prems(2) [of k v]) (simp add: kv)
  moreover have "parse_members g d ?rest = Some (x # kvs, rest)"
  proof (rule Cons.IH)
    show "string_literal k" if "(k, v) \<in> set (x # kvs)" for k v using Cons.prems(2) that by auto
    show "2 * length ?rest + 2 \<le> g" using Cons.prems(3) g kv by simp
    show "parse_value f d (print v @ rest) = Some (v, rest)"
      if "(k, v) \<in> set (x # kvs)" "ends_value rest" "2 * length (print v @ rest) + 1 \<le> f" for k v rest f
      using Cons.prems(1) [of k v rest f] that by auto
  qed
  ultimately show ?case by (simp add: g kv string_literalD)
qed

theorem parse_value_print:
  "wf_json d j \<Longrightarrow> ends_value rest \<Longrightarrow> 2 * length (print j @ rest) + 1 \<le> f \<Longrightarrow>
    parse_value f d (print j @ rest) = Some (j, rest)"
proof (induction j arbitrary: d rest f)
  case JNull
  then obtain g where "f = Suc g" by (cases f) auto
  then show ?case by (simp add: skip_ws_plain is_ws_def literal_def)
next
  case (JBool b)
  then obtain g where "f = Suc g" by (cases f) auto
  then show ?case by (simp add: skip_ws_plain is_ws_def literal_def)
next
  case (JNum l)
  then obtain g where g: "f = Suc g" by (cases f) auto
  obtain c t where l: "l = c # t" using JNum(1) isValidNumber_nonempty [of l] by (cases l) (auto simp: number_literal_def)
  have "number_char c" using JNum(1) by (simp add: l number_literal_def)
  from number_char_plain [OF this] show ?case
    using scan_number_print [of l rest] JNum(1,2) by (simp add: g l skip_ws_plain)
next
  case (JStr raw)
  then obtain g where "f = Suc g" by (cases f) auto
  with JStr show ?case by (simp add: string_literalD)
next
  case (JArr xs)
  then obtain g d' where g: "f = Suc g" and d: "d = Suc d'" "\<forall>x \<in> set xs. wf_json d' x"
    by (cases f; cases d) auto
  show ?case
  proof (cases xs)
    case Nil
    then show ?thesis by (simp add: g d)
  next
    case (Cons x ys)
    have "parse_elements g d' (join '','' (map print (x # ys)) @ CHR '']'' # rest) = Some (x # ys, rest)"
      by (rule parse_elements_print) (use JArr d g Cons in auto)
    moreover have "\<exists>c t. join '','' (map print (x # ys)) = c # t \<and> \<not> is_ws c \<and> c \<noteq> CHR '']''"
      using print_start [of d' x] d(2) by (cases ys) (auto simp: Cons)
    ultimately show ?thesis by (auto simp: g d Cons skip_ws_plain simp del: join_simps)
  qed
next
  case (JObj kvs)
  then obtain g d' where g: "f = Suc g" and d: "d = Suc d'" "\<forall>(k, v) \<in> set kvs. string_literal k \<and> wf_json d' v"
    by (cases f; cases d) auto
  show ?case
  proof (cases kvs)
    case Nil
    then show ?thesis by (simp add: g d)
  next
    case (Cons kv ys)
    have "parse_members g d' (join '','' (map print_member (kv # ys)) @ CHR ''}'' # rest) = Some (kv # ys, rest)"
    proof (rule parse_members_print)
      show "parse_value f d' (print v @ rest) = Some (v, rest)"
        if "(k, v) \<in> set (kv # ys)" "ends_value rest" "2 * length (print v @ rest) + 1 \<le> f" for k v rest f
        by (rule JObj.IH [of "(k, v)"]) (use that Cons d(2) in auto)
    qed (use JObj d g Cons in auto)
    moreover have "\<exists>t. join '','' (map print_member (kv # ys)) = dquote # t"
      by (cases kv; cases ys) auto
    ultimately show ?thesis by (auto simp: g d Cons simp del: join_simps)
  qed
qed

corollary parse_print:
  assumes "wf_json maxNestingDepth j"
  shows "parse (print j) = Some j"
  using parse_value_print [OF assms, of "[]" "2 * length (print j) + 2"] by (simp add: parse_def ends_value_def)

text \<open>An \<open>Encoder\<close> ends the text with a newline.\<close>

corollary parse_print_line:
  assumes "wf_json maxNestingDepth j"
  shows "parse (print j @ [CHR 0x0A]) = Some j"
  using parse_value_print [OF assms, of "[CHR 0x0A]" "2 * length (print j @ [CHR 0x0A]) + 2"]
  by (simp add: parse_def ends_value_def skip_ws_def is_ws_def)


subsection \<open>Values of type any are read back\<close>

definition floats_ok :: "floats \<Rightarrow> bool" where
  "floats_ok fl \<longleftrightarrow>
    (\<forall>w. finite_float w \<longrightarrow> number_literal (fl_Format fl w) \<and> fl_Parse fl (fl_Format fl w) = Some w)
    \<and> (\<forall>l w. fl_Parse fl l = Some w \<longrightarrow> finite_float w)"

definition repair :: "string \<Rightarrow> string" where
  "repair s = write_runes (runes s)"

lemma repair_valid [simp]: "utf8_valid s \<Longrightarrow> repair s = s"
  by (simp add: repair_def utf8_valid_def)

lemma utf8_valid_repair [simp]: "utf8_valid (repair s)"
  by (auto simp: repair_def intro: utf8_valid_write_runes runes_valid)

text \<open>The value that is read back: strings are repaired and maps are put in order.\<close>

fun stored_any :: "any \<Rightarrow> any" where
  "stored_any (AString s) = AString (repair s)"
| "stored_any (ASlice xs) = ASlice (map stored_any xs)"
| "stored_any (AMap kvs) = AMap (map_of_entries (map (\<lambda>(k, v). (repair k, v)) (sort_entries (map (\<lambda>(k, v). (k, stored_any v)) kvs))))"
| "stored_any v = v"

fun nests :: "nat \<Rightarrow> any \<Rightarrow> bool" where
  "nests d (ASlice xs) = (case d of 0 \<Rightarrow> False | Suc d' \<Rightarrow> \<forall>x \<in> set xs. nests d' x)"
| "nests d (AMap kvs) = (case d of 0 \<Rightarrow> False | Suc d' \<Rightarrow> \<forall>(k, v) \<in> set kvs. nests d' v)"
| "nests d _ = True"

fun finite_any :: "any \<Rightarrow> bool" where
  "finite_any (AFloat64 w) = finite_float w"
| "finite_any (ASlice xs) = (\<forall>x \<in> set xs. finite_any x)"
| "finite_any (AMap kvs) = (\<forall>(k, v) \<in> set kvs. finite_any v)"
| "finite_any _ = True"

lemma those_list_Some: "those_list xs = Some ys \<longleftrightarrow> xs = map Some ys"
proof
  assume "those_list xs = Some ys"
  then have "None \<notin> set xs" "ys = map the xs" by (auto simp: those_list_def split: if_splits)
  then show "xs = map Some ys"
    by (metis (mono_tags, lifting) comp_apply list.map_comp map_idI option.collapse)
next
  assume "xs = map Some ys"
  then show "those_list xs = Some ys" by (auto simp: those_list_def comp_def)
qed

lemma those_list_None: "those_list xs = None \<longleftrightarrow> None \<in> set xs"
  by (simp add: those_list_def)

lemma insort_entries_map: "insort_key fst (k, f v) (map (\<lambda>(k, v). (k, f v)) kvs) = map (\<lambda>(k, v). (k, f v)) (insort_key fst (k, v) kvs)"
  by (induction kvs) auto

lemma sort_entries_map: "sort_entries (map (\<lambda>(k, v). (k, f v)) kvs) = map (\<lambda>(k, v). (k, f v)) (sort_entries kvs)"
proof (induction kvs)
  case (Cons kv kvs)
  then show ?case
    using insort_entries_map [of "fst kv" f "snd kv"] by (simp add: sort_entries_def case_prod_unfold)
qed (simp add: sort_entries_def)

lemma set_sort_entries [simp]: "set (sort_entries kvs) = set kvs"
  by (simp add: sort_entries_def)

lemma string_literal_append [simp]: "string_literal (appendString s)"
  by (simp add: string_literal_def scan_appendString)

lemma map_pair_entries:
  "map (\<lambda>(k, x). map_option (Pair (g k)) x) (map (\<lambda>(k, v). (k, f v)) es)
    = map (\<lambda>(k, v). map_option (Pair (g k)) (f v)) es"
  by (induction es) auto

lemma encode_any_AMap:
  "encode_any fl (AMap kvs)
    = map_option JObj (those_list (map (\<lambda>(k, v). map_option (Pair (appendString k)) (encode_any fl v)) (sort_entries kvs)))"
  unfolding encode_any.simps sort_entries_map map_pair_entries ..

lemma encode_any_entries:
  "encode_any fl (AMap kvs) = Some j \<longleftrightarrow>
    (\<exists>js. j = JObj js \<and> map (\<lambda>(k, v). map_option (Pair (appendString k)) (encode_any fl v)) (sort_entries kvs) = map Some js)"
  unfolding encode_any_AMap by (auto simp: those_list_Some)

lemma decode_entries:
  assumes "map (\<lambda>(k, v). map_option (Pair (g k)) (f v)) es = map Some js"
    and "\<And>k v y. (k, v) \<in> set es \<Longrightarrow> f v = Some y \<Longrightarrow> h y = Some (w v)"
  shows "map (\<lambda>(k, x). map_option (Pair (u k)) (h x)) js = map Some (map (\<lambda>(k, v). (u (g k), w v)) es)"
  using assms
proof (induction es arbitrary: js)
  case (Cons e es)
  obtain k v where e: "e = (k, v)" by fastforce
  from Cons.prems(1) obtain y js' where js: "js = (g k, y) # js'" "f v = Some y"
      "map (\<lambda>(k, v). map_option (Pair (g k)) (f v)) es = map Some js'"
    by (cases js) (auto simp: e)
  have "h y = Some (w v)" using Cons.prems(2) [of k v y] js(2) by (simp add: e)
  moreover have "map (\<lambda>(k, x). map_option (Pair (u k)) (h x)) js' = map Some (map (\<lambda>(k, v). (u (g k), w v)) es)"
    by (rule Cons.IH [OF js(3)]) (rule Cons.prems(2), auto)
  ultimately show ?case by (simp add: js e)
qed simp

lemma those_list_ex: "(\<exists>ys. those_list xs = Some ys) \<longleftrightarrow> (\<forall>x \<in> set xs. \<exists>y. x = Some y)"
  by (auto simp: those_list_def) (metis option.exhaust)

lemma encode_any_Some: "(\<exists>j. encode_any fl v = Some j) \<longleftrightarrow> finite_any v"
proof (induction v)
  case (ASlice xs)
  have "(\<exists>j. encode_any fl (ASlice xs) = Some j) \<longleftrightarrow> (\<exists>ys. those_list (map (encode_any fl) xs) = Some ys)"
    by auto
  with ASlice show ?case by (simp add: those_list_ex)
next
  case (AMap kvs)
  let ?ms = "map (\<lambda>(k, v). map_option (Pair (appendString k)) (encode_any fl v)) (sort_entries kvs)"
  have "(\<exists>j. encode_any fl (AMap kvs) = Some j) \<longleftrightarrow> (\<exists>ys. those_list ?ms = Some ys)"
    unfolding encode_any_AMap by auto
  also have "\<dots> \<longleftrightarrow> (\<forall>(k, v) \<in> set kvs. \<exists>j. encode_any fl v = Some j)"
    unfolding those_list_ex by (fastforce simp: map_option_case split: option.splits)
  also have "\<dots> \<longleftrightarrow> (\<forall>(k, v) \<in> set kvs. finite_any v)"
    using AMap by fastforce
  finally show ?case by simp
qed auto

lemma map_eq_map_Some: "map f xs = map Some ys \<Longrightarrow> y \<in> set ys \<Longrightarrow> \<exists>x \<in> set xs. f x = Some y"
  by (metis image_eqI image_iff list.set_map)

lemma encode_any_wf:
  assumes "floats_ok fl"
  shows "encode_any fl v = Some j \<Longrightarrow> nests d v \<Longrightarrow> wf_json d j"
proof (induction v arbitrary: d j)
  case (AFloat64 w)
  with assms show ?case by (auto simp: floats_ok_def split: if_splits)
next
  case (ASlice xs)
  then obtain d' js where d: "d = Suc d'" "\<forall>x \<in> set xs. nests d' x" and js: "j = JArr js" "map (encode_any fl) xs = map Some js"
    by (auto simp: those_list_Some split: nat.splits)
  have "wf_json d' y" if "y \<in> set js" for y
    using map_eq_map_Some [OF js(2) that] ASlice.IH d(2) by blast
  with d js show ?case by simp
next
  case (AMap kvs)
  then obtain d' where d: "d = Suc d'" "\<forall>(k, v) \<in> set kvs. nests d' v"
    by (auto split: nat.splits)
  from AMap.prems(1) obtain js where j: "j = JObj js"
    and js: "map (\<lambda>(k, v). map_option (Pair (appendString k)) (encode_any fl v)) (sort_entries kvs) = map Some js"
    unfolding encode_any_entries by blast
  have "string_literal k \<and> wf_json d' y" if y: "(k, y) \<in> set js" for k y
  proof -
    obtain k0 v where v: "(k0, v) \<in> set kvs" "encode_any fl v = Some y" "k = appendString k0"
      using map_eq_map_Some [OF js y] by auto
    with AMap.IH [of "(k0, v)" v y d'] d(2) show ?thesis by auto
  qed
  with d j show ?case by auto
qed auto

lemma decode_encode_any:
  assumes "floats_ok fl"
  shows "encode_any fl v = Some j \<Longrightarrow> decode_any fl j = Some (stored_any v)"
proof (induction v arbitrary: j)
  case (AFloat64 w)
  with assms show ?case by (auto simp: floats_ok_def split: if_splits)
next
  case (AString s)
  then show ?case by (auto simp: unquote_appendString repair_def)
next
  case (ASlice xs)
  then obtain js where j: "j = JArr js" and js: "map (encode_any fl) xs = map Some js"
    by (auto simp: those_list_Some)
  have "map (decode_any fl) js = map Some (map stored_any xs)"
    using js ASlice.IH
  proof (induction xs arbitrary: js)
    case (Cons x xs)
    then show ?case by (cases js) auto
  qed simp
  then show ?case by (simp add: j those_list_Some)
next
  case (AMap kvs)
  then obtain js where j: "j = JObj js"
    and js: "map (\<lambda>(k, v). map_option (Pair (appendString k)) (encode_any fl v)) (sort_entries kvs) = map Some js"
    unfolding encode_any_entries by blast
  have IH: "decode_any fl y = Some (stored_any v)" if "(k, v) \<in> set (sort_entries kvs)" "encode_any fl v = Some y" for k v y
    using AMap.IH [of "(k, v)" v y] that by simp
  have "map (\<lambda>(k, x). map_option (Pair (unquote k)) (decode_any fl x)) js
      = map Some (map (\<lambda>(k, v). (unquote (appendString k), stored_any v)) (sort_entries kvs))"
    by (rule decode_entries [OF js IH])
  then have "decode_any fl j = Some (AMap (map_of_entries (map (\<lambda>(k, v). (repair k, stored_any v)) (sort_entries kvs))))"
    unfolding j decode_any.simps unquote_appendString repair_def [symmetric] those_list_Some [symmetric] by simp
  also have "map (\<lambda>(k, v). (repair k, stored_any v)) (sort_entries kvs)
      = map (\<lambda>(k, v). (repair k, v)) (sort_entries (map (\<lambda>(k, v). (k, stored_any v)) kvs))"
    unfolding sort_entries_map by (simp add: case_prod_unfold)
  finally show ?case by simp
qed auto

text \<open>Values whose strings are valid UTF-8 and whose maps are in order: they are read back as
  they are, and everything that is read is one of them.\<close>

definition ordered_keys :: "(string \<times> 'a) list \<Rightarrow> bool" where
  "ordered_keys kvs \<longleftrightarrow> sorted_wrt (<) (map fst kvs)"

fun clean_any :: "any \<Rightarrow> bool" where
  "clean_any (AString s) = utf8_valid s"
| "clean_any (ASlice xs) = (\<forall>x \<in> set xs. clean_any x)"
| "clean_any (AMap kvs) = (ordered_keys kvs \<and> (\<forall>(k, v) \<in> set kvs. utf8_valid k \<and> clean_any v))"
| "clean_any _ = True"

lemma sort_entries_ordered: "ordered_keys kvs \<Longrightarrow> sort_entries kvs = kvs"
  by (simp add: ordered_keys_def sort_entries_def sorted_sort_id strict_sorted_iff sorted_map sort_key_id_if_sorted)

lemma fold_update_new:
  "distinct (map fst (acc @ kvs)) \<Longrightarrow> fold (\<lambda>(k, v). AList.update k v) kvs acc = acc @ kvs"
proof (induction kvs arbitrary: acc)
  case (Cons kv kvs)
  obtain k v where kv: "kv = (k, v)" by fastforce
  have "k \<notin> fst ` set acc" using Cons.prems by (auto simp: kv)
  then have "AList.update k v acc = acc @ [(k, v)]"
    by (induction acc) auto
  with Cons.IH [of "acc @ [kv]"] Cons.prems show ?case by (simp add: kv)
qed simp

lemma map_of_entries_ordered: "ordered_keys kvs \<Longrightarrow> map_of_entries kvs = kvs"
  using fold_update_new [of "[]" kvs] by (simp add: map_of_entries_def sort_entries_ordered ordered_keys_def strict_sorted_iff)

lemma fold_update_distinct:
  "distinct (map fst acc) \<Longrightarrow> distinct (map fst (fold (\<lambda>(k, v). AList.update k v) kvs acc))"
  by (induction kvs arbitrary: acc) (auto simp: distinct_update)

lemma fold_update_set:
  "set (fold (\<lambda>(k, v). AList.update k v) kvs acc) \<subseteq> set acc \<union> set kvs"
proof (induction kvs arbitrary: acc)
  case (Cons kv kvs)
  obtain k v where kv: "kv = (k, v)" by fastforce
  have "set (AList.update k v acc) \<subseteq> set acc \<union> {(k, v)}"
    by (induction acc) auto
  with Cons.IH [of "AList.update k v acc"] show ?case by (auto simp: kv)
qed simp

lemma map_of_entries_keys: "ordered_keys (map_of_entries kvs)"
proof -
  let ?m = "fold (\<lambda>(k, v). AList.update k v) kvs []"
  have "distinct (map fst (sort_entries ?m))"
    using fold_update_distinct [of "[]" kvs] by (simp add: sort_entries_def distinct_map)
  then show ?thesis
    by (simp add: map_of_entries_def ordered_keys_def strict_sorted_iff sort_entries_def)
qed

lemma map_of_entries_set: "set (map_of_entries kvs) \<subseteq> set kvs"
  using fold_update_set [of kvs "[]"] by (simp add: map_of_entries_def)

lemma ordered_keys_map [simp]: "ordered_keys (map (\<lambda>(k, v). (k, f v)) kvs) = ordered_keys kvs"
  by (simp add: ordered_keys_def comp_def case_prod_unfold)

lemma stored_clean: "clean_any v \<Longrightarrow> stored_any v = v"
proof (induction v)
  case (ASlice xs)
  then show ?case by (simp add: map_idI)
next
  case (AMap kvs)
  have same: "map (\<lambda>(k, v). (k, stored_any v)) kvs = kvs"
    using AMap by (intro map_idI) auto
  have "map (\<lambda>(k, v). (repair k, v)) kvs = kvs"
    using AMap.prems by (intro map_idI) auto
  with same AMap.prems show ?case by (simp add: sort_entries_ordered map_of_entries_ordered)
qed auto

lemma utf8_valid_append: "utf8_valid a \<Longrightarrow> utf8_valid b \<Longrightarrow> utf8_valid (a @ b)"
proof -
  assume "utf8_valid a" "utf8_valid b"
  then have "a @ b = write_runes (runes a @ runes b)" "\<forall>r \<in> set (runes a @ runes b). valid_rune r"
    by (auto simp: utf8_valid_def write_runes_def runes_valid)
  then show ?thesis by (metis utf8_valid_write_runes)
qed

lemma utf8_valid_EncodeRune: "utf8_valid (EncodeRune r)"
proof (cases "valid_rune r")
  case True
  then show ?thesis using utf8_valid_write_runes [of "[r]"] by simp
next
  case False
  then have "EncodeRune r = EncodeRune RuneError"
    by (simp add: EncodeRune_def Let_def)
  then show ?thesis using utf8_valid_write_runes [of "[RuneError]"] by simp
qed

lemma utf8_valid_unquote: "utf8_valid (unquote s)"
proof (induction s rule: unquote.induct)
  case (1 s)
  have "utf8_valid []" "\<And>c. byte c < 0x80 \<Longrightarrow> utf8_valid [c]"
    by (simp_all add: utf8_valid_ascii)
  moreover have "simple_escape e = Some c \<Longrightarrow> byte c < 0x80" for e c
    by (auto simp: simple_escape_def split: if_splits)
  ultimately have "utf8_valid (fst (unquote_step s))"
    by (auto simp: unquote_step_def utf8_valid_EncodeRune Let_def split: list.split option.split prod.split)
  with 1 show ?case
    by (subst unquote.simps) (auto simp: utf8_valid_append utf8_valid_ascii)
qed

lemma decode_any_clean:
  assumes "floats_ok fl"
  shows "decode_any fl j = Some v \<Longrightarrow> clean_any v \<and> finite_any v"
proof (induction j arbitrary: v)
  case (JNum l)
  with assms show ?case by (auto simp: floats_ok_def)
next
  case (JStr raw)
  then show ?case by (auto simp: utf8_valid_unquote)
next
  case (JArr xs)
  then obtain vs where v: "v = ASlice vs" "map (decode_any fl) xs = map Some vs"
    by (auto simp: those_list_Some)
  have "clean_any y \<and> finite_any y" if "y \<in> set vs" for y
    using map_eq_map_Some [OF v(2) that] JArr.IH by blast
  with v(1) show ?case by simp
next
  case (JObj kvs)
  then obtain es where v: "v = AMap (map_of_entries es)"
      "map (\<lambda>(k, x). map_option (Pair (unquote k)) (decode_any fl x)) kvs = map Some es"
    by (auto simp: those_list_Some)
  have "utf8_valid k \<and> clean_any y \<and> finite_any y" if e: "(k, y) \<in> set es" for k y
  proof -
    obtain k0 x where "(k0, x) \<in> set kvs" "decode_any fl x = Some y" "k = unquote k0"
      using map_eq_map_Some [OF v(2) e] by auto
    with JObj.IH [of "(k0, x)" x y] utf8_valid_unquote show ?thesis by auto
  qed
  with map_of_entries_set [of es] show ?case
    by (auto simp: v(1) map_of_entries_keys)
qed auto

subsection \<open>The nesting limit only ever refuses\<close>

lemma parse_depth:
  "(parse_value f d s = Some r \<longrightarrow> d \<le> d' \<longrightarrow> parse_value f d' s = Some r)
   \<and> (parse_elements f d s = Some rs \<longrightarrow> d \<le> d' \<longrightarrow> parse_elements f d' s = Some rs)
   \<and> (parse_members f d s = Some ms \<longrightarrow> d \<le> d' \<longrightarrow> parse_members f d' s = Some ms)"
proof (induction f arbitrary: d d' s r rs ms)
  case (Suc f)
  note IH = Suc.IH [THEN conjunct1, rule_format] Suc.IH [THEN conjunct2, THEN conjunct1, rule_format]
    Suc.IH [THEN conjunct2, THEN conjunct2, rule_format]
  show ?case
  proof (intro conjI impI)
    assume p: "parse_value (Suc f) d s = Some r" "d \<le> d'"
    show "parse_value (Suc f) d' s = Some r"
    proof (cases "skip_ws s")
      case (Cons c t)
      show ?thesis
      proof (cases d)
        case 0
        with p Cons show ?thesis by (cases d') (auto split: if_splits)
      next
        case (Suc e)
        with p(2) obtain e' where e': "d' = Suc e'" "e \<le> e'" by (cases d') auto
        have "parse_members f e t = Some ms \<Longrightarrow> parse_members f e' t = Some ms"
          "parse_elements f e t = Some rs \<Longrightarrow> parse_elements f e' t = Some rs" for ms rs
          using IH(2,3) e'(2) by blast+
        with p(1) Cons show ?thesis by (auto simp: Suc e'(1) split: if_splits)
      qed
    qed (use p in simp)
  next
    assume p: "parse_elements (Suc f) d s = Some rs" "d \<le> d'"
    then obtain x t where v: "parse_value f d s = Some (x, t)" by (auto split: option.splits)
    with IH(1) p(2) have v': "parse_value f d' s = Some (x, t)" by blast
    have "parse_elements f d u = Some rs \<Longrightarrow> parse_elements f d' u = Some rs" for u rs
      using IH(2) p(2) by blast
    with p(1) v v' show "parse_elements (Suc f) d' s = Some rs"
      by (auto split: list.splits if_splits)
  next
    assume p: "parse_members (Suc f) d s = Some ms" "d \<le> d'"
    then obtain s1 k s2 s3 x t where s: "skip_ws s = dquote # s1" "scan_string s1 = Some (k, s2)" "skip_ws s2 = CHR '':'' # s3"
      and v: "parse_value f d s3 = Some (x, t)"
      by (auto split: list.splits option.splits if_splits)
    with IH(1) p(2) have v': "parse_value f d' s3 = Some (x, t)" by blast
    have "parse_members f d u = Some ms \<Longrightarrow> parse_members f d' u = Some ms" for u ms
      using IH(3) p(2) by blast
    with p(1) s v v' show "parse_members (Suc f) d' s = Some ms"
      by (auto split: list.splits if_splits)
  qed
qed simp

lemma parse_print_any_depth:
  assumes "wf_json d j" "parse (print j) = Some j'"
  shows "j' = j"
proof -
  let ?f = "2 * length (print j) + 2" and ?d = "max d maxNestingDepth"
  obtain rest where "parse_value ?f maxNestingDepth (print j) = Some (j', rest)"
    using assms(2) by (auto simp: parse_def split: option.splits if_splits)
  then have "parse_value ?f ?d (print j) = Some (j', rest)"
    using parse_depth [THEN conjunct1, rule_format] by (metis max.cobounded2)
  moreover have "parse_value ?f d (print j) = Some (j, [])"
    using parse_value_print [OF assms(1), of "[]" ?f] by (simp add: ends_value_def)
  then have "parse_value ?f ?d (print j) = Some (j, [])"
    using parse_depth [THEN conjunct1, rule_format] by (metis max.cobounded1)
  ultimately show ?thesis by simp
qed

lemma nests_mono: "nests d v \<Longrightarrow> d \<le> d' \<Longrightarrow> nests d' v"
proof (induction v arbitrary: d d')
  case (ASlice xs)
  then obtain e e' where d: "d = Suc e" "d' = Suc e'" "e \<le> e'"
    by (auto split: nat.splits dest: Suc_le_D)
  have "nests e' x" if "x \<in> set xs" for x
    using ASlice.IH [OF that, of e e'] ASlice.prems(1) d that by simp
  then show ?case by (simp add: d)
next
  case (AMap kvs)
  then obtain e e' where d: "d = Suc e" "d' = Suc e'" "e \<le> e'"
    by (auto split: nat.splits dest: Suc_le_D)
  have "nests e' v" if "(k, v) \<in> set kvs" for k v
    using AMap.IH [of "(k, v)" v e e'] AMap.prems(1) d that by auto
  then show ?case by (auto simp: d)
qed auto

lemma nests_some: "\<exists>d. nests d v"
proof (induction v)
  case (ASlice xs)
  then have "\<exists>d. \<forall>x \<in> set xs. nests d x"
  proof (induction xs)
    case (Cons x xs)
    have "\<exists>a. \<forall>x \<in> set xs. nests a x" by (rule Cons.IH) (use Cons.prems in auto)
    moreover have "\<exists>b. nests b x" using Cons.prems by simp
    ultimately obtain a b where "\<forall>x \<in> set xs. nests a x" "nests b x" by auto
    then have "\<forall>y \<in> set (x # xs). nests (max a b) y"
      using nests_mono [of a _ "max a b"] nests_mono [of b _ "max a b"] by auto
    then show ?case by blast
  qed simp
  then obtain d where "nests (Suc d) (ASlice xs)" by auto
  then show ?case by blast
next
  case (AMap kvs)
  then have "\<exists>d. \<forall>kv \<in> set kvs. nests d (snd kv)"
  proof (induction kvs)
    case (Cons kv kvs)
    have "\<exists>b. nests b (snd kv)" using Cons.prems [of kv "snd kv"] by (cases kv) auto
    moreover have "\<exists>a. \<forall>kv \<in> set kvs. nests a (snd kv)" by (rule Cons.IH) (use Cons.prems in auto)
    ultimately obtain a b where "\<forall>kv \<in> set kvs. nests a (snd kv)" "nests b (snd kv)" by auto
    then have "\<forall>y \<in> set (kv # kvs). nests (max a b) (snd y)"
      using nests_mono [of a _ "max a b"] nests_mono [of b _ "max a b"] by auto
    then show ?case by blast
  qed simp
  then obtain d where "\<forall>kv \<in> set kvs. nests d (snd kv)" by blast
  then have "nests (Suc d) (AMap kvs)" by auto
  then show ?case by blast
qed auto



subsection \<open>What the parser gives is well formed\<close>

lemma string_literal_Cons:
  "byte c \<ge> 0x20 \<Longrightarrow> c \<noteq> backslash \<Longrightarrow> c \<noteq> dquote \<Longrightarrow> string_literal raw \<Longrightarrow> string_literal (c # raw)"
  "simple_escape e \<noteq> None \<Longrightarrow> string_literal raw \<Longrightarrow> string_literal (backslash # e # raw)"
  "is_hex h1 \<Longrightarrow> is_hex h2 \<Longrightarrow> is_hex h3 \<Longrightarrow> is_hex h4 \<Longrightarrow> string_literal raw \<Longrightarrow>
     string_literal (backslash # CHR ''u'' # h1 # h2 # h3 # h4 # raw)"
  by (auto simp: string_literal_def)

lemma scan_string_cases:
  assumes "scan_string (c # s) = Some (raw, t)"
  obtains (quote) "c = dquote" "raw = []"
  | (plain) raw' where "byte c \<ge> 0x20" "c \<noteq> backslash" "c \<noteq> dquote" "scan_string s = Some (raw', t)" "raw = c # raw'"
  | (simple) e u raw' where "c = backslash" "s = e # u" "simple_escape e \<noteq> None" "scan_string u = Some (raw', t)"
      "raw = c # e # raw'"
  | (hex) h1 h2 h3 h4 u raw' where "c = backslash" "s = CHR ''u'' # h1 # h2 # h3 # h4 # u"
      "is_hex h1" "is_hex h2" "is_hex h3" "is_hex h4" "scan_string u = Some (raw', t)"
      "raw = c # CHR ''u'' # h1 # h2 # h3 # h4 # raw'"
proof (cases "c = dquote \<or> c \<noteq> backslash")
  case True
  then show ?thesis using assms quote plain by (auto split: if_splits)
next
  case False
  then obtain e u where s: "s = e # u" using assms by (cases s) (auto split: if_splits)
  show ?thesis
  proof (cases "simple_escape e")
    case (Some x)
    then show ?thesis using assms False s simple by (auto split: if_splits)
  next
    case None
    then show ?thesis using assms False s hex by (auto split: if_splits list.splits)
  qed
qed

lemma scan_string_literal: "scan_string s = Some (raw, t) \<Longrightarrow> string_literal raw"
proof (induction "length s" arbitrary: s raw rule: less_induct)
  case less
  then obtain c u where s: "s = c # u" by (cases s) auto
  have IH: "string_literal raw'" if "scan_string v = Some (raw', t)" "length v < length s" for v raw'
    using less.hyps that by blast
  from less.prems [unfolded s] show ?case
  proof (cases rule: scan_string_cases)
    case quote
    then show ?thesis by (simp add: string_literal_def)
  next
    case (plain raw')
    with IH [OF plain(4)] s show ?thesis by (simp add: string_literal_Cons(1))
  next
    case (simple e v raw')
    with IH [OF simple(4)] s show ?thesis by (simp add: string_literal_Cons(2))
  next
    case (hex h1 h2 h3 h4 v raw')
    with IH [OF hex(7)] s show ?thesis by (simp add: string_literal_Cons(3))
  qed
qed

lemma scan_number_literal: "scan_number s = Some (l, t) \<Longrightarrow> number_literal l"
  by (auto simp: scan_number_def number_literal_def Let_def list_all_iff dest: set_takeWhileD split: if_splits)

lemma parse_wf:
  "(parse_value f d s = Some r \<longrightarrow> wf_json d (fst r))
   \<and> (parse_elements f d s = Some rs \<longrightarrow> (\<forall>x \<in> set (fst rs). wf_json d x))
   \<and> (parse_members f d s = Some ms \<longrightarrow> (\<forall>(k, v) \<in> set (fst ms). string_literal k \<and> wf_json d v))"
proof (induction f arbitrary: d s r rs ms)
  case (Suc f)
  note IH = Suc.IH [THEN conjunct1, rule_format] Suc.IH [THEN conjunct2, THEN conjunct1, rule_format]
    Suc.IH [THEN conjunct2, THEN conjunct2, rule_format]
  show ?case
  proof (intro conjI impI)
    assume p: "parse_value (Suc f) d s = Some r"
    show "wf_json d (fst r)"
    proof (cases "skip_ws s")
      case (Cons c t)
      have members: "\<forall>(k, v) \<in> set kvs. string_literal k \<and> wf_json e v" if "parse_members f e t = Some (kvs, u)" for e kvs u
        using IH(3) [OF that] by simp
      have elements: "\<forall>x \<in> set xs. wf_json e x" if "parse_elements f e t = Some (xs, u)" for e xs u
        using IH(2) [OF that] by simp
      show ?thesis
        using p Cons
        by (auto simp: literal_def dest!: scan_string_literal scan_number_literal members elements
            split: if_splits nat.splits)
    qed (use p in simp)
  next
    assume p: "parse_elements (Suc f) d s = Some rs"
    then obtain x t where v: "parse_value f d s = Some (x, t)" by (auto split: option.splits)
    have rest: "wf_json d x" if "parse_elements f d u = Some (xs, w)" "x \<in> set xs" for u xs w x
      using IH(2) [OF that(1)] that(2) by simp
    from p v IH(1) [OF v] show "\<forall>x \<in> set (fst rs). wf_json d x"
      by (auto split: list.splits if_splits dest: rest)
  next
    assume p: "parse_members (Suc f) d s = Some ms"
    then obtain s1 k s2 s3 x t where s: "skip_ws s = dquote # s1" "scan_string s1 = Some (k, s2)" "skip_ws s2 = CHR '':'' # s3"
      and v: "parse_value f d s3 = Some (x, t)"
      by (auto split: list.splits option.splits if_splits)
    have rest: "string_literal k \<and> wf_json d v" if "parse_members f d u = Some (kvs, w)" "(k, v) \<in> set kvs" for u kvs w k v
      using IH(3) [OF that(1)] that(2) by auto
    from p s v IH(1) [OF v] scan_string_literal [OF s(2)] show "\<forall>(k, v) \<in> set (fst ms). string_literal k \<and> wf_json d v"
      by (auto split: list.splits if_splits dest: rest)
  qed
qed simp

lemma parse_wf_json: "parse s = Some j \<Longrightarrow> wf_json maxNestingDepth j"
  by (auto simp: parse_def simp del: parse_value.simps dest!: parse_wf [THEN conjunct1, rule_format]
      split: option.splits if_splits)

lemma decode_any_nests: "wf_json d j \<Longrightarrow> decode_any fl j = Some v \<Longrightarrow> nests d v"
proof (induction j arbitrary: d v)
  case (JArr xs)
  then obtain e where d: "d = Suc e" "\<forall>x \<in> set xs. wf_json e x" by (cases d) auto
  from JArr.prems(2) obtain vs where v: "v = ASlice vs" "map (decode_any fl) xs = map Some vs"
    by (auto simp: those_list_Some)
  have "nests e y" if "y \<in> set vs" for y
    using map_eq_map_Some [OF v(2) that] JArr.IH d(2) by blast
  with v(1) d(1) show ?case by simp
next
  case (JObj kvs)
  then obtain e where d: "d = Suc e" "\<forall>(k, x) \<in> set kvs. string_literal k \<and> wf_json e x" by (cases d) auto
  from JObj.prems(2) obtain es where v: "v = AMap (map_of_entries es)"
      "map (\<lambda>(k, x). map_option (Pair (unquote k)) (decode_any fl x)) kvs = map Some es"
    by (auto simp: those_list_Some)
  have "nests e y" if y: "(k, y) \<in> set es" for k y
  proof -
    obtain k0 x where "(k0, x) \<in> set kvs" "decode_any fl x = Some y"
      using map_eq_map_Some [OF v(2) y] by auto
    with JObj.IH [of "(k0, x)" x e y] d(2) show ?thesis by auto
  qed
  with map_of_entries_set [of es] show ?case by (auto simp: v(1) d(1))
qed auto

end
