(* ===== verification/Go_Time.thy ===== *)
theory Go_Time
  imports Go_Strconv "HOL-Library.Monad_Syntax"
begin

text \<open>
  The text of a time in JSON: \<open>Time.MarshalJSON\<close> and \<open>Time.UnmarshalJSON\<close> of package
  \<open>time\<close>, without the quotes. A time is an instant in nanoseconds since the Unix epoch; it is
  written in UTC as RFC 3339 with the digits of the fraction that are needed, and only for
  the years 0 to 9999. The reader takes every text the layout RFC 3339 takes: an hour of one
  digit, a comma before the fraction and offsets up to 24:60 are accepted too, since
  strict parsing is disabled in the library.
\<close>

subsection \<open>The calendar\<close>

definition leap_year :: "nat \<Rightarrow> bool" where
  "leap_year y \<longleftrightarrow> y mod 4 = 0 \<and> (y mod 100 \<noteq> 0 \<or> y mod 400 = 0)"

definition days_in_year :: "nat \<Rightarrow> nat" where
  "days_in_year y = (if leap_year y then 366 else 365)"

definition month_lengths :: "nat \<Rightarrow> nat list" where
  "month_lengths y = [31, if leap_year y then 29 else 28, 31, 30, 31, 30, 31, 31, 30, 31, 30, 31]"

text \<open>The year and the day in it, from a day counted from the first of year \<open>y\<close>.\<close>

function civil_year :: "nat \<Rightarrow> nat \<Rightarrow> nat \<times> nat" where
  "civil_year y d = (if d < days_in_year y then (y, d) else civil_year (Suc y) (d - days_in_year y))"
  by pat_completeness auto
termination
  by (relation "measure snd") (auto simp: days_in_year_def split: if_splits)

declare civil_year.simps [simp del]

fun civil_month :: "nat list \<Rightarrow> nat \<Rightarrow> nat \<times> nat" where
  "civil_month [] d = (1, d)"
| "civil_month (n # ns) d = (if d < n then (1, d) else (let (m, r) = civil_month ns (d - n) in (Suc m, r)))"

definition days_before_year :: "nat \<Rightarrow> nat" where
  "days_before_year y = sum_list (map days_in_year [0..<y])"

definition days_before_month :: "nat \<Rightarrow> nat \<Rightarrow> nat" where
  "days_before_month y m = sum_list (take (m - 1) (month_lengths y))"

text \<open>From the first of year 0 to the epoch.\<close>

definition epoch_days :: int where
  "epoch_days = 719528"

subsection \<open>Writing and reading\<close>

definition trim_zeros :: "string \<Rightarrow> string" where
  "trim_zeros ds = rev (dropWhile (\<lambda>c. c = CHR ''0'') (rev ds))"

definition format_fraction :: "nat \<Rightarrow> string" where
  "format_fraction ns = (if ns = 0 then [] else CHR ''.'' # trim_zeros (pad 9 ns))"

definition FormatTime :: "int \<Rightarrow> string option" where
  "FormatTime t =
    (let secs = t div 1000000000;
         ns = nat (t mod 1000000000);
         days = secs div 86400 + epoch_days;
         sod = nat (secs mod 86400)
     in if days < 0 then None
        else
          (let (y, yd) = civil_year 0 (nat days);
               (m, d) = civil_month (month_lengths y) yd
           in if 9999 < y then None
              else Some (pad 4 y @ ''-'' @ pad 2 m @ ''-'' @ pad 2 (Suc d) @ ''T''
                @ pad 2 (sod div 3600) @ '':'' @ pad 2 (sod div 60 mod 60) @ '':'' @ pad 2 (sod mod 60)
                @ format_fraction ns @ ''Z'')))"

definition read_digits :: "nat \<Rightarrow> string \<Rightarrow> (nat \<times> string) option" where
  "read_digits k s =
    (if k \<le> length s \<and> list_all decimal_digit (take k s)
     then Some (nat (decimal_value (take k s)), drop k s) else None)"

definition read_hour :: "string \<Rightarrow> (nat \<times> string) option" where
  "read_hour s = (case read_digits 2 s of Some r \<Rightarrow> Some r | None \<Rightarrow> read_digits 1 s)"

definition expect :: "char \<Rightarrow> string \<Rightarrow> string option" where
  "expect c s = (case s of [] \<Rightarrow> None | x # t \<Rightarrow> if x = c then Some t else None)"

definition read_fraction :: "string \<Rightarrow> nat \<times> string" where
  "read_fraction s =
    (case s of
       p # d # t \<Rightarrow>
         if (p = CHR ''.'' \<or> p = CHR '','') \<and> decimal_digit d then
           (let ds = take 9 (takeWhile decimal_digit (d # t))
            in (nat (decimal_value ds) * 10 ^ (9 - length ds), dropWhile decimal_digit (d # t)))
         else (0, s)
     | _ \<Rightarrow> (0, s))"

text \<open>The offset in seconds, with nothing after it.\<close>

definition read_zone :: "string \<Rightarrow> int option" where
  "read_zone s =
    (if s = ''Z'' then Some 0
     else
       (case s of
          [] \<Rightarrow> None
        | sign # t \<Rightarrow>
            do {
              (hr, t) \<leftarrow> read_digits 2 t;
              t \<leftarrow> expect (CHR '':'') t;
              (mm, t) \<leftarrow> read_digits 2 t;
              if 24 < hr \<or> 60 < mm \<or> t \<noteq> [] then None
              else if sign = CHR ''+'' then Some (int ((hr * 60 + mm) * 60))
              else if sign = CHR ''-'' then Some (- int ((hr * 60 + mm) * 60))
              else None
            }))"

definition ParseTime :: "string \<Rightarrow> int option" where
  "ParseTime s =
    do {
      (year, s) \<leftarrow> read_digits 4 s;
      s \<leftarrow> expect (CHR ''-'') s;
      (month, s) \<leftarrow> read_digits 2 s;
      s \<leftarrow> expect (CHR ''-'') s;
      (day, s) \<leftarrow> read_digits 2 s;
      s \<leftarrow> expect (CHR ''T'') s;
      (hour, s) \<leftarrow> read_hour s;
      s \<leftarrow> expect (CHR '':'') s;
      (minute, s) \<leftarrow> read_digits 2 s;
      s \<leftarrow> expect (CHR '':'') s;
      (second, s) \<leftarrow> read_digits 2 s;
      let (nsec, s) = read_fraction s;
      offset \<leftarrow> read_zone s;
      if month < 1 \<or> 12 < month \<or> 24 \<le> hour \<or> 60 \<le> minute \<or> 60 \<le> second
        \<or> day < 1 \<or> month_lengths year ! (month - 1) < day
      then None
      else Some (((int (days_before_year year + days_before_month year month + day - 1) - epoch_days) * 86400
        + int (hour * 3600 + minute * 60 + second) - offset) * 1000000000 + int nsec)
    }"

subsection \<open>A time is read back\<close>

lemma civil_year_days:
  "civil_year y d = (y', r) \<Longrightarrow> y \<le> y' \<and> r < days_in_year y' \<and> sum_list (map days_in_year [y..<y']) + r = d"
proof (induction y d rule: civil_year.induct)
  case (1 y d)
  show ?case
  proof (cases "d < days_in_year y")
    case True
    with 1 show ?thesis by (auto simp: civil_year.simps [of y d])
  next
    case False
    with 1 have IH: "Suc y \<le> y'" "r < days_in_year y'" "sum_list (map days_in_year [Suc y..<y']) + r = d - days_in_year y"
      by (auto simp: civil_year.simps [of y d])
    moreover have "[y..<y'] = y # [Suc y..<y']" using IH(1) by (simp add: upt_conv_Cons)
    ultimately show ?thesis using False by simp
  qed
qed

lemma civil_month_days:
  "civil_month ns d = (m, r) \<Longrightarrow> d < sum_list ns \<Longrightarrow>
    1 \<le> m \<and> m \<le> length ns \<and> r < ns ! (m - 1) \<and> sum_list (take (m - 1) ns) + r = d"
proof (induction ns arbitrary: d m)
  case (Cons n ns)
  show ?case
  proof (cases "d < n")
    case True
    with Cons.prems show ?thesis by auto
  next
    case False
    with Cons.prems(1) obtain m' where m: "civil_month ns (d - n) = (m', r)" "m = Suc m'"
      by (auto split: prod.splits)
    have "d - n < sum_list ns" using Cons.prems(2) False by simp
    from Cons.IH [OF m(1) this] False m(2) show ?thesis
      by (cases m') auto
  qed
qed simp

lemma month_lengths_sum: "sum_list (month_lengths y) = days_in_year y" "length (month_lengths y) = 12"
  by (simp_all add: month_lengths_def days_in_year_def)

lemma month_length_bound: "i < 12 \<Longrightarrow> month_lengths y ! i \<le> 31"
proof -
  assume "i < 12"
  then have "month_lengths y ! i \<in> set (month_lengths y)"
    using month_lengths_sum(2) [of y] by (intro nth_mem) simp
  then show ?thesis by (auto simp: month_lengths_def split: if_splits)
qed

lemma read_digits_pad: "n < 10 ^ k \<Longrightarrow> read_digits k (pad k n @ s) = Some (n, s)"
  by (simp add: read_digits_def value_pad)

lemma read_hour_pad: "n < 100 \<Longrightarrow> read_hour (pad 2 n @ s) = Some (n, s)"
  using read_digits_pad [of n 2 s] by (simp add: read_hour_def)

lemma expect_same [simp]: "expect c (c # s) = Some s"
  by (simp add: expect_def)

lemma decimal_value_zeros: "decimal_value (ds @ replicate j (CHR ''0'')) = decimal_value ds * 10 ^ j"
proof (induction j)
  case (Suc j)
  have "ds @ replicate (Suc j) (CHR ''0'') = (ds @ replicate j (CHR ''0'')) @ [CHR ''0'']"
    by (simp add: replicate_append_same)
  then show ?case
    unfolding decimal_value_append [of "ds @ replicate j (CHR ''0'')"] by (simp only: decimal_value_append Suc) simp
qed simp

lemma trim_zeros_split: "\<exists>j. ds = trim_zeros ds @ replicate j (CHR ''0'')"
proof -
  let ?z = "\<lambda>c. c = CHR ''0''"
  have "takeWhile ?z (rev ds) = replicate (length (takeWhile ?z (rev ds))) (CHR ''0'')"
    by (rule replicate_length_same [symmetric]) (auto dest: set_takeWhileD)
  then obtain j where "takeWhile ?z (rev ds) = replicate j (CHR ''0'')" by blast
  then have "rev ds = replicate j (CHR ''0'') @ rev (trim_zeros ds)"
    unfolding trim_zeros_def rev_rev_ident by (metis takeWhile_dropWhile_id)
  then have "rev (rev ds) = rev (replicate j (CHR ''0'') @ rev (trim_zeros ds))" by (rule arg_cong)
  then show ?thesis by auto
qed

lemma read_fraction_format:
  assumes "ns < 1000000000"
  shows "read_fraction (format_fraction ns @ ''Z'') = (ns, ''Z'')"
proof (cases "ns = 0")
  case True
  then show ?thesis by (simp add: format_fraction_def read_fraction_def)
next
  case False
  define ds where "ds = trim_zeros (pad 9 ns)"
  obtain j where j: "pad 9 ns = ds @ replicate j (CHR ''0'')"
    using trim_zeros_split unfolding ds_def by blast
  have all: "list_all decimal_digit ds"
    using digits_pad [of 9 ns] by (simp add: j)
  have len: "length ds + j = 9"
    using length_pad [of 9 ns] by (simp add: j)
  have "decimal_value (pad 9 ns) = int ns"
    using assms by (intro value_pad) simp
  then have val: "decimal_value ds * 10 ^ j = int ns"
    by (simp add: j decimal_value_zeros)
  have "ds \<noteq> []" using val False by (cases ds) auto
  then obtain c cs where ds: "ds = c # cs" by (cases ds) auto
  have tw: "takeWhile decimal_digit (ds @ ''Z'') = ds" "dropWhile decimal_digit (ds @ ''Z'') = ''Z''"
    using all by (auto simp: list_all_iff takeWhile_append2 dropWhile_append2 decimal_digit_def)
  have "0 \<le> decimal_value ds" using decimal_value_bounds [OF all] by simp
  then have "nat (decimal_value ds) * 10 ^ j = ns"
    using val by (metis nat_int nat_mult_distrib nat_power_eq nat_numeral zero_le_numeral)
  moreover have "9 - length ds = j" "take 9 ds = ds" using len by simp_all
  moreover have "decimal_digit c" using all by (simp add: ds)
  ultimately show ?thesis
    using False tw by (simp add: format_fraction_def ds_def [symmetric] read_fraction_def ds Let_def)
qed

theorem ParseTime_FormatTime:
  assumes "FormatTime t = Some s"
  shows "ParseTime s = Some t"
proof -
  define secs ns sod days where "secs = t div 1000000000" and "ns = nat (t mod 1000000000)"
    and "sod = nat (secs mod 86400)" and "days = secs div 86400 + epoch_days"
  obtain y yd where y: "civil_year 0 (nat days) = (y, yd)" by fastforce
  obtain m d where m: "civil_month (month_lengths y) yd = (m, d)" by fastforce
  have days: "0 \<le> days" and y4: "y \<le> 9999" and s: "s = pad 4 y @ ''-'' @ pad 2 m @ ''-'' @ pad 2 (Suc d) @ ''T''
      @ pad 2 (sod div 3600) @ '':'' @ pad 2 (sod div 60 mod 60) @ '':'' @ pad 2 (sod mod 60) @ format_fraction ns @ ''Z''"
    using assms y m
    by (auto simp: FormatTime_def Let_def secs_def [symmetric] ns_def [symmetric] sod_def [symmetric] days_def [symmetric]
        split: if_splits)
  have yd: "yd < days_in_year y" "days_before_year y + yd = nat days"
    using civil_year_days [OF y] by (auto simp: days_before_year_def)
  have md: "1 \<le> m" "m \<le> 12" "d < month_lengths y ! (m - 1)" "days_before_month y m + d = yd"
    using civil_month_days [OF m] yd(1) by (simp_all add: month_lengths_sum days_before_month_def)
  have d: "Suc d < 100"
  proof -
    have "m - 1 < 12" using md(1,2) by simp
    from month_length_bound [OF this, of y] md(3) show ?thesis by linarith
  qed
  have sod: "sod < 86400" "int sod = secs mod 86400"
    by (simp_all add: sod_def nat_less_iff)
  have ns: "ns < 1000000000" "int ns = t mod 1000000000"
    by (simp_all add: ns_def nat_less_iff)
  have hms: "sod div 3600 < 24" "sod div 60 mod 60 < 60" "sod mod 60 < 60"
    using sod(1) by (simp_all add: less_mult_imp_div_less)
  have "sod div 3600 * 3600 + sod div 60 mod 60 * 60 + sod mod 60 = sod"
  proof -
    have "sod div 60 * 60 + sod mod 60 = sod" "sod div 60 div 60 * 60 + sod div 60 mod 60 = sod div 60"
      by (rule div_mult_mod_eq)+
    moreover have "sod div 60 div 60 = sod div 3600" by (simp add: div_mult2_eq [symmetric])
    ultimately show ?thesis by linarith
  qed
  note hms = hms this
  have lt: "\<not> 60 \<le> sod div 60 mod 60" "\<not> 60 \<le> sod mod 60" by (simp_all add: not_le)
  have "int (days_before_year y + days_before_month y m + Suc d - 1) = days"
    using yd(2) md(4) days by simp
  then have "((int (days_before_year y + days_before_month y m + Suc d - 1) - epoch_days) * 86400
        + int (sod div 3600 * 3600 + sod div 60 mod 60 * 60 + sod mod 60) - 0) * 1000000000 + int ns = t"
    unfolding hms(4) sod(2) ns(2) days_def secs_def by simp
  moreover have "read_zone ''Z'' = Some 0" by (simp add: read_zone_def)
  ultimately show ?thesis
    using md(1,2,3) hms(1-3) lt d y4 read_fraction_format [OF ns(1)]
    by (simp add: s ParseTime_def read_digits_pad read_hour_pad Let_def)
qed

end
