(* ===== verification/Provider.thy ===== *)
theory Provider
  imports GoErrors
begin

text \<open>
  internal/domain/provider: the validated value objects and provider messages.
  \<open>EmailAddress\<close>, \<open>PhoneNumber\<close> and \<open>DeviceToken\<close> are the structs with one
  private field; \<open>NewX\<close> is the only way to make one. The email check calls
  \<open>net/mail.ParseAddress\<close>, which is the parameter \<open>parse\<close>: the \<open>Address\<close> field of
  its result, or \<open>None\<close> for an error. The locale \<open>value_object\<close> is the contract
  the three constructors share and the processors rely on; it is interpreted
  for each of them.
\<close>

subsection \<open>The contract of a value object\<close>

text \<open>A value object is never made from the empty string, and its string is
  accepted again and gives the same value: validating twice, at the API and at
  the worker, is validating once.\<close>

locale value_object =
  fixes new :: "string \<Rightarrow> 'v result" and str :: "'v \<Rightarrow> string"
  assumes new_empty: "\<exists>e. new [] = Inl e"
    and reparse: "new s = Inr v \<Longrightarrow> new (str v) = Inr v"
begin

lemma str_nonempty: "new s = Inr v \<Longrightarrow> str v \<noteq> []"
  using new_empty reparse by fastforce

lemma str_inject: "new s = Inr v \<Longrightarrow> new s' = Inr v' \<Longrightarrow> str v = str v' \<Longrightarrow> v = v'"
  using reparse by (metis Inr_inject)

lemma canonical: "new s = Inr v \<Longrightarrow> new (str v) = Inr v' \<Longrightarrow> str v' = str v"
  using reparse by force

end

subsection \<open>Email\<close>

record EmailAddress =
  ea_value :: string

definition validateEmail :: "(string \<Rightarrow> string option) \<Rightarrow> string \<Rightarrow> go_error option" where
  "validateEmail parse email =
    (if email = [] then Some (Sentinel ErrInvalidEmail)
     else if Contains email '' '' then Some (Sentinel ErrInvalidEmail)
     else (case parse email of
       None \<Rightarrow> Some (Sentinel ErrInvalidEmail)
     | Some address \<Rightarrow>
        (case Split address (CHR ''@'') of
          [local, domain] \<Rightarrow>
            if local = [] then Some (Sentinel ErrInvalidEmail)
            else if \<not> Contains domain ''.'' then Some (Sentinel ErrInvalidEmail)
            else if domain = [] \<or> HasSuffix domain ''.'' then Some (Sentinel ErrInvalidEmail)
            else None
        | _ \<Rightarrow> Some (Sentinel ErrInvalidEmail))))"

definition NewEmailAddress :: "(string \<Rightarrow> string option) \<Rightarrow> string \<Rightarrow> EmailAddress result" where
  "NewEmailAddress parse email =
    (case validateEmail parse email of
       Some err \<Rightarrow> Inl err
     | None \<Rightarrow> Inr \<lparr>ea_value = email\<rparr>)"

definition EmailAddress_String :: "EmailAddress \<Rightarrow> string" where
  "EmailAddress_String x = ea_value x"

record EmailMessage =
  em_to :: EmailAddress
  em_subject :: string
  em_body :: string

definition NewEmailMessage :: "EmailAddress \<Rightarrow> string \<Rightarrow> string \<Rightarrow> EmailMessage result" where
  "NewEmailMessage to subject body =
    (if body = [] then Inl (Sentinel ErrEmptyBody)
     else Inr \<lparr>em_to = to, em_subject = subject, em_body = body\<rparr>)"

definition EmailMessage_To :: "EmailMessage \<Rightarrow> EmailAddress" where
  "EmailMessage_To x = em_to x"

definition EmailMessage_Subject :: "EmailMessage \<Rightarrow> string" where
  "EmailMessage_Subject x = em_subject x"

definition EmailMessage_Body :: "EmailMessage \<Rightarrow> string" where
  "EmailMessage_Body x = em_body x"

subsection \<open>SMS\<close>

definition minPhoneDigits :: nat where
  "minPhoneDigits = 7"

definition maxPhoneDigits :: nat where
  "maxPhoneDigits = 15"

record PhoneNumber =
  pn_value :: string

text \<open>The formatting characters: space, dash and the two parentheses.\<close>

definition formatting_rune :: "nat \<Rightarrow> bool" where
  "formatting_rune r \<longleftrightarrow> r = byte (CHR '' '') \<or> r = byte (CHR ''-'') \<or> r = byte (CHR ''('') \<or> r = byte (CHR '')'')"

definition normalizePhoneNumber :: "string \<Rightarrow> string" where
  "normalizePhoneNumber number =
    write_runes (filter (\<lambda>r. \<not> formatting_rune r) (runes number))"

definition normalizeAndValidatePhoneNumber :: "string \<Rightarrow> string result" where
  "normalizeAndValidatePhoneNumber number =
    (if number = [] then Inl (Sentinel ErrInvalidPhoneNumber)
     else
       (let normalized = normalizePhoneNumber number in
        if \<not> HasPrefix normalized ''+'' then Inl (Sentinel ErrInvalidPhoneNumber)
        else
          (let digits = drop 1 normalized in
           if \<not> list_all IsDigit (runes digits) then Inl (Sentinel ErrInvalidPhoneNumber)
           else if length digits < minPhoneDigits \<or> length digits > maxPhoneDigits
             then Inl (Sentinel ErrInvalidPhoneNumber)
           else Inr normalized)))"

definition NewPhoneNumber :: "string \<Rightarrow> PhoneNumber result" where
  "NewPhoneNumber number =
    (case normalizeAndValidatePhoneNumber number of
       Inl err \<Rightarrow> Inl err
     | Inr normalized \<Rightarrow> Inr \<lparr>pn_value = normalized\<rparr>)"

definition PhoneNumber_String :: "PhoneNumber \<Rightarrow> string" where
  "PhoneNumber_String x = pn_value x"

record SMSMessage =
  sms_to :: PhoneNumber
  sms_text :: string

definition NewSMSMessage :: "PhoneNumber \<Rightarrow> string \<Rightarrow> SMSMessage result" where
  "NewSMSMessage to msg_text =
    (if msg_text = [] then Inl (Sentinel ErrEmptyMessage)
     else Inr \<lparr>sms_to = to, sms_text = msg_text\<rparr>)"

definition SMSMessage_To :: "SMSMessage \<Rightarrow> PhoneNumber" where
  "SMSMessage_To x = sms_to x"

definition SMSMessage_Text :: "SMSMessage \<Rightarrow> string" where
  "SMSMessage_Text x = sms_text x"

subsection \<open>Push\<close>

definition minDeviceTokenLength :: nat where
  "minDeviceTokenLength = 10"

record DeviceToken =
  dt_value :: string

definition validateDeviceToken :: "string \<Rightarrow> go_error option" where
  "validateDeviceToken token =
    (let trimmed = TrimSpace token in
     if trimmed = [] then Some (Sentinel ErrInvalidDeviceToken)
     else if length trimmed < minDeviceTokenLength then Some (Sentinel ErrInvalidDeviceToken)
     else None)"

definition NewDeviceToken :: "string \<Rightarrow> DeviceToken result" where
  "NewDeviceToken token =
    (case validateDeviceToken token of
       Some err \<Rightarrow> Inl err
     | None \<Rightarrow> Inr \<lparr>dt_value = token\<rparr>)"

definition DeviceToken_String :: "DeviceToken \<Rightarrow> string" where
  "DeviceToken_String x = dt_value x"

record PushMessage =
  pm_to :: DeviceToken
  pm_title :: string
  pm_body :: string
  pm_data :: string_map

definition NewPushMessage :: "DeviceToken \<Rightarrow> string \<Rightarrow> string \<Rightarrow> string_map \<Rightarrow> PushMessage result" where
  "NewPushMessage to title body data =
    (if body = [] then Inl (Sentinel ErrEmptyPushBody)
     else Inr \<lparr>pm_to = to, pm_title = title, pm_body = body, pm_data = data\<rparr>)"

definition PushMessage_To :: "PushMessage \<Rightarrow> DeviceToken" where
  "PushMessage_To x = pm_to x"

definition PushMessage_Title :: "PushMessage \<Rightarrow> string" where
  "PushMessage_Title x = pm_title x"

definition PushMessage_Body :: "PushMessage \<Rightarrow> string" where
  "PushMessage_Body x = pm_body x"

definition PushMessage_Data :: "PushMessage \<Rightarrow> string_map" where
  "PushMessage_Data x = pm_data x"

text \<open>What a sender can read of a message are these methods, as the fields are private.\<close>

lemmas accessors [simp] = EmailAddress_String_def EmailMessage_To_def EmailMessage_Subject_def EmailMessage_Body_def
  PhoneNumber_String_def SMSMessage_To_def SMSMessage_Text_def
  DeviceToken_String_def PushMessage_To_def PushMessage_Title_def PushMessage_Body_def PushMessage_Data_def

subsection \<open>Validation of an email address\<close>

text \<open>The checks after the parser, as one condition on the parsed address.\<close>

definition deliverable :: "string \<Rightarrow> bool" where
  "deliverable address \<longleftrightarrow>
    (\<exists>local domain. address = local @ CHR ''@'' # domain \<and> CHR ''@'' \<notin> set local \<union> set domain
       \<and> local \<noteq> [] \<and> CHR ''.'' \<in> set domain \<and> last domain \<noteq> CHR ''.'')"

lemma split_at_deliverable:
  "(case Split address (CHR ''@'') of
      [local, domain] \<Rightarrow>
        if local = [] then Some (Sentinel ErrInvalidEmail)
        else if \<not> Contains domain ''.'' then Some (Sentinel ErrInvalidEmail)
        else if domain = [] \<or> HasSuffix domain ''.'' then Some (Sentinel ErrInvalidEmail)
        else None
    | _ \<Rightarrow> Some (Sentinel ErrInvalidEmail)) = None \<longleftrightarrow> deliverable address"
  (is "?check = None \<longleftrightarrow> _")
proof -
  have "?check = None \<longleftrightarrow> (\<exists>local domain. Split address (CHR ''@'') = [local, domain] \<and> local \<noteq> []
          \<and> CHR ''.'' \<in> set domain \<and> last domain \<noteq> CHR ''.'')"
    by (auto simp: Contains_byte HasSuffix_byte split: list.splits if_splits)
  then show ?thesis
    by (auto simp: deliverable_def Split_two)
qed

lemma validateEmail_None:
  "validateEmail parse email = None \<longleftrightarrow>
     email \<noteq> [] \<and> CHR '' '' \<notin> set email \<and> (\<exists>address. parse email = Some address \<and> deliverable address)"
  using split_at_deliverable
  by (auto simp: validateEmail_def Contains_byte split: option.splits)

lemma validateEmail_error: "validateEmail parse email = Some e \<Longrightarrow> e = Sentinel ErrInvalidEmail"
  by (auto simp: validateEmail_def split: if_splits option.splits list.splits)

lemma NewEmailAddress_Inr:
  "NewEmailAddress parse email = Inr v \<longleftrightarrow> validateEmail parse email = None \<and> v = \<lparr>ea_value = email\<rparr>"
  by (auto simp: NewEmailAddress_def split: option.splits)

lemma NewEmailAddress_Inl: "NewEmailAddress parse email = Inl e \<Longrightarrow> e = Sentinel ErrInvalidEmail"
  by (auto simp: NewEmailAddress_def dest: validateEmail_error split: option.splits)

interpretation email_vo: value_object "NewEmailAddress parse" EmailAddress_String for parse
proof unfold_locales
  show "\<exists>e. NewEmailAddress parse [] = Inl e"
    by (simp add: NewEmailAddress_def validateEmail_def)
qed (simp add: NewEmailAddress_Inr)

subsection \<open>Validation of a phone number\<close>

lemma runes_normalized:
  "runes (normalizePhoneNumber number) = filter (\<lambda>r. \<not> formatting_rune r) (runes number)"
  unfolding normalizePhoneNumber_def
  by (rule runes_write_runes) (auto dest: runes_valid)

lemma normalizePhoneNumber_idem:
  "normalizePhoneNumber (normalizePhoneNumber number) = normalizePhoneNumber number"
  using runes_normalized [of number]
  by (simp add: normalizePhoneNumber_def [of "normalizePhoneNumber number"])
     (simp add: normalizePhoneNumber_def)

lemma normalizeAndValidate_Inr:
  "normalizeAndValidatePhoneNumber number = Inr p \<longleftrightarrow>
     p = normalizePhoneNumber number \<and> number \<noteq> [] \<and>
     (\<exists>digits. p = CHR ''+'' # digits \<and> list_all IsDigit (runes digits)
        \<and> minPhoneDigits \<le> length digits \<and> length digits \<le> maxPhoneDigits)"
  by (auto simp: normalizeAndValidatePhoneNumber_def Let_def HasPrefix_byte)

lemma NewPhoneNumber_Inr:
  "NewPhoneNumber number = Inr v \<longleftrightarrow> normalizeAndValidatePhoneNumber number = Inr (pn_value v)"
  by (cases v) (auto simp: NewPhoneNumber_def split: sum.splits)

lemma NewPhoneNumber_Inl: "NewPhoneNumber number = Inl e \<Longrightarrow> e = Sentinel ErrInvalidPhoneNumber"
  by (auto simp: NewPhoneNumber_def normalizeAndValidatePhoneNumber_def Let_def split: sum.splits if_splits)

interpretation phone_vo: value_object NewPhoneNumber PhoneNumber_String
proof unfold_locales
  show "\<exists>e. NewPhoneNumber [] = Inl e"
    by (simp add: NewPhoneNumber_def normalizeAndValidatePhoneNumber_def)
next
  fix s v assume "NewPhoneNumber s = Inr v"
  then show "NewPhoneNumber (PhoneNumber_String v) = Inr v"
    unfolding NewPhoneNumber_Inr normalizeAndValidate_Inr PhoneNumber_String_def
    using normalizePhoneNumber_idem [of s] by (metis neq_Nil_conv)
qed

lemma formatting_rune_byte:
  "formatting_rune (byte c) \<longleftrightarrow> c \<in> {CHR '' '', CHR ''-'', CHR ''('', CHR '')''}"
  by (simp only: formatting_rune_def of_char_eq_iff insert_iff empty_iff simp_thms)

lemma normalizePhoneNumber_ascii:
  assumes "\<forall>c \<in> set number. byte c < 0x80"
  shows "normalizePhoneNumber number = filter (\<lambda>c. c \<notin> {CHR '' '', CHR ''-'', CHR ''('', CHR '')''}) number"
proof -
  have "filter (\<lambda>r. \<not> formatting_rune r) (map byte number)
      = map byte (filter (\<lambda>c. c \<notin> {CHR '' '', CHR ''-'', CHR ''('', CHR '')''}) number)"
    by (simp add: filter_map o_def formatting_rune_byte)
  then show ?thesis
    using assms by (simp add: normalizePhoneNumber_def runes_ascii write_runes_ascii)
qed

subsection \<open>Validation of a device token\<close>

lemma validateDeviceToken_None:
  "validateDeviceToken token = None \<longleftrightarrow> minDeviceTokenLength \<le> length (TrimSpace token)"
  by (auto simp: validateDeviceToken_def Let_def minDeviceTokenLength_def)

lemma NewDeviceToken_Inr:
  "NewDeviceToken token = Inr v \<longleftrightarrow> validateDeviceToken token = None \<and> v = \<lparr>dt_value = token\<rparr>"
  by (auto simp: NewDeviceToken_def split: option.splits)

lemma NewDeviceToken_Inl: "NewDeviceToken token = Inl e \<Longrightarrow> e = Sentinel ErrInvalidDeviceToken"
  by (auto simp: NewDeviceToken_def validateDeviceToken_def Let_def split: option.splits if_splits)

lemma TrimSpace_Nil [simp]: "TrimSpace [] = []"
  by (simp add: TrimSpace_def TrimLeftSpace.simps TrimRightSpace.simps)

interpretation token_vo: value_object NewDeviceToken DeviceToken_String
proof unfold_locales
  show "\<exists>e. NewDeviceToken [] = Inl e"
    by (simp add: NewDeviceToken_def validateDeviceToken_def)
qed (simp add: NewDeviceToken_Inr)

subsection \<open>Properties\<close>

text \<open>C40. An address is accepted exactly when it is not empty, has no space and parses to
  an address with one \<open>@\<close>, a local part, and a domain that has a dot and does not end
  in one; the value object then holds the input itself, not the parsed address.\<close>

theorem NewEmailAddress_spec:
  "NewEmailAddress parse email = Inr v \<longleftrightarrow>
     v = \<lparr>ea_value = email\<rparr> \<and> email \<noteq> [] \<and> CHR '' '' \<notin> set email
     \<and> (\<exists>address. parse email = Some address \<and> deliverable address)"
  by (auto simp: NewEmailAddress_Inr validateEmail_None)

text \<open>C33. For an ASCII input a phone number is accepted exactly when, without its spaces,
  dashes and parentheses, it is a plus sign and 7 to 15 decimal digits (E.164), and the
  value is that normalised form.\<close>

theorem NewPhoneNumber_ascii_spec:
  assumes "\<forall>c \<in> set number. byte c < 0x80"
  shows "NewPhoneNumber number = Inr v \<longleftrightarrow>
    pn_value v = filter (\<lambda>c. c \<notin> {CHR '' '', CHR ''-'', CHR ''('', CHR '')''}) number
    \<and> (\<exists>digits. pn_value v = CHR ''+'' # digits
         \<and> (\<forall>c \<in> set digits. CHR ''0'' \<le> c \<and> c \<le> CHR ''9'') \<and> 7 \<le> length digits \<and> length digits \<le> 15)"
proof -
  let ?n = "filter (\<lambda>c. c \<notin> {CHR '' '', CHR ''-'', CHR ''('', CHR '')''}) number"
  have digits: "list_all IsDigit (runes ds) \<longleftrightarrow> (\<forall>c \<in> set ds. CHR ''0'' \<le> c \<and> c \<le> CHR ''9'')"
    if "?n = CHR ''+'' # ds" for ds
  proof -
    have "set ds \<subseteq> set number"
      using that by (metis filter_is_subset set_subset_Cons subset_trans)
    then have "\<forall>c \<in> set ds. byte c < 0x80"
      using assms by auto
    then show ?thesis
      by (auto simp: runes_ascii list_all_iff IsDigit_ascii less_eq_char_def)
  qed
  show ?thesis
    using digits
    by (auto simp: NewPhoneNumber_Inr normalizeAndValidate_Inr normalizePhoneNumber_ascii [OF assms]
        minPhoneDigits_def maxPhoneDigits_def)
qed

theorem NewPhoneNumber_ascii_spec_witness:
  "NewPhoneNumber ''+1 (415) 555-1234'' = Inr \<lparr>pn_value = ''+14155551234''\<rparr>"
  by (rule NewPhoneNumber_ascii_spec [THEN iffD2]) (simp_all add: less_eq_char_def)

text \<open>The check does not imply E.164: a plus sign and four Arabic-Indic digits, eight
  bytes of UTF-8, are accepted, since \<open>unicode.IsDigit\<close> takes every decimal digit of
  Unicode and the length check counts bytes.\<close>

theorem NewPhoneNumber_accepts_non_ascii:
  "NewPhoneNumber (CHR ''+'' # write_runes [0x663, 0x663, 0x663, 0x663])
     = Inr \<lparr>pn_value = CHR ''+'' # write_runes [0x663, 0x663, 0x663, 0x663]\<rparr>"
proof -
  let ?ds = "write_runes [0x663, 0x663, 0x663, 0x663]"
  have ds: "runes ?ds = [0x663, 0x663, 0x663, 0x663]"
    by (rule runes_write_runes) (simp add: valid_rune_def)
  have len: "length ?ds = 8"
    by (simp add: EncodeRune_def valid_rune_def)
  have "runes (CHR ''+'' # ?ds) = [0x2B, 0x663, 0x663, 0x663, 0x663]"
    by (subst runes_Cons_ascii) (simp_all only: ds, simp_all)
  moreover have "EncodeRune 0x2B = ''+''"
    using EncodeRune_ascii [of "CHR ''+''"] by simp
  ultimately have norm: "normalizePhoneNumber (CHR ''+'' # ?ds) = CHR ''+'' # ?ds"
    by (simp add: normalizePhoneNumber_def formatting_rune_def)
  have dig: "list_all IsDigit [0x663, 0x663, 0x663, 0x663]"
    by (simp add: IsDigit_def digit_blocks_def)
  show ?thesis
    unfolding NewPhoneNumber_Inr normalizeAndValidate_Inr
    using norm dig by (simp add: ds len minPhoneDigits_def maxPhoneDigits_def del: write_runes_simps)
qed

text \<open>A phone number's string is itself accepted and gives the same number: the worker's
  second validation of a number the API accepted never fails.\<close>

theorem NewPhoneNumber_reparse:
  assumes "NewPhoneNumber number = Inr v"
  shows "NewPhoneNumber (pn_value v) = Inr v"
  using phone_vo.reparse [OF assms] by simp

theorem NewPhoneNumber_reparse_witness:
  "NewPhoneNumber (pn_value \<lparr>pn_value = ''+14155551234''\<rparr>) = Inr \<lparr>pn_value = ''+14155551234''\<rparr>"
proof (rule NewPhoneNumber_reparse)
  show "NewPhoneNumber ''+1 415 555 1234'' = Inr \<lparr>pn_value = ''+14155551234''\<rparr>"
    by (simp add: NewPhoneNumber_Inr normalizeAndValidate_Inr normalizePhoneNumber_ascii
        runes_ascii IsDigit_ascii minPhoneDigits_def maxPhoneDigits_def)
qed

text \<open>A device token is accepted exactly when at least ten bytes are left after white
  space is trimmed from its ends; the value object keeps the token as it was given.\<close>

theorem NewDeviceToken_spec:
  "NewDeviceToken token = Inr v \<longleftrightarrow> v = \<lparr>dt_value = token\<rparr> \<and> 10 \<le> length (TrimSpace token)"
  by (auto simp: NewDeviceToken_Inr validateDeviceToken_None minDeviceTokenLength_def)

end
