(* ===== verification/Notification.thy ===== *)
theory Notification
  imports Provider
begin

text \<open>
  internal/domain/notification: the notification entity (notification.go), its
  recipient (recipient.go) and the queue message (message.go). \<open>Type\<close>,
  \<open>Priority\<close> and \<open>Status\<close> are Go strings, since values outside the constants
  reach the checks. \<open>parse\<close> is \<open>net/mail.ParseAddress\<close>; \<open>uuid\<close> is the result of
  \<open>uuid.New().String()\<close> and \<open>now\<close> that of \<open>time.Now().UTC()\<close> at the call.
  \<open>RetryCount\<close> is a 64-bit \<open>int\<close>.
\<close>

type_synonym Type = string
type_synonym Priority = string
type_synonym Status = string

abbreviation TypeEmail :: Type where "TypeEmail \<equiv> ''email''"
abbreviation TypeSMS :: Type where "TypeSMS \<equiv> ''sms''"
abbreviation TypePush :: Type where "TypePush \<equiv> ''push''"

abbreviation PriorityTransactional :: Priority where "PriorityTransactional \<equiv> ''transactional''"
abbreviation PriorityBulk :: Priority where "PriorityBulk \<equiv> ''bulk''"

abbreviation StatusPending :: Status where "StatusPending \<equiv> ''pending''"
abbreviation StatusSent :: Status where "StatusSent \<equiv> ''sent''"
abbreviation StatusFailed :: Status where "StatusFailed \<equiv> ''failed''"

definition Type_IsValid :: "Type \<Rightarrow> bool" where
  "Type_IsValid t \<longleftrightarrow> t = TypeEmail \<or> t = TypeSMS \<or> t = TypePush"

definition Priority_IsValid :: "Priority \<Rightarrow> bool" where
  "Priority_IsValid p \<longleftrightarrow> p = PriorityTransactional \<or> p = PriorityBulk"

subsection \<open>Recipient\<close>

record Recipient =
  rc_Email :: string
  rc_PhoneNumber :: string
  rc_DeviceToken :: string
  rc_UserID :: string

definition NewEmailRecipient :: "string \<Rightarrow> string \<Rightarrow> Recipient" where
  "NewEmailRecipient email userID =
    \<lparr>rc_Email = email, rc_PhoneNumber = [], rc_DeviceToken = [], rc_UserID = userID\<rparr>"

definition NewSMSRecipient :: "string \<Rightarrow> string \<Rightarrow> Recipient" where
  "NewSMSRecipient phoneNumber userID =
    \<lparr>rc_Email = [], rc_PhoneNumber = phoneNumber, rc_DeviceToken = [], rc_UserID = userID\<rparr>"

definition NewPushRecipient :: "string \<Rightarrow> string \<Rightarrow> Recipient" where
  "NewPushRecipient deviceToken userID =
    \<lparr>rc_Email = [], rc_PhoneNumber = [], rc_DeviceToken = deviceToken, rc_UserID = userID\<rparr>"

subsection \<open>Notification\<close>

record Notification =
  n_ID :: string
  n_Type :: Type
  n_Priority :: Priority
  n_Recipient :: Recipient
  n_TemplateID :: string
  n_TemplateData :: any_map
  n_Status :: Status
  n_CreatedAt :: int
  n_SentAt :: "int option"
  n_Error :: "string option"

definition invalid_type_error :: "Type \<Rightarrow> go_error" where
  "invalid_type_error t =
    NewValidationError ''type'' (Errorf [Cause, Lit '': '', Quoted t] (Sentinel ErrInvalidType))"

definition invalid_priority_error :: "Priority \<Rightarrow> go_error" where
  "invalid_priority_error p =
    NewValidationError ''priority'' (Errorf [Cause, Lit '': '', Quoted p] (Sentinel ErrInvalidPriority))"

definition validateRecipient :: "(string \<Rightarrow> string option) \<Rightarrow> Type \<Rightarrow> Recipient \<Rightarrow> go_error option" where
  "validateRecipient parse notifType recipient =
    (if notifType = TypeEmail then
       (if rc_Email recipient = []
        then Some (NewValidationError ''recipient.email'' (Sentinel ErrEmptyRecipient))
        else (case NewEmailAddress parse (rc_Email recipient) of
            Inl err \<Rightarrow> Some (NewValidationError ''recipient.email'' err)
          | Inr _ \<Rightarrow> None))
     else if notifType = TypeSMS then
       (if rc_PhoneNumber recipient = []
        then Some (NewValidationError ''recipient.phone_number'' (Sentinel ErrEmptyRecipient))
        else (case NewPhoneNumber (rc_PhoneNumber recipient) of
            Inl err \<Rightarrow> Some (NewValidationError ''recipient.phone_number'' err)
          | Inr _ \<Rightarrow> None))
     else if notifType = TypePush then
       (if rc_DeviceToken recipient = []
        then Some (NewValidationError ''recipient.device_token'' (Sentinel ErrEmptyRecipient))
        else (case NewDeviceToken (rc_DeviceToken recipient) of
            Inl err \<Rightarrow> Some (NewValidationError ''recipient.device_token'' err)
          | Inr _ \<Rightarrow> None))
     else Some (invalid_type_error notifType))"

definition Notification_New ::
  "(string \<Rightarrow> string option) \<Rightarrow> string \<Rightarrow> int \<Rightarrow> Type \<Rightarrow> Priority \<Rightarrow> Recipient \<Rightarrow> string \<Rightarrow> any_map
    \<Rightarrow> Notification result" where
  "Notification_New parse uuid now notifType priority recipient templateID templateData =
    (if \<not> Type_IsValid notifType then Inl (invalid_type_error notifType)
     else if \<not> Priority_IsValid priority then Inl (invalid_priority_error priority)
     else (case validateRecipient parse notifType recipient of
         Some err \<Rightarrow> Inl err
       | None \<Rightarrow>
           Inr \<lparr>n_ID = uuid, n_Type = notifType, n_Priority = priority, n_Recipient = recipient,
                n_TemplateID = templateID, n_TemplateData = templateData,
                n_Status = StatusPending, n_CreatedAt = now, n_SentAt = None, n_Error = None\<rparr>))"

definition MarkSent :: "int \<Rightarrow> Notification \<Rightarrow> Notification" where
  "MarkSent now n = n\<lparr>n_Status := StatusSent, n_SentAt := Some now\<rparr>"

definition MarkFailed :: "string \<Rightarrow> Notification \<Rightarrow> Notification" where
  "MarkFailed err n = n\<lparr>n_Status := StatusFailed, n_Error := Some err\<rparr>"

subsection \<open>Message\<close>

record Message =
  m_ID :: string
  m_Type :: Type
  m_Priority :: Priority
  m_Recipient :: Recipient
  m_TemplateID :: string
  m_TemplateData :: any_map
  m_Metadata :: string_map
  m_CreatedAt :: int
  m_RetryCount :: go_int

record RenderedContent =
  rd_Subject :: string
  rd_Body :: string
  rd_Data :: string_map

definition NewMessage :: "Notification \<Rightarrow> string_map \<Rightarrow> Message" where
  "NewMessage n metadata =
    \<lparr>m_ID = n_ID n, m_Type = n_Type n, m_Priority = n_Priority n, m_Recipient = n_Recipient n,
     m_TemplateID = n_TemplateID n, m_TemplateData = n_TemplateData n, m_Metadata = metadata,
     m_CreatedAt = n_CreatedAt n, m_RetryCount = 0\<rparr>"

definition IncrementRetry :: "Message \<Rightarrow> Message" where
  "IncrementRetry m = m\<lparr>m_RetryCount := m_RetryCount m + 1\<rparr>"

definition CanRetry :: "Message \<Rightarrow> go_int \<Rightarrow> bool" where
  "CanRetry m maxRetries \<longleftrightarrow> m_RetryCount m <s maxRetries"

subsection \<open>What a valid notification is\<close>

text \<open>The address of the notification's channel makes a value object.\<close>

definition channel_ok :: "(string \<Rightarrow> string option) \<Rightarrow> Type \<Rightarrow> Recipient \<Rightarrow> bool" where
  "channel_ok parse t r \<longleftrightarrow>
    (t = TypeEmail \<and> (\<exists>v. NewEmailAddress parse (rc_Email r) = Inr v))
    \<or> (t = TypeSMS \<and> (\<exists>v. NewPhoneNumber (rc_PhoneNumber r) = Inr v))
    \<or> (t = TypePush \<and> (\<exists>v. NewDeviceToken (rc_DeviceToken r) = Inr v))"

definition recipient_field :: "Type \<Rightarrow> string" where
  "recipient_field t =
    (if t = TypeEmail then ''recipient.email''
     else if t = TypeSMS then ''recipient.phone_number''
     else if t = TypePush then ''recipient.device_token''
     else ''type'')"

text \<open>The entity's invariant: type, priority and recipient are valid, and the status
  agrees with the fields that record the outcome.\<close>

definition valid_notification :: "(string \<Rightarrow> string option) \<Rightarrow> Notification \<Rightarrow> bool" where
  "valid_notification parse n \<longleftrightarrow>
    Type_IsValid (n_Type n) \<and> Priority_IsValid (n_Priority n) \<and> channel_ok parse (n_Type n) (n_Recipient n)
    \<and> n_Status n \<in> {StatusPending, StatusSent, StatusFailed}
    \<and> (n_Status n = StatusPending \<longrightarrow> n_SentAt n = None \<and> n_Error n = None)
    \<and> (n_Status n = StatusSent \<longrightarrow> n_SentAt n \<noteq> None)
    \<and> (n_Status n = StatusFailed \<longrightarrow> n_Error n \<noteq> None)"

definition valid_message :: "(string \<Rightarrow> string option) \<Rightarrow> Message \<Rightarrow> bool" where
  "valid_message parse m \<longleftrightarrow>
    Type_IsValid (m_Type m) \<and> Priority_IsValid (m_Priority m) \<and> channel_ok parse (m_Type m) (m_Recipient m)"

lemma validateRecipient_None:
  "validateRecipient parse t r = None \<longleftrightarrow> channel_ok parse t r"
proof -
  obtain e1 e2 e3 where "NewEmailAddress parse [] = Inl e1" "NewPhoneNumber [] = Inl e2" "NewDeviceToken [] = Inl e3"
    using email_vo.new_empty phone_vo.new_empty token_vo.new_empty by blast
  then show ?thesis
    by (auto simp: validateRecipient_def channel_ok_def split: sum.splits)
qed

lemma validateRecipient_Some:
  "validateRecipient parse t r = Some e \<Longrightarrow> \<exists>e'. e = ValidationError (recipient_field t) e'"
  by (auto simp: validateRecipient_def recipient_field_def invalid_type_error_def error_constructors
      split: if_splits sum.splits)

lemma channel_ok_Type: "channel_ok parse t r \<Longrightarrow> Type_IsValid t"
  by (auto simp: channel_ok_def Type_IsValid_def)

lemma valid_NewMessage: "valid_notification parse n \<Longrightarrow> valid_message parse (NewMessage n md)"
  by (simp add: valid_notification_def valid_message_def NewMessage_def)

lemma valid_IncrementRetry [simp]: "valid_message parse (IncrementRetry m) = valid_message parse m"
  by (simp add: valid_message_def IncrementRetry_def)

lemma IncrementRetry_fields [simp]:
  "m_ID (IncrementRetry m) = m_ID m" "m_Type (IncrementRetry m) = m_Type m"
  "m_Priority (IncrementRetry m) = m_Priority m" "m_Recipient (IncrementRetry m) = m_Recipient m"
  "m_TemplateID (IncrementRetry m) = m_TemplateID m" "m_TemplateData (IncrementRetry m) = m_TemplateData m"
  "m_Metadata (IncrementRetry m) = m_Metadata m" "m_CreatedAt (IncrementRetry m) = m_CreatedAt m"
  by (simp_all add: IncrementRetry_def)

lemma Notification_New_Inr:
  "Notification_New parse uuid now t p r tid td = Inr n \<longleftrightarrow>
     Type_IsValid t \<and> Priority_IsValid p \<and> channel_ok parse t r \<and>
     n = \<lparr>n_ID = uuid, n_Type = t, n_Priority = p, n_Recipient = r, n_TemplateID = tid,
          n_TemplateData = td, n_Status = StatusPending, n_CreatedAt = now,
          n_SentAt = None, n_Error = None\<rparr>"
  by (auto simp: Notification_New_def validateRecipient_None [symmetric] split: option.splits)

lemma Notification_New_Inl:
  "Notification_New parse uuid now t p r tid td = Inl e \<Longrightarrow> \<exists>f e'. e = ValidationError f e'"
  by (auto simp: Notification_New_def invalid_type_error_def invalid_priority_error_def error_constructors
      split: if_splits option.splits dest: validateRecipient_Some)

lemma Notification_New_valid:
  "Notification_New parse uuid now t p r tid td = Inr n \<Longrightarrow> valid_notification parse n"
  by (auto simp: Notification_New_Inr valid_notification_def)

lemma sint_plus_1:
  fixes a b :: go_int
  assumes "a <s b"
  shows "sint (a + 1) = sint a + 1"
proof -
  have "sint a < sint b"
    using assms by (simp add: word_sless_alt)
  moreover have "sint b < 2 ^ 63" "- (2 ^ 63) \<le> sint a"
    using sint_lt [of b] sint_ge [of a] by simp_all
  ultimately show ?thesis
    by (simp add: sint_word_ariths signed_take_bit_int_eq_self)
qed

text \<open>A message that may be retried counts up by one without overflow and stays within the limit.\<close>

lemma CanRetry_IncrementRetry:
  "CanRetry m maxRetries \<Longrightarrow>
    sint (m_RetryCount (IncrementRetry m)) = sint (m_RetryCount m) + 1
    \<and> sint (m_RetryCount (IncrementRetry m)) \<le> sint maxRetries"
  using sint_plus_1 [of "m_RetryCount m" maxRetries]
  by (simp add: CanRetry_def IncrementRetry_def word_sless_alt)

text \<open>The notifications the entity's methods can produce.\<close>

inductive lifecycle :: "(string \<Rightarrow> string option) \<Rightarrow> Notification \<Rightarrow> bool" for parse where
  created: "Notification_New parse uuid now t p r tid td = Inr n \<Longrightarrow> lifecycle parse n"
| sent: "lifecycle parse n \<Longrightarrow> lifecycle parse (MarkSent now n)"
| failed: "lifecycle parse n \<Longrightarrow> lifecycle parse (MarkFailed err n)"

text \<open>A concrete notification for the examples.\<close>

definition sample_notification :: Notification where
  "sample_notification =
    \<lparr>n_ID = ''notif_1'', n_Type = TypePush, n_Priority = PriorityBulk,
     n_Recipient = NewPushRecipient ''0123456789abcdef'' ''user_789'', n_TemplateID = ''alert'',
     n_TemplateData = None, n_Status = StatusPending, n_CreatedAt = 0, n_SentAt = None, n_Error = None\<rparr>"

lemma sample_token: "NewDeviceToken ''0123456789abcdef'' = Inr \<lparr>dt_value = ''0123456789abcdef''\<rparr>"
  by (simp add: NewDeviceToken_Inr validateDeviceToken_None TrimSpace_ascii_word minDeviceTokenLength_def IsSpace_def)

subsection \<open>Properties\<close>

text \<open>A notification is made exactly when the type and the priority are among the
  constants and the recipient's address for the channel is a valid value object; it then
  carries the arguments and starts pending, with no outcome recorded.\<close>

theorem Notification_New_spec:
  "Notification_New parse uuid now t p r tid td = Inr n \<longleftrightarrow>
     Type_IsValid t \<and> Priority_IsValid p \<and> channel_ok parse t r \<and>
     n = \<lparr>n_ID = uuid, n_Type = t, n_Priority = p, n_Recipient = r, n_TemplateID = tid,
          n_TemplateData = td, n_Status = StatusPending, n_CreatedAt = now,
          n_SentAt = None, n_Error = None\<rparr>"
  by (rule Notification_New_Inr)

text \<open>C32. Every refusal is a \<open>ValidationError\<close> that names the first field at fault:
  the type, then the priority, then the recipient's address for the channel.\<close>

theorem Notification_New_error_field:
  assumes "Notification_New parse uuid now t p r tid td = Inl e"
  shows "\<exists>cause. e = ValidationError
      (if \<not> Type_IsValid t then ''type''
       else if \<not> Priority_IsValid p then ''priority'' else recipient_field t) cause"
proof (cases "Type_IsValid t \<and> Priority_IsValid p")
  case True
  with assms have "validateRecipient parse t r = Some e"
    by (auto simp: Notification_New_def split: option.splits)
  with True show ?thesis
    by (simp add: validateRecipient_Some)
next
  case False
  with assms show ?thesis
    by (auto simp: Notification_New_def invalid_type_error_def invalid_priority_error_def error_constructors)
qed

theorem Notification_New_error_field_witness:
  "\<exists>cause. invalid_priority_error ''urgent'' = ValidationError ''priority'' cause"
proof -
  have "Notification_New (\<lambda>_. None) ''id'' 0 TypeSMS ''urgent'' (NewSMSRecipient ''+14155551234'' []) [] None
      = Inl (invalid_priority_error ''urgent'')"
    by (simp add: Notification_New_def Type_IsValid_def Priority_IsValid_def)
  from Notification_New_error_field [OF this] show ?thesis
    by (simp add: Type_IsValid_def Priority_IsValid_def)
qed

text \<open>C31. The entity's invariant: every notification reached from its construction by
  marking it sent or failed any number of times is valid, with its status and the recorded
  outcome in agreement.\<close>

theorem lifecycle_valid:
  assumes "lifecycle parse n"
  shows "valid_notification parse n"
  using assms by (induction rule: lifecycle.induct) (auto simp: valid_notification_def Notification_New_Inr
      MarkSent_def MarkFailed_def)

theorem lifecycle_valid_witness:
  "valid_notification (\<lambda>_. None) (MarkSent 7 (sample_notification))"
proof (rule lifecycle_valid)
  have "Notification_New (\<lambda>_. None) ''notif_1'' 0 TypePush PriorityBulk
      (NewPushRecipient ''0123456789abcdef'' ''user_789'') ''alert'' None = Inr sample_notification"
    using sample_token
    by (simp add: Notification_New_Inr sample_notification_def Type_IsValid_def Priority_IsValid_def
        channel_ok_def NewPushRecipient_def)
  then show "lifecycle (\<lambda>_. None) (MarkSent 7 sample_notification)"
    by (intro lifecycle.intros)
qed

end
