(* ===== verification/Message_Json.thy ===== *)
theory Message_Json
  imports Notification Go_Json Go_Time
begin

text \<open>
  The JSON of the queue message: \<open>json.Marshal(msg)\<close> of
  internal/infrastructure/rabbitmq/publisher.go and \<open>json.Unmarshal(d.Body(), &msg)\<close> of
  internal/transport/queue/consumer.go, on the struct types of
  internal/domain/notification/message.go and recipient.go. The structs have no tags, so the
  names of the fields are the keys, written in the order of the declaration; reading matches a key
  exactly or else by case folding, ignores unknown keys, and keeps the value a field has
  where the text has null.
\<close>

definition codec_error :: go_error where
  "codec_error = External ''encoding/json''"

subsection \<open>Marshal\<close>

definition json_string :: "string \<Rightarrow> json" where
  "json_string s = JStr (appendString s)"

definition json_Recipient :: "Recipient \<Rightarrow> json" where
  "json_Recipient r =
    JObj [(''Email'', json_string (rc_Email r)), (''PhoneNumber'', json_string (rc_PhoneNumber r)),
          (''DeviceToken'', json_string (rc_DeviceToken r)), (''UserID'', json_string (rc_UserID r))]"

definition json_any_map :: "floats \<Rightarrow> any_map \<Rightarrow> json option" where
  "json_any_map fl m = (case m of None \<Rightarrow> Some JNull | Some kvs \<Rightarrow> encode_any fl (AMap kvs))"

definition json_string_map :: "string_map \<Rightarrow> json" where
  "json_string_map m =
    (case m of
       None \<Rightarrow> JNull
     | Some kvs \<Rightarrow> JObj (map (\<lambda>(k, v). (appendString k, json_string v)) (sort_entries kvs)))"

definition json_Message :: "floats \<Rightarrow> Message \<Rightarrow> json option" where
  "json_Message fl m =
    (case json_any_map fl (m_TemplateData m) of
       None \<Rightarrow> None
     | Some data \<Rightarrow>
        (case FormatTime (m_CreatedAt m) of
           None \<Rightarrow> None
         | Some time \<Rightarrow>
            Some (JObj
              [(''ID'', json_string (m_ID m)),
               (''Type'', json_string (m_Type m)),
               (''Priority'', json_string (m_Priority m)),
               (''Recipient'', json_Recipient (m_Recipient m)),
               (''TemplateID'', json_string (m_TemplateID m)),
               (''TemplateData'', data),
               (''Metadata'', json_string_map (m_Metadata m)),
               (''CreatedAt'', JStr time),
               (''RetryCount'', JNum (FormatInt (sint (m_RetryCount m))))])))"

definition Marshal_Message :: "floats \<Rightarrow> Message \<Rightarrow> string result" where
  "Marshal_Message fl m = (case json_Message fl m of None \<Rightarrow> Inl codec_error | Some j \<Rightarrow> Inr (print j))"

subsection \<open>Unmarshal\<close>

text \<open>The field a key stands for. Two runes outside ASCII fold to ASCII letters.\<close>

definition fold_rune :: "nat \<Rightarrow> nat" where
  "fold_rune r =
    (if 97 \<le> r \<and> r \<le> 122 then r - 32 else if r = 0x17F then 0x53 else if r = 0x212A then 0x4B else r)"

definition fold_name :: "string \<Rightarrow> nat list" where
  "fold_name s = map fold_rune (runes s)"

definition field_name :: "string list \<Rightarrow> string \<Rightarrow> string option" where
  "field_name names key =
    (if key \<in> set names then Some key else List.find (\<lambda>n. fold_name n = fold_name key) names)"

definition decode_string :: "string \<Rightarrow> json \<Rightarrow> string option" where
  "decode_string cur j = (case j of JNull \<Rightarrow> Some cur | JStr raw \<Rightarrow> Some (unquote raw) | _ \<Rightarrow> None)"

definition decode_int :: "go_int \<Rightarrow> json \<Rightarrow> go_int option" where
  "decode_int cur j = (case j of JNull \<Rightarrow> Some cur | JNum l \<Rightarrow> Atoi l | _ \<Rightarrow> None)"

definition decode_time :: "int \<Rightarrow> json \<Rightarrow> int option" where
  "decode_time cur j = (case j of JNull \<Rightarrow> Some cur | JStr raw \<Rightarrow> ParseTime raw | _ \<Rightarrow> None)"

text \<open>Decoding into a map adds to the entries it has.\<close>

definition map_entries :: "'a list option \<Rightarrow> 'a list" where
  "map_entries m = (case m of None \<Rightarrow> [] | Some kvs \<Rightarrow> kvs)"

definition decode_any_map :: "floats \<Rightarrow> any_map \<Rightarrow> json \<Rightarrow> any_map option" where
  "decode_any_map fl cur j =
    (case j of
       JNull \<Rightarrow> Some None
     | JObj kvs \<Rightarrow>
         map_option (\<lambda>es. Some (map_of_entries (map_entries cur @ es)))
           (those_list (map (\<lambda>(k, x). map_option (Pair (unquote k)) (decode_any fl x)) kvs))
     | _ \<Rightarrow> None)"

definition decode_string_map :: "string_map \<Rightarrow> json \<Rightarrow> string_map option" where
  "decode_string_map cur j =
    (case j of
       JNull \<Rightarrow> Some None
     | JObj kvs \<Rightarrow>
         map_option (\<lambda>es. Some (map_of_entries (map_entries cur @ es)))
           (those_list (map (\<lambda>(k, x). map_option (Pair (unquote k)) (decode_string [] x)) kvs))
     | _ \<Rightarrow> None)"

text \<open>The entries of an object are stored in the fields of a struct one after another.\<close>

fun decode_fields :: "string list \<Rightarrow> (string \<Rightarrow> json \<Rightarrow> 'r \<Rightarrow> 'r option) \<Rightarrow> (string \<times> json) list \<Rightarrow> 'r \<Rightarrow> 'r option" where
  "decode_fields names store [] r = Some r"
| "decode_fields names store ((k, j) # kvs) r =
    (case field_name names (unquote k) of
       None \<Rightarrow> decode_fields names store kvs r
     | Some n \<Rightarrow> (case store n j r of None \<Rightarrow> None | Some r' \<Rightarrow> decode_fields names store kvs r'))"

definition store_Recipient :: "string \<Rightarrow> json \<Rightarrow> Recipient \<Rightarrow> Recipient option" where
  "store_Recipient n j r =
    (if n = ''Email'' then map_option (\<lambda>v. r\<lparr>rc_Email := v\<rparr>) (decode_string (rc_Email r) j)
     else if n = ''PhoneNumber'' then map_option (\<lambda>v. r\<lparr>rc_PhoneNumber := v\<rparr>) (decode_string (rc_PhoneNumber r) j)
     else if n = ''DeviceToken'' then map_option (\<lambda>v. r\<lparr>rc_DeviceToken := v\<rparr>) (decode_string (rc_DeviceToken r) j)
     else map_option (\<lambda>v. r\<lparr>rc_UserID := v\<rparr>) (decode_string (rc_UserID r) j))"

definition decode_Recipient :: "Recipient \<Rightarrow> json \<Rightarrow> Recipient option" where
  "decode_Recipient cur j =
    (case j of
       JNull \<Rightarrow> Some cur
     | JObj kvs \<Rightarrow> decode_fields [''Email'', ''PhoneNumber'', ''DeviceToken'', ''UserID''] store_Recipient kvs cur
     | _ \<Rightarrow> None)"

definition store_Message :: "floats \<Rightarrow> string \<Rightarrow> json \<Rightarrow> Message \<Rightarrow> Message option" where
  "store_Message fl n j m =
    (if n = ''ID'' then map_option (\<lambda>v. m\<lparr>m_ID := v\<rparr>) (decode_string (m_ID m) j)
     else if n = ''Type'' then map_option (\<lambda>v. m\<lparr>m_Type := v\<rparr>) (decode_string (m_Type m) j)
     else if n = ''Priority'' then map_option (\<lambda>v. m\<lparr>m_Priority := v\<rparr>) (decode_string (m_Priority m) j)
     else if n = ''Recipient'' then map_option (\<lambda>v. m\<lparr>m_Recipient := v\<rparr>) (decode_Recipient (m_Recipient m) j)
     else if n = ''TemplateID'' then map_option (\<lambda>v. m\<lparr>m_TemplateID := v\<rparr>) (decode_string (m_TemplateID m) j)
     else if n = ''TemplateData'' then map_option (\<lambda>v. m\<lparr>m_TemplateData := v\<rparr>) (decode_any_map fl (m_TemplateData m) j)
     else if n = ''Metadata'' then map_option (\<lambda>v. m\<lparr>m_Metadata := v\<rparr>) (decode_string_map (m_Metadata m) j)
     else if n = ''CreatedAt'' then map_option (\<lambda>v. m\<lparr>m_CreatedAt := v\<rparr>) (decode_time (m_CreatedAt m) j)
     else map_option (\<lambda>v. m\<lparr>m_RetryCount := v\<rparr>) (decode_int (m_RetryCount m) j))"

definition message_fields :: "string list" where
  "message_fields =
    [''ID'', ''Type'', ''Priority'', ''Recipient'', ''TemplateID'', ''TemplateData'', ''Metadata'', ''CreatedAt'', ''RetryCount'']"

text \<open>\<open>var msg notification.Message\<close>: the zero time is the first of January of year 1.\<close>

definition zero_Message :: Message where
  "zero_Message =
    \<lparr>m_ID = [], m_Type = [], m_Priority = [],
     m_Recipient = \<lparr>rc_Email = [], rc_PhoneNumber = [], rc_DeviceToken = [], rc_UserID = []\<rparr>,
     m_TemplateID = [], m_TemplateData = None, m_Metadata = None,
     m_CreatedAt = - 62135596800000000000, m_RetryCount = 0\<rparr>"

definition Unmarshal_Message :: "floats \<Rightarrow> string \<Rightarrow> Message result" where
  "Unmarshal_Message fl body =
    (case parse body of
       None \<Rightarrow> Inl codec_error
     | Some JNull \<Rightarrow> Inr zero_Message
     | Some (JObj kvs) \<Rightarrow>
        (case decode_fields message_fields (store_Message fl) kvs zero_Message of
           None \<Rightarrow> Inl codec_error | Some m \<Rightarrow> Inr m)
     | Some _ \<Rightarrow> Inl codec_error)"


subsection \<open>A message is read back\<close>

lemma unquote_plain: "\<forall>c \<in> set s. byte c < 0x80 \<and> c \<noteq> backslash \<Longrightarrow> unquote s = s"
proof (induction s)
  case (Cons c s)
  then show ?case by (subst unquote.simps) (simp add: unquote_step_def)
qed simp

lemma string_literal_plain:
  "\<forall>c \<in> set s. 0x20 \<le> byte c \<and> c \<noteq> backslash \<and> c \<noteq> dquote \<Longrightarrow> string_literal s"
proof (induction s)
  case Nil
  show ?case by (simp add: string_literal_def)
next
  case (Cons c s)
  then have "\<not> byte c < 0x20" by auto
  with Cons show ?case by (simp add: string_literal_def)
qed

lemma set_trim_zeros: "set (trim_zeros ds) \<subseteq> set ds"
  unfolding trim_zeros_def by (metis set_dropWhileD set_rev subsetI)

definition time_char :: "char \<Rightarrow> bool" where
  "time_char c \<longleftrightarrow> decimal_digit c \<or> c \<in> set ''-:.TZ''"

lemma time_char_pad: "c \<in> set (pad k n) \<Longrightarrow> time_char c"
  using digits_pad [of k n] by (auto simp: time_char_def list_all_iff)

lemma FormatTime_chars:
  assumes "FormatTime t = Some s" "c \<in> set s"
  shows "time_char c"
proof -
  have "time_char c" if "c \<in> set (format_fraction ns)" for ns
    using that set_trim_zeros [of "pad 9 ns"] time_char_pad by (auto simp: format_fraction_def time_char_def split: if_splits)
  moreover have "time_char x" if "x \<in> set ''-:TZ''" for x using that by (auto simp: time_char_def)
  ultimately show ?thesis
    using assms time_char_pad by (auto simp: FormatTime_def Let_def split: if_splits prod.splits)
qed

lemma string_literal_time: "FormatTime t = Some s \<Longrightarrow> string_literal s"
  using FormatTime_chars by (intro string_literal_plain) (fastforce simp: time_char_def decimal_digit_def)

lemma digits_then_all: "list_all decimal_digit ds \<Longrightarrow> digits_then ds = []"
  by (induction ds) auto

lemma decimal_lead: "decimal n = c # cs \<Longrightarrow> c = CHR ''0'' \<Longrightarrow> cs = []"
proof (induction n arbitrary: cs rule: decimal.induct)
  case (1 n)
  show ?case
  proof (cases "n < 10")
    case True
    with 1 show ?thesis by (simp add: decimal.simps [of n])
  next
    case False
    obtain x xs where d: "decimal (n div 10) = x # xs"
      using digits_decimal [of "n div 10"] by (cases "decimal (n div 10)") auto
    with 1 False have "x = c" by (simp add: decimal.simps [of n])
    with 1 False d have "decimal (n div 10) = [CHR ''0'']" by simp
    then have "decimal_value [CHR ''0''] = int (n div 10)"
      using value_decimal [of "n div 10"] by simp
    then have "n div 10 = 0" by (simp add: decimal_value_def)
    with False show ?thesis by simp
  qed
qed

lemma isValidNumber_decimal: "isValidNumber (decimal n) \<and> isValidNumber (CHR ''-'' # decimal n)"
proof -
  obtain c cs where d: "decimal n = c # cs"
    using digits_decimal [of n] by (cases "decimal n") auto
  then have "decimal_digit c" "list_all decimal_digit cs" "c \<noteq> CHR ''-''"
    using digits_decimal [of n] decimal_no_sign [of n] by auto
  with decimal_lead [OF d] show ?thesis
    by (auto simp: isValidNumber_def d digits_then_all drop_fraction_def exponent_ok_def)
qed

lemma number_literal_FormatInt: "number_literal (FormatInt i)"
proof -
  have "list_all number_char (decimal n)" for n
    using digits_decimal [of n] by (auto simp: number_char_def list_all_iff)
  then show ?thesis
    using isValidNumber_decimal by (simp add: number_literal_def FormatInt_def number_char_def)
qed

definition repair_Recipient :: "Recipient \<Rightarrow> Recipient" where
  "repair_Recipient r =
    \<lparr>rc_Email = repair (rc_Email r), rc_PhoneNumber = repair (rc_PhoneNumber r),
     rc_DeviceToken = repair (rc_DeviceToken r), rc_UserID = repair (rc_UserID r)\<rparr>"

definition stored_any_map :: "any_map \<Rightarrow> any_map" where
  "stored_any_map m =
    map_option (\<lambda>kvs. map_of_entries (map (\<lambda>(k, v). (repair k, v)) (sort_entries (map (\<lambda>(k, v). (k, stored_any v)) kvs)))) m"

definition stored_string_map :: "string_map \<Rightarrow> string_map" where
  "stored_string_map m = map_option (\<lambda>kvs. map_of_entries (map (\<lambda>(k, v). (repair k, repair v)) (sort_entries kvs))) m"

text \<open>The message that is read: strings are repaired and maps are put in order.\<close>

definition stored_Message :: "Message \<Rightarrow> Message" where
  "stored_Message m =
    \<lparr>m_ID = repair (m_ID m), m_Type = repair (m_Type m), m_Priority = repair (m_Priority m),
     m_Recipient = repair_Recipient (m_Recipient m), m_TemplateID = repair (m_TemplateID m),
     m_TemplateData = stored_any_map (m_TemplateData m), m_Metadata = stored_string_map (m_Metadata m),
     m_CreatedAt = m_CreatedAt m, m_RetryCount = m_RetryCount m\<rparr>"

lemma decode_json_string [simp]: "decode_string cur (json_string s) = Some (repair s)"
  by (simp add: decode_string_def json_string_def unquote_appendString repair_def)

lemma field_name_same: "n \<in> set names \<Longrightarrow> field_name names n = Some n"
  by (simp add: field_name_def)

lemma decode_field:
  assumes "\<forall>c \<in> set n. byte c < 0x80 \<and> c \<noteq> backslash" "n \<in> set names"
  shows "decode_fields names store ((n, j) # kvs) r
    = (case store n j r of None \<Rightarrow> None | Some r' \<Rightarrow> decode_fields names store kvs r')"
  using assms by (simp add: unquote_plain field_name_same)

lemma decode_json_Recipient: "decode_Recipient cur (json_Recipient r) = Some (repair_Recipient r)"
  by (simp add: decode_Recipient_def json_Recipient_def decode_field store_Recipient_def repair_Recipient_def
      del: decode_fields.simps(2))

lemma decode_json_any_map:
  assumes "floats_ok fl" "json_any_map fl m = Some j"
  shows "decode_any_map fl None j = Some (stored_any_map m)"
proof (cases m)
  case None
  with assms show ?thesis by (simp add: json_any_map_def decode_any_map_def stored_any_map_def)
next
  case (Some kvs)
  with assms(2) have e: "encode_any fl (AMap kvs) = Some j" by (simp add: json_any_map_def)
  then obtain js where j: "j = JObj js" unfolding encode_any_entries by blast
  with decode_encode_any [OF assms(1) e] Some show ?thesis
    by (auto simp: decode_any_map_def stored_any_map_def map_entries_def)
qed

lemma decode_json_string_map: "decode_string_map None (json_string_map m) = Some (stored_string_map m)"
proof (cases m)
  case (Some kvs)
  let ?es = "sort_entries kvs"
  have "map (\<lambda>(k, x). map_option (Pair (unquote k)) (decode_string [] x)) (map (\<lambda>(k, v). (appendString k, json_string v)) ?es)
      = map Some (map (\<lambda>(k, v). (repair k, repair v)) ?es)"
    by (simp add: case_prod_unfold comp_def unquote_appendString repair_def [symmetric])
  then have "those_list (map (\<lambda>(k, x). map_option (Pair (unquote k)) (decode_string [] x))
      (map (\<lambda>(k, v). (appendString k, json_string v)) ?es)) = Some (map (\<lambda>(k, v). (repair k, repair v)) ?es)"
    unfolding those_list_Some .
  then show ?thesis
    by (simp only: Some json_string_map_def decode_string_map_def option.case json.case)
       (simp add: map_entries_def stored_string_map_def)
qed (simp add: json_string_map_def decode_string_map_def stored_string_map_def)

lemma wf_json_string [simp]: "wf_json d (json_string s)"
  by (simp add: json_string_def)

lemma string_literal_name: "list_all (\<lambda>c. 0x20 \<le> byte c \<and> c \<noteq> backslash \<and> c \<noteq> dquote) s \<Longrightarrow> string_literal s"
  by (rule string_literal_plain) (simp add: list_all_iff)

definition data_nests :: "nat \<Rightarrow> any_map \<Rightarrow> bool" where
  "data_nests d data \<longleftrightarrow> (case data of None \<Rightarrow> True | Some kvs \<Rightarrow> nests d (AMap kvs))"

lemma wf_json_Message:
  assumes "floats_ok fl" "data_nests (Suc d) (m_TemplateData m)" "json_Message fl m = Some j"
  shows "wf_json (Suc (Suc d)) j"
proof -
  from assms(3) obtain data time where data: "json_any_map fl (m_TemplateData m) = Some data"
    and time: "FormatTime (m_CreatedAt m) = Some time"
    and j: "j = JObj
              [(''ID'', json_string (m_ID m)),
               (''Type'', json_string (m_Type m)),
               (''Priority'', json_string (m_Priority m)),
               (''Recipient'', json_Recipient (m_Recipient m)),
               (''TemplateID'', json_string (m_TemplateID m)),
               (''TemplateData'', data),
               (''Metadata'', json_string_map (m_Metadata m)),
               (''CreatedAt'', JStr time),
               (''RetryCount'', JNum (FormatInt (sint (m_RetryCount m))))]"
    by (auto simp: json_Message_def split: option.splits)
  have "wf_json (Suc d) data"
  proof (cases "m_TemplateData m")
    case None
    with data show ?thesis by (simp add: json_any_map_def)
  next
    case (Some kvs)
    with data assms(2) have "encode_any fl (AMap kvs) = Some data" "nests (Suc d) (AMap kvs)"
      by (auto simp: json_any_map_def data_nests_def)
    then show ?thesis by (rule encode_any_wf [OF assms(1)])
  qed
  moreover have "wf_json (Suc d) (json_Recipient (m_Recipient m))"
    by (simp add: json_Recipient_def string_literal_name)
  moreover have "wf_json (Suc d) (json_string_map (m_Metadata m))"
    by (auto simp: json_string_map_def split: option.split)
  ultimately show ?thesis
    using string_literal_time [OF time] by (simp add: j string_literal_name number_literal_FormatInt)
qed

lemma decode_json_Message:
  assumes "floats_ok fl" "json_Message fl m = Some (JObj kvs)"
  shows "decode_fields message_fields (store_Message fl) kvs zero_Message = Some (stored_Message m)"
proof -
  from assms(2) obtain data time where data: "json_any_map fl (m_TemplateData m) = Some data"
    and time: "FormatTime (m_CreatedAt m) = Some time"
    and kvs: "kvs =
              [(''ID'', json_string (m_ID m)),
               (''Type'', json_string (m_Type m)),
               (''Priority'', json_string (m_Priority m)),
               (''Recipient'', json_Recipient (m_Recipient m)),
               (''TemplateID'', json_string (m_TemplateID m)),
               (''TemplateData'', data),
               (''Metadata'', json_string_map (m_Metadata m)),
               (''CreatedAt'', JStr time),
               (''RetryCount'', JNum (FormatInt (sint (m_RetryCount m))))]"
    by (auto simp: json_Message_def split: option.splits)
  show ?thesis
    by (simp add: kvs decode_field message_fields_def store_Message_def zero_Message_def decode_json_Recipient
        decode_json_any_map [OF assms(1) data] decode_json_string_map decode_time_def ParseTime_FormatTime [OF time]
        decode_int_def Atoi_FormatInt stored_Message_def del: decode_fields.simps(2))
qed

text \<open>Template data may nest as deep as the parser goes.\<close>

definition storable :: "Message \<Rightarrow> bool" where
  "storable m \<longleftrightarrow> data_nests (maxNestingDepth - 1) (m_TemplateData m)"

lemma Unmarshal_Marshal:
  assumes "floats_ok fl" "storable m" "Marshal_Message fl m = Inr body"
  shows "Unmarshal_Message fl body = Inr (stored_Message m)"
proof -
  from assms(3) obtain j where j: "json_Message fl m = Some j" and body: "body = print j"
    by (auto simp: Marshal_Message_def split: option.splits)
  from j obtain kvs where kvs: "j = JObj kvs" by (auto simp: json_Message_def split: option.splits)
  have "parse body = Some (JObj kvs)"
    using parse_print [of j] wf_json_Message [OF assms(1) _ j, of 9998] assms(2)
    by (simp add: body kvs maxNestingDepth_def storable_def)
  then show ?thesis
    using decode_json_Message [OF assms(1) j [unfolded kvs]] by (simp add: Unmarshal_Message_def)
qed


text \<open>Whatever the depth, what is read is the message that was written or nothing.\<close>

lemma Unmarshal_Marshal_some:
  assumes "floats_ok fl" "Marshal_Message fl m = Inr body" "Unmarshal_Message fl body = Inr m'"
  shows "m' = stored_Message m"
proof -
  from assms(2) obtain j where j: "json_Message fl m = Some j" and body: "body = print j"
    by (auto simp: Marshal_Message_def split: option.splits)
  from j obtain kvs where kvs: "j = JObj kvs" by (auto simp: json_Message_def split: option.splits)
  obtain d where "data_nests (Suc d) (m_TemplateData m)"
  proof (cases "m_TemplateData m")
    case (Some es)
    obtain d where "nests d (AMap es)" using nests_some by blast
    then have "nests (Suc d) (AMap es)" by (rule nests_mono) simp
    with Some show ?thesis by (intro that [of d]) (simp add: data_nests_def)
  qed (use that [of 0] in \<open>simp add: data_nests_def\<close>)
  from parse_print_any_depth [OF wf_json_Message [OF assms(1) this j]]
  have "parse body = None \<or> parse body = Some (JObj kvs)"
    by (cases "parse body") (auto simp: body kvs)
  then show ?thesis
    using assms(3) decode_json_Message [OF assms(1) j [unfolded kvs]] by (auto simp: Unmarshal_Message_def)
qed

subsection \<open>Messages that survive unchanged\<close>

definition clean_Recipient :: "Recipient \<Rightarrow> bool" where
  "clean_Recipient r \<longleftrightarrow>
    utf8_valid (rc_Email r) \<and> utf8_valid (rc_PhoneNumber r) \<and> utf8_valid (rc_DeviceToken r) \<and> utf8_valid (rc_UserID r)"

definition clean_data :: "any_map \<Rightarrow> bool" where
  "clean_data data \<longleftrightarrow> (case data of None \<Rightarrow> True | Some kvs \<Rightarrow> clean_any (AMap kvs))"

definition clean_metadata :: "string_map \<Rightarrow> bool" where
  "clean_metadata md \<longleftrightarrow>
    (case md of None \<Rightarrow> True
     | Some kvs \<Rightarrow> ordered_keys kvs \<and> (\<forall>(k, v) \<in> set kvs. utf8_valid k \<and> utf8_valid v))"

definition clean_Message :: "Message \<Rightarrow> bool" where
  "clean_Message m \<longleftrightarrow>
    utf8_valid (m_ID m) \<and> utf8_valid (m_Type m) \<and> utf8_valid (m_Priority m) \<and> clean_Recipient (m_Recipient m)
    \<and> utf8_valid (m_TemplateID m) \<and> clean_data (m_TemplateData m) \<and> clean_metadata (m_Metadata m)"

lemma stored_any_map_clean: "clean_data data \<Longrightarrow> stored_any_map data = data"
proof (cases data)
  case (Some kvs)
  moreover assume "clean_data data"
  ultimately have "stored_any (AMap kvs) = AMap kvs" by (intro stored_clean) (simp add: clean_data_def)
  with Some show ?thesis by (simp add: stored_any_map_def)
qed (simp add: stored_any_map_def)

lemma stored_string_map_clean:
  assumes "clean_metadata md"
  shows "stored_string_map md = md"
proof (cases md)
  case (Some kvs)
  have "map (\<lambda>(k, v). (repair k, repair v)) kvs = kvs"
    by (intro map_idI) (use assms Some in \<open>auto simp: clean_metadata_def\<close>)
  with assms Some show ?thesis
    by (simp add: stored_string_map_def clean_metadata_def sort_entries_ordered map_of_entries_ordered)
qed (simp add: stored_string_map_def)

lemma stored_Message_clean: "clean_Message m \<Longrightarrow> stored_Message m = m"
  by (simp add: stored_Message_def clean_Message_def clean_Recipient_def repair_Recipient_def stored_any_map_clean
      stored_string_map_clean)

lemma clean_IncrementRetry [simp]: "clean_Message (IncrementRetry m) = clean_Message m"
  "storable (IncrementRetry m) = storable m"
  by (simp_all add: clean_Message_def storable_def)

text \<open>What a message must be for \<open>Marshal\<close> to succeed: finite numbers and a time of the years 0 to
  9999.\<close>

definition finite_data :: "any_map \<Rightarrow> bool" where
  "finite_data data \<longleftrightarrow> (case data of None \<Rightarrow> True | Some kvs \<Rightarrow> finite_any (AMap kvs))"

lemma json_any_map_Some: "(\<exists>j. json_any_map fl data = Some j) \<longleftrightarrow> finite_data data"
  using encode_any_Some [of fl "AMap _"]
  by (auto simp: json_any_map_def finite_data_def simp del: encode_any.simps split: option.split)

lemma days_before_year_Suc: "days_before_year (Suc y) = days_before_year y + days_in_year y"
  by (simp add: days_before_year_def)

lemma days_before_year_mono: "y \<le> y' \<Longrightarrow> days_before_year y \<le> days_before_year y'"
  by (induction y' rule: dec_induct) (simp_all add: days_before_year_Suc)

lemma div_step:
  fixes y k :: nat
  assumes "0 < k"
  shows "(y + k) div k = (y + (k - 1)) div k + (if y mod k = 0 then 1 else 0)"
proof -
  define q r where "q = y div k" and "r = y mod k"
  have y: "y = r + k * q" "r < k" using assms by (simp_all add: q_def r_def)
  have "(y + k) div k = Suc q" using assms div_add_self2 [of k y] by (simp add: q_def)
  moreover have "(y + (k - 1)) div k = (if r = 0 then q else Suc q)"
  proof (cases r)
    case 0
    have "(k - 1 + k * q) div k = q + (k - 1) div k"
      by (rule div_mult_self2) (use assms in simp)
    also have "(k - 1) div k = 0" using assms by simp
    also have "k - 1 + k * q = y + (k - 1)" using 0 by (simp add: y(1))
    finally show ?thesis using 0 by simp
  next
    case (Suc r')
    have "y + (k - 1) = r' + k * Suc q" using assms by (simp add: y(1) Suc)
    moreover have "(r' + k * Suc q) div k = Suc q"
      using y(2) Suc by (simp only: div_mult_self2 [OF less_imp_neq [OF assms, symmetric]]) simp
    ultimately show ?thesis by (simp add: Suc)
  qed
  ultimately show ?thesis by (simp add: r_def)
qed

lemma days_before_year_closed:
  "days_before_year y + (y + 99) div 100 = 365 * y + (y + 3) div 4 + (y + 399) div 400"
proof (induction y)
  case (Suc y)
  have steps: "(Suc y + 99) div 100 = (y + 99) div 100 + (if y mod 100 = 0 then 1 else 0)"
    "(Suc y + 3) div 4 = (y + 3) div 4 + (if y mod 4 = 0 then 1 else 0)"
    "(Suc y + 399) div 400 = (y + 399) div 400 + (if y mod 400 = 0 then 1 else 0)"
    using div_step [of 100 y] div_step [of 4 y] div_step [of 400 y] by (simp_all add: add.commute)
  have "y mod 400 = 0 \<Longrightarrow> y mod 100 = 0" "y mod 100 = 0 \<Longrightarrow> y mod 4 = 0"
    by (auto simp: mod_eq_0_iff_dvd intro: dvd_trans)
  with Suc show ?case
    unfolding steps days_before_year_Suc days_in_year_def leap_year_def by auto
qed (simp add: days_before_year_def)

lemma days_before_year_10000: "days_before_year 10000 = 3652425"
  using days_before_year_closed [of 10000] by simp

lemma civil_year_bound:
  assumes "civil_year 0 d = (y, r)"
  shows "y \<le> 9999 \<longleftrightarrow> d < 3652425"
proof -
  have d: "r < days_in_year y" "days_before_year y + r = d"
    using civil_year_days [OF assms] by (auto simp: days_before_year_def)
  show ?thesis
  proof
    assume "y \<le> 9999"
    then have "days_before_year (Suc y) \<le> days_before_year 10000"
      by (intro days_before_year_mono) simp
    with d show "d < 3652425" by (simp add: days_before_year_Suc days_before_year_10000)
  next
    assume "d < 3652425"
    show "y \<le> 9999"
    proof (rule ccontr)
      assume "\<not> y \<le> 9999"
      then have "days_before_year 10000 \<le> days_before_year y"
        by (intro days_before_year_mono) simp
      with d \<open>d < 3652425\<close> show False by (simp add: days_before_year_10000)
    qed
  qed
qed

text \<open>The instants from the start of year 0 to the end of year 9999.\<close>

definition writable_time :: "int \<Rightarrow> bool" where
  "writable_time t \<longleftrightarrow> - 62167219200000000000 \<le> t \<and> t < 253402300800000000000"

lemma FormatTime_Some: "(\<exists>s. FormatTime t = Some s) \<longleftrightarrow> writable_time t"
proof -
  let ?days = "t div 1000000000 div 86400 + epoch_days"
  obtain y yd where y: "civil_year 0 (nat ?days) = (y, yd)" by fastforce
  have "(\<exists>s. FormatTime t = Some s) \<longleftrightarrow> 0 \<le> ?days \<and> y \<le> 9999"
    by (auto simp: FormatTime_def Let_def y split: prod.split)
  also have "\<dots> \<longleftrightarrow> 0 \<le> ?days \<and> ?days < 3652425"
    using civil_year_bound [OF y] by (auto simp: nat_less_iff)
  also have "\<dots> \<longleftrightarrow> writable_time t"
  proof -
    define q r where "q = t div 86400000000000" and "r = t mod 86400000000000"
    have "t = q * 86400000000000 + r" "0 \<le> r" "r < 86400000000000"
      by (simp_all add: q_def r_def)
    moreover have "t div 1000000000 div 86400 = q"
      by (simp add: q_def zdiv_zmult2_eq [symmetric])
    ultimately show ?thesis
      unfolding epoch_days_def writable_time_def by auto
  qed
  finally show ?thesis .
qed

lemma Marshal_Some: "(\<exists>body. Marshal_Message fl m = Inr body) \<longleftrightarrow> finite_data (m_TemplateData m) \<and> writable_time (m_CreatedAt m)"
proof -
  have "(\<exists>body. Marshal_Message fl m = Inr body)
      \<longleftrightarrow> (\<exists>j. json_any_map fl (m_TemplateData m) = Some j) \<and> (\<exists>s. FormatTime (m_CreatedAt m) = Some s)"
    by (auto simp: Marshal_Message_def json_Message_def split: option.splits)
  then show ?thesis by (simp only: json_any_map_Some FormatTime_Some)
qed

subsection \<open>What is read is well formed\<close>

lemma decode_fields_invariant:
  assumes "decode_fields names store kvs r = Some r'" "P r"
    and "\<And>n j r r'. store n j r = Some r' \<Longrightarrow> P r \<Longrightarrow> P r'"
  shows "P r'"
  using assms(1,2)
proof (induction kvs arbitrary: r)
  case (Cons kv kvs)
  obtain k j where kv: "kv = (k, j)" by fastforce
  show ?case
  proof (cases "field_name names (unquote k)")
    case None
    with Cons show ?thesis by (simp add: kv)
  next
    case (Some n)
    with Cons.prems(1) obtain r1 where "store n j r = Some r1" "decode_fields names store kvs r1 = Some r'"
      by (auto simp: kv split: option.splits)
    with Cons.IH [of r1] assms(3) Cons.prems(2) show ?thesis by blast
  qed
qed simp

lemma decode_string_valid: "decode_string cur j = Some s \<Longrightarrow> utf8_valid cur \<Longrightarrow> utf8_valid s"
  by (auto simp: decode_string_def utf8_valid_unquote split: json.splits)

lemma utf8_valid_Nil [simp]: "utf8_valid []"
  by (simp add: utf8_valid_ascii)

lemma store_Recipient_clean: "store_Recipient n j r = Some r' \<Longrightarrow> clean_Recipient r \<Longrightarrow> clean_Recipient r'"
  by (auto simp: store_Recipient_def clean_Recipient_def dest: decode_string_valid split: if_splits)

lemma decode_Recipient_clean: "decode_Recipient cur j = Some r \<Longrightarrow> clean_Recipient cur \<Longrightarrow> clean_Recipient r"
  using decode_fields_invariant [of _ store_Recipient _ cur r clean_Recipient] store_Recipient_clean
  by (auto simp: decode_Recipient_def split: json.splits)

lemma decode_any_map_clean:
  assumes "floats_ok fl" "decode_any_map fl cur j = Some data" "clean_data cur" "finite_data cur"
  shows "clean_data data \<and> finite_data data"
proof (cases j)
  case (JObj kvs)
  with assms(2) obtain es where data: "data = Some (map_of_entries (map_entries cur @ es))"
    and es: "map (\<lambda>(k, x). map_option (Pair (unquote k)) (decode_any fl x)) kvs = map Some es"
    by (auto simp: decode_any_map_def those_list_Some)
  have "utf8_valid k \<and> clean_any v \<and> finite_any v" if e: "(k, v) \<in> set es" for k v
  proof -
    obtain k0 x where "decode_any fl x = Some v" "k = unquote k0"
      using map_eq_map_Some [OF es e] by auto
    then show ?thesis using decode_any_clean [OF assms(1)] utf8_valid_unquote by auto
  qed
  moreover have "utf8_valid k \<and> clean_any v \<and> finite_any v" if "(k, v) \<in> set (map_entries cur)" for k v
    using that assms(3,4) by (cases cur) (auto simp: map_entries_def clean_data_def finite_data_def)
  ultimately have "utf8_valid k \<and> clean_any v \<and> finite_any v" if "(k, v) \<in> set (map_of_entries (map_entries cur @ es))" for k v
    using that map_of_entries_set [of "map_entries cur @ es"] by auto
  then show ?thesis
    by (auto simp: data clean_data_def finite_data_def map_of_entries_keys)
qed (use assms in \<open>auto simp: decode_any_map_def clean_data_def finite_data_def\<close>)

lemma decode_string_map_clean:
  assumes "decode_string_map cur j = Some md" "clean_metadata cur"
  shows "clean_metadata md"
proof (cases j)
  case (JObj kvs)
  with assms(1) obtain es where md: "md = Some (map_of_entries (map_entries cur @ es))"
    and es: "map (\<lambda>(k, x). map_option (Pair (unquote k)) (decode_string [] x)) kvs = map Some es"
    by (auto simp: decode_string_map_def those_list_Some)
  have "utf8_valid k \<and> utf8_valid v" if e: "(k, v) \<in> set es" for k v
  proof -
    obtain k0 x where "decode_string [] x = Some v" "k = unquote k0"
      using map_eq_map_Some [OF es e] by auto
    then show ?thesis using decode_string_valid [of "[]" x v] utf8_valid_unquote by auto
  qed
  moreover have "utf8_valid k \<and> utf8_valid v" if "(k, v) \<in> set (map_entries cur)" for k v
    using that assms(2) by (cases cur) (auto simp: map_entries_def clean_metadata_def)
  ultimately have "utf8_valid k \<and> utf8_valid v" if "(k, v) \<in> set (map_of_entries (map_entries cur @ es))" for k v
    using that map_of_entries_set [of "map_entries cur @ es"] by auto
  then show ?thesis
    by (auto simp: md clean_metadata_def map_of_entries_keys)
qed (use assms in \<open>auto simp: decode_string_map_def clean_metadata_def\<close>)

definition well_formed :: "Message \<Rightarrow> bool" where
  "well_formed m \<longleftrightarrow> clean_Message m \<and> finite_data (m_TemplateData m)"

lemma store_Message_well_formed:
  assumes "floats_ok fl" "store_Message fl n j m = Some m'" "well_formed m"
  shows "well_formed m'"
  using assms(2,3) decode_any_map_clean [OF assms(1), of "m_TemplateData m" j] decode_string_map_clean [of "m_Metadata m" j]
    decode_Recipient_clean [of "m_Recipient m" j] decode_string_valid [of _ j]
  by (auto simp: store_Message_def well_formed_def clean_Message_def split: if_splits)

lemma Unmarshal_well_formed:
  assumes "floats_ok fl" "Unmarshal_Message fl body = Inr m"
  shows "well_formed m"
proof -
  have zero: "well_formed zero_Message"
    by (simp add: well_formed_def zero_Message_def clean_Message_def clean_Recipient_def clean_data_def clean_metadata_def
        finite_data_def)
  from assms(2) have "m = zero_Message \<or> (\<exists>kvs. decode_fields message_fields (store_Message fl) kvs zero_Message = Some m)"
    by (auto simp: Unmarshal_Message_def split: option.splits json.splits)
  then show ?thesis
  proof
    assume "\<exists>kvs. decode_fields message_fields (store_Message fl) kvs zero_Message = Some m"
    then obtain kvs where "decode_fields message_fields (store_Message fl) kvs zero_Message = Some m" by blast
    then show ?thesis
      by (rule decode_fields_invariant [where P = well_formed]) (use zero store_Message_well_formed [OF assms(1)] in blast)+
  qed (simp add: zero)
qed


text \<open>Numbers for the examples: the bits of a \<open>float64\<close> as a decimal number.\<close>

definition sample_floats :: floats where
  "sample_floats =
    \<lparr>fl_Format = (\<lambda>w. FormatInt (sint w)),
     fl_Parse = (\<lambda>l. case Atoi l of Some w \<Rightarrow> if finite_float w then Some w else None | None \<Rightarrow> None)\<rparr>"

lemma sample_floats_ok: "floats_ok sample_floats"
  by (auto simp: floats_ok_def sample_floats_def number_literal_FormatInt Atoi_FormatInt split: option.splits if_splits)

text \<open>A message with template data and metadata; its user ID has a quote and a byte that is not UTF-8.\<close>

definition sample_json_message :: Message where
  "sample_json_message =
    \<lparr>m_ID = ''n1'', m_Type = TypeEmail, m_Priority = PriorityBulk,
     m_Recipient = NewEmailRecipient ''a@b.io'' [dquote, CHR 0xFF], m_TemplateID = ''default'',
     m_TemplateData = Some [(''code'', AFloat64 7), (''tags'', ASlice [AString ''<b>'', ANil])],
     m_Metadata = Some [(''src'', ''test'')], m_CreatedAt = 0, m_RetryCount = 2\<rparr>"

lemma sample_json_message_ok: "storable sample_json_message" "finite_data (m_TemplateData sample_json_message)"
  "writable_time (m_CreatedAt sample_json_message)"
  by (simp_all add: sample_json_message_def storable_def data_nests_def finite_data_def finite_float_def
      writable_time_def maxNestingDepth_def)

subsection \<open>Properties\<close>

text \<open>C6. A message that the publisher encodes is decoded by the consumer as it was, with invalid
  UTF-8 repaired and the maps in order; a message whose strings are valid UTF-8 comes back
  exactly, whatever characters they contain.\<close>

theorem Message_roundtrip:
  assumes "floats_ok fl" "storable m" "Marshal_Message fl m = Inr body"
  shows "Unmarshal_Message fl body = Inr (stored_Message m) \<and> (clean_Message m \<longrightarrow> stored_Message m = m)"
  using Unmarshal_Marshal [OF assms] stored_Message_clean by blast

theorem Message_roundtrip_witness:
  "\<exists>body m. Marshal_Message sample_floats sample_json_message = Inr body \<and> Unmarshal_Message sample_floats body = Inr m
    \<and> m_TemplateData m = m_TemplateData sample_json_message \<and> m_RetryCount m = 2"
proof -
  obtain body where body: "Marshal_Message sample_floats sample_json_message = Inr body"
    using Marshal_Some [of sample_floats sample_json_message] sample_json_message_ok by blast
  have "clean_data (m_TemplateData sample_json_message)"
    by (simp add: sample_json_message_def clean_data_def ordered_keys_def utf8_valid_ascii)
  then have "stored_any_map (m_TemplateData sample_json_message) = m_TemplateData sample_json_message"
    by (rule stored_any_map_clean)
  with Message_roundtrip [OF sample_floats_ok sample_json_message_ok(1) body] body show ?thesis
    by (auto simp: stored_Message_def sample_json_message_def)
qed

text \<open>A message cannot be encoded exactly when its template data has a number that is not
  finite or it was created outside the years 0 to 9999.\<close>

theorem Marshal_Message_error:
  "Marshal_Message fl m = Inl e \<longleftrightarrow>
    e = codec_error \<and> \<not> (finite_data (m_TemplateData m) \<and> writable_time (m_CreatedAt m))"
proof (cases "Marshal_Message fl m")
  case (Inl e')
  then have "e' = codec_error" by (auto simp: Marshal_Message_def split: option.splits)
  with Inl Marshal_Some [of fl m] show ?thesis by auto
next
  case (Inr body)
  with Marshal_Some [of fl m] show ?thesis by auto
qed




end
