(* ===== verification/Template.thy ===== *)
theory Template
  imports Notification
begin

text \<open>
  internal/domain/template/template.go: a template and its rendering. The
  template engines \<open>text/template\<close> and \<open>html/template\<close> are the parameter
  \<open>engines\<close>: \<open>New(name).Parse(text)\<close> and \<open>Execute(&buf, data)\<close>, the second
  giving what it wrote to the buffer. A failed \<open>Execute\<close> may have written a
  part of the text; the code drops the buffer then, and so does the model.
\<close>

record Template =
  t_ID :: string
  t_Type :: Type
  t_Name :: string
  t_Subject :: string
  t_Body :: string
  t_IsDefault :: bool

record ('x, 'h) engines =
  text_Parse :: "string \<Rightarrow> string \<Rightarrow> 'x result"
  text_Execute :: "'x \<Rightarrow> any_map \<Rightarrow> string result"
  html_Parse :: "string \<Rightarrow> string \<Rightarrow> 'h result"
  html_Execute :: "'h \<Rightarrow> any_map \<Rightarrow> string result"

definition Template_New :: "string \<Rightarrow> Type \<Rightarrow> string \<Rightarrow> string \<Rightarrow> string \<Rightarrow> bool \<Rightarrow> Template" where
  "Template_New id' notificationType name subject body isDefault =
    \<lparr>t_ID = id', t_Type = notificationType, t_Name = name, t_Subject = subject, t_Body = body,
     t_IsDefault = isDefault\<rparr>"

definition renderSubject :: "('x, 'h) engines \<Rightarrow> Template \<Rightarrow> any_map \<Rightarrow> string result" where
  "renderSubject eng t data =
    (if t_Subject t = [] then Inr []
     else (case text_Parse eng ''subject'' (t_Subject t) of
         Inl err \<Rightarrow> Inl (NewRenderError ''subject'' err)
       | Inr tmpl \<Rightarrow>
          (case text_Execute eng tmpl data of
             Inl err \<Rightarrow> Inl (NewRenderError ''subject'' err)
           | Inr buf \<Rightarrow> Inr buf)))"

definition renderBody :: "('x, 'h) engines \<Rightarrow> Template \<Rightarrow> any_map \<Rightarrow> string result" where
  "renderBody eng t data =
    (if t_Body t = [] then Inr []
     else if t_Type t = TypeEmail then
       (case html_Parse eng ''body'' (t_Body t) of
          Inl err \<Rightarrow> Inl (NewRenderError ''body'' err)
        | Inr tmpl \<Rightarrow>
           (case html_Execute eng tmpl data of
              Inl err \<Rightarrow> Inl (NewRenderError ''body'' err)
            | Inr buf \<Rightarrow> Inr buf))
     else
       (case text_Parse eng ''body'' (t_Body t) of
          Inl err \<Rightarrow> Inl (NewRenderError ''body'' err)
        | Inr tmpl \<Rightarrow>
           (case text_Execute eng tmpl data of
              Inl err \<Rightarrow> Inl (NewRenderError ''body'' err)
            | Inr buf \<Rightarrow> Inr buf)))"

definition Template_Render :: "('x, 'h) engines \<Rightarrow> Template \<Rightarrow> any_map \<Rightarrow> RenderedContent result" where
  "Template_Render eng t data =
    (case renderSubject eng t data of
       Inl err \<Rightarrow> Inl err
     | Inr subject \<Rightarrow>
        (case renderBody eng t data of
           Inl err \<Rightarrow> Inl err
         | Inr body \<Rightarrow> Inr \<lparr>rd_Subject = subject, rd_Body = body, rd_Data = None\<rparr>))"

lemma renderSubject_Inl: "renderSubject eng t data = Inl e \<Longrightarrow> \<exists>c. e = RenderError ''subject'' c"
  by (auto simp: renderSubject_def error_constructors split: if_splits sum.splits)

lemma renderBody_Inl: "renderBody eng t data = Inl e \<Longrightarrow> \<exists>c. e = RenderError ''body'' c"
  by (auto simp: renderBody_def error_constructors split: if_splits sum.splits)

lemma Template_Render_Inr:
  "Template_Render eng t data = Inr c \<longleftrightarrow>
     renderSubject eng t data = Inr (rd_Subject c) \<and> renderBody eng t data = Inr (rd_Body c) \<and> rd_Data c = None"
  by (cases c) (auto simp: Template_Render_def split: sum.splits)

lemma Template_Render_Inl:
  "Template_Render eng t data = Inl e \<Longrightarrow> \<exists>f c. e = RenderError f c \<and> f \<in> {''subject'', ''body''}"
  by (auto simp: Template_Render_def split: sum.splits dest: renderSubject_Inl renderBody_Inl)

subsection \<open>The repository interface\<close>

text \<open>repository.go: the interface as a record of its methods (the contexts they take are
  not used by the implementation), and its contract over a state \<open>r\<close> of the
  implementation: what \<open>Get\<close> and \<open>GetDefault\<close> answer and with which error,
  that the default template has an ID of its own under which \<open>Get\<close> finds it, and that
  \<open>List\<close> has exactly the templates \<open>Get\<close> finds.\<close>

record Repository =
  repo_Get :: "Type \<Rightarrow> string \<Rightarrow> Template result"
  repo_GetDefault :: "Type \<Rightarrow> Template result"
  repo_List :: "Template list result"

locale template_repository =
  fixes repository :: "'r \<Rightarrow> Repository" and invar :: "'r \<Rightarrow> bool"
  assumes Get_Inr: "invar r \<Longrightarrow> repo_Get (repository r) t id' = Inr tm \<Longrightarrow>
      t_Type tm = t \<and> t_ID tm = id' \<and> id' \<noteq> []"
    and Get_Inl: "repo_Get (repository r) t id' = Inl e \<Longrightarrow>
      errors_Is e ErrTemplateNotFound \<and> errors_As is_ValidationError e = None"
    and GetDefault_Inr: "invar r \<Longrightarrow> repo_GetDefault (repository r) t = Inr tm \<Longrightarrow>
      t_IsDefault tm \<and> repo_Get (repository r) t (t_ID tm) = Inr tm"
    and GetDefault_Inl: "repo_GetDefault (repository r) t = Inl e \<Longrightarrow>
      errors_Is e ErrNoDefaultTemplate \<and> errors_As is_ValidationError e = None"
    and List_Inr: "invar r \<Longrightarrow> \<exists>ts. repo_List (repository r) = Inr ts \<and> distinct ts
      \<and> (\<forall>tm. tm \<in> set ts \<longleftrightarrow> repo_Get (repository r) (t_Type tm) (t_ID tm) = Inr tm)"

text \<open>The engine of the two that a channel's bodies go through, as one function.\<close>

definition text_engine :: "('x, 'h) engines \<Rightarrow> string \<Rightarrow> string \<Rightarrow> any_map \<Rightarrow> string result" where
  "text_engine eng name src data =
    (case text_Parse eng name src of Inl e \<Rightarrow> Inl e | Inr x \<Rightarrow> text_Execute eng x data)"

definition html_engine :: "('x, 'h) engines \<Rightarrow> string \<Rightarrow> string \<Rightarrow> any_map \<Rightarrow> string result" where
  "html_engine eng name src data =
    (case html_Parse eng name src of Inl e \<Rightarrow> Inl e | Inr x \<Rightarrow> html_Execute eng x data)"

text \<open>Engines for the examples: the text stands for itself.\<close>

definition verbatim_engines :: "(string, string) engines" where
  "verbatim_engines =
    \<lparr>text_Parse = (\<lambda>_ s. Inr s), text_Execute = (\<lambda>s _. Inr s),
     html_Parse = (\<lambda>_ s. Inr s), html_Execute = (\<lambda>s _. Inr s)\<rparr>"

subsection \<open>Properties\<close>

text \<open>Rendering: an email's body goes through the escaping HTML engine and every other
  body and every subject through the text engine, empty templates render to nothing
  without the engine, and the payload \<open>Data\<close> of the content is never set.\<close>

theorem Template_Render_spec:
  "Template_Render eng t data = Inr c \<longleftrightarrow>
     (if t_Subject t = [] then rd_Subject c = []
      else text_engine eng ''subject'' (t_Subject t) data = Inr (rd_Subject c))
     \<and> (if t_Body t = [] then rd_Body c = []
        else if t_Type t = TypeEmail then html_engine eng ''body'' (t_Body t) data = Inr (rd_Body c)
        else text_engine eng ''body'' (t_Body t) data = Inr (rd_Body c))
     \<and> rd_Data c = None"
  by (auto simp: Template_Render_Inr renderSubject_def renderBody_def text_engine_def html_engine_def
      split: sum.splits)

text \<open>A failed rendering is a \<open>RenderError\<close> that names the part that failed, and
  the subject is named when both would fail.\<close>

theorem Template_Render_error:
  assumes "Template_Render eng t data = Inl e"
  shows "(\<exists>c. e = RenderError ''subject'' c \<and> t_Subject t \<noteq> [])
    \<or> ((\<exists>s. renderSubject eng t data = Inr s) \<and> (\<exists>c. e = RenderError ''body'' c) \<and> t_Body t \<noteq> [])"
proof (cases "renderSubject eng t data")
  case (Inl err)
  then have "t_Subject t \<noteq> []" "e = err"
    using assms by (auto simp: renderSubject_def Template_Render_def)
  with Inl show ?thesis by (auto dest: renderSubject_Inl)
next
  case (Inr s)
  with assms have body: "renderBody eng t data = Inl e"
    by (auto simp: Template_Render_def split: sum.splits)
  then have "t_Body t \<noteq> []" by (auto simp: renderBody_def)
  with Inr body show ?thesis by (auto dest: renderBody_Inl)
qed

theorem Template_Render_error_witness:
  "\<exists>e. Template_Render (verbatim_engines\<lparr>html_Parse := \<lambda>_ _. Inl (External ''unclosed action'')\<rparr>)
        (Template_New ''welcome'' TypeEmail ''Welcome'' '''' ''{{'' False) None = Inl e
     \<and> (\<exists>c. e = RenderError ''body'' c)"
proof -
  have "Template_Render (verbatim_engines\<lparr>html_Parse := \<lambda>_ _. Inl (External ''unclosed action'')\<rparr>)
      (Template_New ''welcome'' TypeEmail ''Welcome'' '''' ''{{'' False) None
      = Inl (RenderError ''body'' (External ''unclosed action''))" (is "?r = Inl ?e")
    by (simp add: Template_Render_def renderSubject_def renderBody_def Template_New_def error_constructors
        verbatim_engines_def)
  from this Template_Render_error [OF this] show ?thesis by auto
qed

end
