(* ===== verification/File_Repository.thy ===== *)
theory File_Repository
  imports Template "HOL-Library.AList" "HOL-Library.Multiset" "HOL-Library.Product_Lexorder"
begin

text \<open>
  internal/infrastructure/template/file_repository.go: templates loaded from a
  directory tree, front matter, lookup and listing. The operating system is the
  parameter \<open>filesystem\<close> (\<open>os.ReadDir\<close>, \<open>os.ReadFile\<close>) and
  \<open>gopkg.in/yaml.v3\<close> the parameter \<open>yaml\<close>. The functions of
  \<open>path/filepath\<close> and \<open>sort.Slice\<close> are modelled. A Go map is an association
  list without duplicate keys; ranging over it visits the entries in an order
  the language leaves open, which \<open>map_order\<close> draws from a seed.
\<close>

subsection \<open>Package path/filepath\<close>

definition clean_step :: "bool \<Rightarrow> string \<Rightarrow> string list \<Rightarrow> string list" where
  "clean_step rooted c out =
    (if c = [] \<or> c = ''.'' then out
     else if c = ''..'' then
       (if out \<noteq> [] \<and> hd out \<noteq> ''..'' then tl out
        else if rooted then out else c # out)
     else c # out)"

fun join_slash :: "string list \<Rightarrow> string" where
  "join_slash [] = []"
| "join_slash [c] = c"
| "join_slash (c # cs) = c @ CHR ''/'' # join_slash cs"

definition Clean :: "string \<Rightarrow> string" where
  "Clean path =
    (let rooted = HasPrefix path ''/'';
         out = rev (fold (clean_step rooted) (Split path (CHR ''/'')) []);
         res = (if rooted then ''/'' else []) @ join_slash out
     in if res = [] then ''.'' else res)"

definition Join :: "string \<Rightarrow> string \<Rightarrow> string" where
  "Join a b =
    (if a \<noteq> [] then Clean (a @ ''/'' @ b) else if b \<noteq> [] then Clean b else [])"

definition Base :: "string \<Rightarrow> string" where
  "Base path =
    (if path = [] then ''.''
     else
       (let p = rev (dropWhile (\<lambda>c. c = CHR ''/'') (rev path))
        in if p = [] then ''/'' else last (Split p (CHR ''/''))))"

definition Ext :: "string \<Rightarrow> string" where
  "Ext path =
    (let e = last (Split path (CHR ''/''))
     in if CHR ''.'' \<in> set e then CHR ''.'' # last (Split e (CHR ''.'')) else [])"

subsection \<open>Front matter\<close>

abbreviation defaultTemplateID :: string where "defaultTemplateID \<equiv> ''default''"
abbreviation frontMatterDelim :: string where "frontMatterDelim \<equiv> ''---''"

abbreviation newline :: char where "newline \<equiv> CHR 0x0A"

record frontMatter =
  fm_Name :: string
  fm_Subject :: string

definition splitFrontMatter ::
  "(string \<Rightarrow> frontMatter result) \<Rightarrow> string \<Rightarrow> (frontMatter \<times> string) result" where
  "splitFrontMatter yaml content =
    (if \<not> HasPrefix content (frontMatterDelim @ [newline])
     then Inr (\<lparr>fm_Name = [], fm_Subject = []\<rparr>, content)
     else
       (let rest = drop (length frontMatterDelim + 1) content in
        case Index rest (newline # frontMatterDelim) of
          None \<Rightarrow> Inl (ErrorfNew [Lit ''missing closing '', Quoted frontMatterDelim, Lit '' delimiter''])
        | Some end' \<Rightarrow>
           (case yaml (take end' rest) of
              Inl err \<Rightarrow> Inl err
            | Inr meta \<Rightarrow>
                Inr (meta, TrimPrefix (drop (end' + 1 + length frontMatterDelim) rest) [newline]))))"

subsection \<open>Loading\<close>

record DirEntry =
  de_Name :: string
  de_IsDir :: bool

record filesystem =
  ReadDir :: "string \<Rightarrow> DirEntry list result"
  ReadFile :: "string \<Rightarrow> string result"

record FileRepository =
  fr_templates :: "(Type \<times> (string \<times> Template) list) list"

definition loadTemplateFile ::
  "filesystem \<Rightarrow> (string \<Rightarrow> frontMatter result) \<Rightarrow> Type \<Rightarrow> string \<Rightarrow> Template result" where
  "loadTemplateFile fs yaml notifType path =
    (case ReadFile fs path of
       Inl err \<Rightarrow> Inl (Errorf [Lit ''failed to read template file '', Lit path, Lit '': '', Cause] err)
     | Inr raw \<Rightarrow>
        (case splitFrontMatter yaml raw of
           Inl err \<Rightarrow> Inl (Errorf [Lit ''invalid front matter in '', Lit path, Lit '': '', Cause] err)
         | Inr (meta, body) \<Rightarrow>
            (let id' = TrimSuffix (Base path) (Ext path);
                 name = (if fm_Name meta = [] then id' else fm_Name meta)
             in Inr (Template_New id' notifType name (fm_Subject meta) body (id' = defaultTemplateID)))))"

text \<open>\<open>r.templates[t][id]\<close>: an absent inner map reads as empty.\<close>

definition type_map :: "FileRepository \<Rightarrow> Type \<Rightarrow> (string \<times> Template) list" where
  "type_map r t = (case map_of (fr_templates r) t of None \<Rightarrow> [] | Some m \<Rightarrow> m)"

definition set_type_map :: "Type \<Rightarrow> (string \<times> Template) list \<Rightarrow> FileRepository \<Rightarrow> FileRepository" where
  "set_type_map t m r = r\<lparr>fr_templates := AList.update t m (fr_templates r)\<rparr>"

definition loadFile_step ::
  "filesystem \<Rightarrow> (string \<Rightarrow> frontMatter result) \<Rightarrow> Type \<Rightarrow> string \<Rightarrow> DirEntry \<Rightarrow> FileRepository
    \<Rightarrow> FileRepository result" where
  "loadFile_step fs yaml notifType dir file r =
    (if de_IsDir file \<or> HasPrefix (de_Name file) ''.'' then Inr r
     else (case loadTemplateFile fs yaml notifType (Join dir (de_Name file)) of
         Inl err \<Rightarrow> Inl err
       | Inr tmpl \<Rightarrow> Inr (set_type_map notifType (AList.update (t_ID tmpl) tmpl (type_map r notifType)) r)))"

definition loadTypeDir ::
  "filesystem \<Rightarrow> (string \<Rightarrow> frontMatter result) \<Rightarrow> Type \<Rightarrow> string \<Rightarrow> FileRepository
    \<Rightarrow> FileRepository result" where
  "loadTypeDir fs yaml notifType dir r =
    (case ReadDir fs dir of
       Inl err \<Rightarrow> Inl (Errorf [Lit ''failed to read template directory '', Lit dir, Lit '': '', Cause] err)
     | Inr files \<Rightarrow>
         foldE (loadFile_step fs yaml notifType dir) files (set_type_map notifType [] r))"

definition loadDir_step ::
  "filesystem \<Rightarrow> (string \<Rightarrow> frontMatter result) \<Rightarrow> string \<Rightarrow> DirEntry \<Rightarrow> FileRepository
    \<Rightarrow> FileRepository result" where
  "loadDir_step fs yaml rootDir entry r =
    (if \<not> de_IsDir entry \<or> HasPrefix (de_Name entry) ''.'' then Inr r
     else if \<not> Type_IsValid (de_Name entry) then
       Inl (ErrorfNew [Lit ''unknown notification type directory '', Quoted (de_Name entry),
                       Lit '' in '', Lit rootDir])
     else loadTypeDir fs yaml (de_Name entry) (Join rootDir (de_Name entry)) r)"

definition NewFileRepository ::
  "filesystem \<Rightarrow> (string \<Rightarrow> frontMatter result) \<Rightarrow> string \<Rightarrow> FileRepository result" where
  "NewFileRepository fs yaml rootDir =
    (case ReadDir fs rootDir of
       Inl err \<Rightarrow> Inl (Errorf [Lit ''failed to read templates directory: '', Cause] err)
     | Inr entries \<Rightarrow> foldE (loadDir_step fs yaml rootDir) entries \<lparr>fr_templates = []\<rparr>)"

subsection \<open>Lookup and listing\<close>

definition FileRepository_Get :: "FileRepository \<Rightarrow> Type \<Rightarrow> string \<Rightarrow> Template result" where
  "FileRepository_Get r notificationType id' =
    (case map_of (type_map r notificationType) id' of
       None \<Rightarrow> Inl (Errorf [Cause, Lit '': '', Lit notificationType, Lit ''/'', Lit id']
                     (Sentinel ErrTemplateNotFound))
     | Some tmpl \<Rightarrow> Inr tmpl)"

definition FileRepository_GetDefault :: "FileRepository \<Rightarrow> Type \<Rightarrow> Template result" where
  "FileRepository_GetDefault r notificationType =
    (case map_of (type_map r notificationType) defaultTemplateID of
       None \<Rightarrow> Inl (Errorf [Cause, Lit '': '', Lit notificationType] (Sentinel ErrNoDefaultTemplate))
     | Some tmpl \<Rightarrow> Inr tmpl)"

text \<open>The order in which a \<open>range\<close> over a map visits the entries: each number of the
  seed picks one of the entries that are left.\<close>

fun map_order :: "nat list \<Rightarrow> 'a list \<Rightarrow> 'a list" where
  "map_order seed [] = []"
| "map_order [] xs = xs"
| "map_order (n # seed) (x # xs) =
     (let ys = x # xs; i = n mod length ys
      in ys ! i # map_order seed (take i ys @ drop (Suc i) ys))"

text \<open>\<open>sort.Slice\<close> with a comparison function.\<close>

fun insert_by :: "('a \<Rightarrow> 'a \<Rightarrow> bool) \<Rightarrow> 'a \<Rightarrow> 'a list \<Rightarrow> 'a list" where
  "insert_by lt x [] = [x]"
| "insert_by lt x (y # ys) = (if lt y x then y # insert_by lt x ys else x # y # ys)"

definition sort_Slice :: "('a \<Rightarrow> 'a \<Rightarrow> bool) \<Rightarrow> 'a list \<Rightarrow> 'a list" where
  "sort_Slice lt xs = foldr (insert_by lt) xs []"

definition template_less :: "Template \<Rightarrow> Template \<Rightarrow> bool" where
  "template_less a b \<longleftrightarrow>
    (if t_Type a \<noteq> t_Type b then t_Type a < t_Type b else t_ID a < t_ID b)"

text \<open>The seeds of the outer loop and of the loop inside it for each type.\<close>

record iteration =
  it_types :: "nat list"
  it_ids :: "Type \<Rightarrow> nat list"

definition FileRepository_List :: "iteration \<Rightarrow> FileRepository \<Rightarrow> Template list result" where
  "FileRepository_List it r =
    Inr (sort_Slice template_less
      (concat (map (\<lambda>(t, byID). map snd (map_order (it_ids it t) byID))
        (map_order (it_types it) (fr_templates r)))))"

subsection \<open>Paths of directory entries\<close>

text \<open>What \<open>os.ReadDir\<close> documents of the names it returns: base names.\<close>

definition entry_name :: "string \<Rightarrow> bool" where
  "entry_name n \<longleftrightarrow> n \<noteq> [] \<and> CHR ''/'' \<notin> set n \<and> n \<noteq> ''.'' \<and> n \<noteq> ''..''"

definition filesystem_ok :: "filesystem \<Rightarrow> bool" where
  "filesystem_ok fs \<longleftrightarrow> (\<forall>dir es. ReadDir fs dir = Inr es \<longrightarrow> (\<forall>e \<in> set es. entry_name (de_Name e)))"

lemma Split_append_sep: "Split (p @ c # s) c = Split p c @ Split s c"
  by (induction p) (auto split: list.splits)

lemma join_slash_snoc: "join_slash (cs @ [c]) = (if cs = [] then c else join_slash cs @ CHR ''/'' # c)"
  by (induction cs rule: join_slash.induct) auto

lemma Clean_last:
  assumes "entry_name n" and path: "Split path (CHR ''/'') = ps @ [n]"
  shows "\<exists>q. Clean path = q @ n \<and> (q = [] \<or> last q = CHR ''/'')"
proof -
  define rooted out where "rooted = HasPrefix path ''/''"
    and "out = fold (clean_step rooted) ps []"
  have "fold (clean_step rooted) (Split path (CHR ''/'')) [] = n # out"
    using assms by (simp add: out_def clean_step_def entry_name_def)
  moreover have "n \<noteq> []"
    using assms(1) by (simp add: entry_name_def)
  ultimately have "Clean path = ((if rooted then ''/'' else []) @
      (if out = [] then [] else join_slash (rev out) @ ''/'')) @ n"
    by (simp add: Clean_def rooted_def [symmetric] Let_def join_slash_snoc)
  then show ?thesis by fastforce
qed

lemma Join_last:
  assumes "entry_name n"
  shows "\<exists>q. Join dir n = q @ n \<and> (q = [] \<or> last q = CHR ''/'')"
proof -
  have n: "Split n (CHR ''/'') = [n]" "n \<noteq> []"
    using assms by (simp_all add: entry_name_def Split_one)
  show ?thesis
  proof (cases "dir = []")
    case True
    then show ?thesis
      using Clean_last [OF assms, of n "[]"] n by (simp add: Join_def)
  next
    case False
    then show ?thesis
      using Clean_last [OF assms, of "dir @ ''/'' @ n" "Split dir (CHR ''/'')"] n
      by (simp add: Join_def Split_append_sep)
  qed
qed

lemma last_Split:
  assumes "CHR ''/'' \<notin> set n" "q = [] \<or> last q = CHR ''/''"
  shows "last (Split (q @ n) (CHR ''/'')) = n"
proof (cases "q = []")
  case True
  with assms show ?thesis by (simp add: Split_one)
next
  case False
  with assms(2) obtain p where "q = p @ ''/''"
    by (metis append_butlast_last_id)
  with assms(1) show ?thesis
    by (simp add: Split_append_sep Split_one)
qed

lemma Base_Join: "entry_name n \<Longrightarrow> Base (Join dir n) = n"
proof -
  assume n: "entry_name n"
  then obtain q where q: "Join dir n = q @ n" "q = [] \<or> last q = CHR ''/''"
    using Join_last by blast
  have ne: "n \<noteq> []" "CHR ''/'' \<notin> set n"
    using n by (simp_all add: entry_name_def)
  then have "last n \<noteq> CHR ''/''"
    using last_in_set by metis
  then have "dropWhile (\<lambda>c. c = CHR ''/'') (rev (q @ n)) = rev (q @ n)"
    using ne(1) by (cases "rev n") (auto simp: last_rev [symmetric] rev_swap)
  then show ?thesis
    using q ne last_Split [OF ne(2) q(2)] by (simp add: Base_def Let_def)
qed

lemma Ext_Join: "entry_name n \<Longrightarrow> Ext (Join dir n) = Ext n"
proof -
  assume n: "entry_name n"
  then obtain q where q: "Join dir n = q @ n" "q = [] \<or> last q = CHR ''/''"
    using Join_last by blast
  moreover have "CHR ''/'' \<notin> set n"
    using n by (simp add: entry_name_def)
  ultimately show ?thesis
    using last_Split [of n q] last_Split [of n "[]"] by (simp add: Ext_def)
qed

text \<open>The template ID of a file: its name without the extension. It is empty for a
  hidden file only.\<close>

definition template_id :: "string \<Rightarrow> string" where
  "template_id n = TrimSuffix n (Ext n)"

lemma template_id_nonempty:
  assumes "entry_name n" "\<not> HasPrefix n ''.''"
  shows "template_id n \<noteq> []"
proof
  assume "template_id n = []"
  moreover have "n \<noteq> []"
    using assms(1) by (simp add: entry_name_def)
  ultimately have "HasSuffix n (Ext n)" "length n - length (Ext n) = 0"
    by (auto simp: template_id_def TrimSuffix_def split: if_splits)
  then obtain t where t: "n = t @ Ext n" and len: "length n \<le> length (Ext n)"
    by (auto simp: HasSuffix_append)
  have "t = []"
    using arg_cong [OF t, of length] len by simp
  with t have "Ext n = n" by (metis append_Nil)
  moreover have "Ext n = [] \<or> HasPrefix (Ext n) ''.''"
    by (simp add: Ext_def Let_def HasPrefix_byte)
  ultimately show False
    using \<open>n \<noteq> []\<close> assms(2) by metis
qed

subsection \<open>The loaded repository\<close>

text \<open>What the repository answers: a map from type and ID to the template.\<close>

definition lookup :: "FileRepository \<Rightarrow> Type \<Rightarrow> string \<Rightarrow> Template option" where
  "lookup r t = map_of (type_map r t)"

definition type_inv :: "Type \<Rightarrow> (string \<times> Template) list \<Rightarrow> bool" where
  "type_inv t m \<longleftrightarrow> Type_IsValid t \<and> distinct (map fst m)
    \<and> (\<forall>id' tm. map_of m id' = Some tm \<longrightarrow>
        t_ID tm = id' \<and> t_Type tm = t \<and> id' \<noteq> [] \<and> t_Name tm \<noteq> []
        \<and> (t_IsDefault tm \<longleftrightarrow> id' = defaultTemplateID))"

definition repo_inv :: "FileRepository \<Rightarrow> bool" where
  "repo_inv r \<longleftrightarrow> distinct (map fst (fr_templates r))
    \<and> (\<forall>t m. map_of (fr_templates r) t = Some m \<longrightarrow> type_inv t m)"

text \<open>The files of a directory that are loaded, and what loading them one after another
  gives: the templates in directory order, or the first error.\<close>

definition visible :: "DirEntry list \<Rightarrow> DirEntry list" where
  "visible files = filter (\<lambda>f. \<not> de_IsDir f \<and> \<not> HasPrefix (de_Name f) ''.'') files"

fun mapE :: "('a \<Rightarrow> 'e + 'b) \<Rightarrow> 'a list \<Rightarrow> 'e + 'b list" where
  "mapE f [] = Inr []"
| "mapE f (x # xs) =
     (case f x of Inl e \<Rightarrow> Inl e
      | Inr y \<Rightarrow> (case mapE f xs of Inl e \<Rightarrow> Inl e | Inr ys \<Rightarrow> Inr (y # ys)))"

definition load_files ::
  "filesystem \<Rightarrow> (string \<Rightarrow> frontMatter result) \<Rightarrow> Type \<Rightarrow> string \<Rightarrow> DirEntry list \<Rightarrow> Template list result" where
  "load_files fs yaml t dir files =
    mapE (\<lambda>f. loadTemplateFile fs yaml t (Join dir (de_Name f))) (visible files)"

text \<open>The last template of the list with the ID: a later file replaces an earlier one.\<close>

definition last_with_id :: "Template list \<Rightarrow> string \<Rightarrow> Template option" where
  "last_with_id tms id' = List.find (\<lambda>tm. t_ID tm = id') (rev tms)"

lemma lookup_set_type_map:
  "lookup (set_type_map t m r) t' = (if t' = t then map_of m else lookup r t')"
  by (simp add: lookup_def set_type_map_def type_map_def AList.update_conv')

lemma type_map_set_type_map [simp]: "type_map (set_type_map t m r) t = m"
  by (simp add: type_map_def set_type_map_def AList.update_conv')

lemma repo_inv_set_type_map: "repo_inv r \<Longrightarrow> type_inv t m \<Longrightarrow> repo_inv (set_type_map t m r)"
  by (auto simp: repo_inv_def set_type_map_def AList.distinct_update AList.update_conv')

lemma type_inv_type_map: "repo_inv r \<Longrightarrow> Type_IsValid t \<Longrightarrow> type_inv t (type_map r t)"
  by (cases "map_of (fr_templates r) t") (simp_all add: repo_inv_def type_map_def type_inv_def)

lemma loadTemplateFile_Inr:
  assumes "loadTemplateFile fs yaml t (Join dir n) = Inr tm" and n: "entry_name n"
  shows "t_ID tm = template_id n \<and> t_Type tm = t \<and> (t_IsDefault tm \<longleftrightarrow> template_id n = defaultTemplateID)
    \<and> (template_id n \<noteq> [] \<longrightarrow> t_Name tm \<noteq> [])"
  using assms(1)
  by (auto simp: loadTemplateFile_def Template_New_def Let_def Base_Join [OF n] Ext_Join [OF n]
      template_id_def split: sum.splits if_splits)

lemma type_inv_update:
  assumes "type_inv t m" "t_Type tm = t" "t_ID tm \<noteq> []" "t_Name tm \<noteq> []"
    "t_IsDefault tm \<longleftrightarrow> t_ID tm = defaultTemplateID"
  shows "type_inv t (AList.update (t_ID tm) tm m)"
  using assms by (auto simp: type_inv_def AList.distinct_update AList.update_conv')

lemma loadFile_step_inv:
  assumes "repo_inv r" "Type_IsValid t" "entry_name (de_Name f)"
    and "loadFile_step fs yaml t dir f r = Inr r'"
  shows "repo_inv r'"
proof (cases "de_IsDir f \<or> HasPrefix (de_Name f) ''.''")
  case True
  with assms show ?thesis by (simp add: loadFile_step_def)
next
  case False
  with assms(4) obtain tm where tm: "loadTemplateFile fs yaml t (Join dir (de_Name f)) = Inr tm"
    and r': "r' = set_type_map t (AList.update (t_ID tm) tm (type_map r t)) r"
    by (auto simp: loadFile_step_def split: sum.splits)
  have "template_id (de_Name f) \<noteq> []"
    using False assms(3) template_id_nonempty by blast
  then have "type_inv t (AList.update (t_ID tm) tm (type_map r t))"
    using loadTemplateFile_Inr [OF tm assms(3)] type_inv_type_map [OF assms(1,2)]
    by (intro type_inv_update) simp_all
  then show ?thesis
    unfolding r' by (rule repo_inv_set_type_map [OF assms(1)])
qed

lemma loadTypeDir_inv:
  assumes "filesystem_ok fs" "repo_inv r" "Type_IsValid t" "loadTypeDir fs yaml t dir r = Inr r'"
  shows "repo_inv r'"
proof -
  obtain files where files: "ReadDir fs dir = Inr files"
    and fold: "foldE (loadFile_step fs yaml t dir) files (set_type_map t [] r) = Inr r'"
    using assms(4) by (auto simp: loadTypeDir_def split: sum.splits)
  have "repo_inv (set_type_map t [] r)"
    using assms(2,3) by (intro repo_inv_set_type_map) (auto simp: type_inv_def)
  moreover have "entry_name (de_Name f)" if "f \<in> set files" for f
    using that files assms(1) by (auto simp: filesystem_ok_def)
  ultimately show ?thesis
    using foldE_invariant [OF fold, of repo_inv] loadFile_step_inv [OF _ assms(3)] by blast
qed

lemma NewFileRepository_repo_inv:
  assumes "filesystem_ok fs" "NewFileRepository fs yaml rootDir = Inr r"
  shows "repo_inv r"
proof -
  obtain es where fold: "foldE (loadDir_step fs yaml rootDir) es \<lparr>fr_templates = []\<rparr> = Inr r"
    using assms(2) by (auto simp: NewFileRepository_def split: sum.splits)
  have "repo_inv \<lparr>fr_templates = []\<rparr>"
    by (simp add: repo_inv_def)
  moreover have "repo_inv s'" if "repo_inv s" "loadDir_step fs yaml rootDir e s = Inr s'" for e s s'
    using that loadTypeDir_inv [OF assms(1) that(1)] by (auto simp: loadDir_step_def split: if_splits)
  ultimately show ?thesis
    using foldE_invariant [OF fold, of repo_inv] by blast
qed

subsection \<open>Loading refines the map specification\<close>

lemma last_with_id_simps [simp]:
  "last_with_id [] id' = None"
  "last_with_id (tms @ [tm]) id' = (if t_ID tm = id' then Some tm else last_with_id tms id')"
  by (simp_all add: last_with_id_def)

lemma foldE_loadFile:
  "foldE (loadFile_step fs yaml t dir) files r = Inr r' \<Longrightarrow>
    \<exists>tms. load_files fs yaml t dir files = Inr tms
      \<and> lookup r' = (lookup r)(t := (\<lambda>id'. case last_with_id tms id' of Some tm \<Rightarrow> Some tm | None \<Rightarrow> lookup r t id'))"
proof (induction files arbitrary: r)
  case Nil
  then show ?case by (auto simp: load_files_def visible_def fun_eq_iff)
next
  case (Cons f files)
  from Cons.prems obtain r1 where step: "loadFile_step fs yaml t dir f r = Inr r1"
    and rest: "foldE (loadFile_step fs yaml t dir) files r1 = Inr r'"
    by (auto split: sum.splits)
  from Cons.IH [OF rest] obtain tms where tms: "load_files fs yaml t dir files = Inr tms"
    and r': "lookup r' = (lookup r1)(t := (\<lambda>id'. case last_with_id tms id' of Some tm \<Rightarrow> Some tm | None \<Rightarrow> lookup r1 t id'))"
    by blast
  show ?case
  proof (cases "de_IsDir f \<or> HasPrefix (de_Name f) ''.''")
    case True
    with step tms r' show ?thesis
      by (auto simp: loadFile_step_def load_files_def visible_def)
  next
    case False
    with step obtain tm where tm: "loadTemplateFile fs yaml t (Join dir (de_Name f)) = Inr tm"
      and r1: "r1 = set_type_map t (AList.update (t_ID tm) tm (type_map r t)) r"
      by (auto simp: loadFile_step_def split: sum.splits)
    have "load_files fs yaml t dir (f # files) = Inr (tm # tms)"
      using False tm tms by (simp add: load_files_def visible_def)
    moreover have "last_with_id (tm # tms) id' =
        (case last_with_id tms id' of Some x \<Rightarrow> Some x | None \<Rightarrow> if t_ID tm = id' then Some tm else None)" for id'
      by (induction tms rule: rev_induct) (auto simp: last_with_id_def)
    moreover have "lookup r1 = (lookup r)(t := (lookup r t)(t_ID tm \<mapsto> tm))"
    proof -
      have "map_of (AList.update (t_ID tm) tm (type_map r t)) = (lookup r t)(t_ID tm \<mapsto> tm)"
        by (simp add: lookup_def AList.update_conv')
      then show ?thesis
        by (simp add: r1 lookup_set_type_map fun_eq_iff)
    qed
    ultimately show ?thesis
      unfolding r' by (auto simp: fun_eq_iff split: option.splits)
  qed
qed

lemma loadTypeDir_lookup:
  assumes "loadTypeDir fs yaml t dir r = Inr r'"
  shows "\<exists>files tms. ReadDir fs dir = Inr files \<and> load_files fs yaml t dir files = Inr tms
    \<and> lookup r' = (lookup r)(t := last_with_id tms)"
proof -
  obtain files where files: "ReadDir fs dir = Inr files"
    and fold: "foldE (loadFile_step fs yaml t dir) files (set_type_map t [] r) = Inr r'"
    using assms by (auto simp: loadTypeDir_def split: sum.splits)
  from foldE_loadFile [OF fold] files show ?thesis
    by (auto simp: fun_eq_iff lookup_set_type_map split: option.split)
qed

definition type_dirs :: "DirEntry list \<Rightarrow> DirEntry list" where
  "type_dirs es = filter (\<lambda>e. de_IsDir e \<and> \<not> HasPrefix (de_Name e) ''.'') es"

text \<open>What a successful load has read for a type directory.\<close>

definition loaded ::
  "filesystem \<Rightarrow> (string \<Rightarrow> frontMatter result) \<Rightarrow> string \<Rightarrow> Type \<Rightarrow> Template list \<Rightarrow> bool" where
  "loaded fs yaml rootDir t tms \<longleftrightarrow>
    (\<exists>files. ReadDir fs (Join rootDir t) = Inr files
       \<and> load_files fs yaml t (Join rootDir t) files = Inr tms)"

lemma foldE_loadDir:
  "foldE (loadDir_step fs yaml rootDir) es r = Inr r' \<Longrightarrow> distinct (map de_Name es) \<Longrightarrow>
    (if t \<in> de_Name ` set (type_dirs es)
     then Type_IsValid t \<and> (\<exists>tms. loaded fs yaml rootDir t tms \<and> lookup r' t = last_with_id tms)
     else lookup r' t = lookup r t)"
proof (induction es arbitrary: r)
  case Nil
  then show ?case by (simp add: type_dirs_def)
next
  case (Cons e es)
  from Cons.prems(1) obtain r1 where step: "loadDir_step fs yaml rootDir e r = Inr r1"
    and rest: "foldE (loadDir_step fs yaml rootDir) es r1 = Inr r'"
    by (auto split: sum.splits)
  from Cons.prems(2) have dist: "distinct (map de_Name es)" and notin: "de_Name e \<notin> de_Name ` set es"
    by auto
  note IH = Cons.IH [OF rest dist]
  show ?case
  proof (cases "de_IsDir e \<and> \<not> HasPrefix (de_Name e) ''.''")
    case False
    with step have "r1 = r" by (auto simp: loadDir_step_def split: if_splits)
    with IH False show ?thesis by (auto simp: type_dirs_def split: if_splits)
  next
    case True
    with step have valid: "Type_IsValid (de_Name e)"
      and load: "loadTypeDir fs yaml (de_Name e) (Join rootDir (de_Name e)) r = Inr r1"
      by (auto simp: loadDir_step_def split: if_splits)
    from loadTypeDir_lookup [OF load] obtain tms where tms: "loaded fs yaml rootDir (de_Name e) tms"
      and r1: "lookup r1 = (lookup r)(de_Name e := last_with_id tms)"
      by (auto simp: loaded_def)
    show ?thesis
    proof (cases "t = de_Name e")
      case t: True
      with notin have "t \<notin> de_Name ` set (type_dirs es)"
        by (auto simp: type_dirs_def)
      with IH r1 t tms valid True show ?thesis
        by (auto simp: type_dirs_def)
    next
      case False
      with IH r1 True show ?thesis
        by (auto simp: type_dirs_def split: if_splits)
    qed
  qed
qed

lemma FileRepository_Get_lookup:
  "FileRepository_Get r t id' = Inr tm \<longleftrightarrow> lookup r t id' = Some tm"
  by (auto simp: FileRepository_Get_def lookup_def split: option.splits)

lemma FileRepository_GetDefault_lookup:
  "FileRepository_GetDefault r t = Inr tm \<longleftrightarrow> lookup r t defaultTemplateID = Some tm"
  by (auto simp: FileRepository_GetDefault_def lookup_def split: option.splits)

lemma lookup_inv:
  assumes "repo_inv r" "lookup r t id' = Some tm"
  shows "Type_IsValid t \<and> t_ID tm = id' \<and> t_Type tm = t \<and> id' \<noteq> []
    \<and> t_Name tm \<noteq> [] \<and> (t_IsDefault tm \<longleftrightarrow> id' = defaultTemplateID)"
proof -
  obtain m where m: "map_of (fr_templates r) t = Some m" "map_of m id' = Some tm"
    using assms(2) by (auto simp: lookup_def type_map_def split: option.splits)
  with assms(1) have "type_inv t m"
    unfolding repo_inv_def by blast
  with m(2) show ?thesis
    unfolding type_inv_def by blast
qed

subsection \<open>Listing\<close>

lemma mset_map_order [simp]: "mset (map_order seed xs) = mset xs"
proof (induction seed xs rule: map_order.induct)
  case (3 n seed x xs)
  let ?ys = "x # xs"
  let ?i = "n mod length ?ys"
  have i: "?i < length ?ys"
    by simp
  have "mset (map_order (n # seed) ?ys) = add_mset (?ys ! ?i) (mset (take ?i ?ys @ drop (Suc ?i) ?ys))"
    using 3 by (simp add: Let_def)
  also have "\<dots> = mset (take ?i ?ys @ ?ys ! ?i # drop (Suc ?i) ?ys)"
    by simp
  also have "\<dots> = mset ?ys"
    using id_take_nth_drop [OF i] by metis
  finally show ?case .
qed simp_all

text \<open>Every order is possible.\<close>

lemma map_order_complete: "mset ys = mset xs \<Longrightarrow> \<exists>seed. map_order seed xs = ys"
proof (induction ys arbitrary: xs)
  case Nil
  then show ?case by auto
next
  case (Cons y ys)
  then have "y \<in> set xs"
    by (metis list.set_intros(1) set_mset_mset)
  then obtain i where i: "i < length xs" "xs ! i = y"
    by (auto simp: in_set_conv_nth)
  then have split: "xs = take i xs @ y # drop (Suc i) xs"
    by (metis id_take_nth_drop)
  then have "mset xs = add_mset y (mset (take i xs @ drop (Suc i) xs))"
    by (metis mset.simps(2) mset_append union_mset_add_mset_right)
  with Cons.prems have "mset ys = mset (take i xs @ drop (Suc i) xs)"
    by simp
  from Cons.IH [OF this] obtain seed where "map_order seed (take i xs @ drop (Suc i) xs) = ys"
    by blast
  moreover obtain x xs' where "xs = x # xs'"
    using i(1) by (cases xs) auto
  ultimately have "map_order (i # seed) xs = y # ys"
    using i by (simp add: Let_def)
  then show ?case by blast
qed

abbreviation template_key :: "Template \<Rightarrow> string \<times> string" where
  "template_key tm \<equiv> (t_Type tm, t_ID tm)"

lemma template_less_key: "template_less a b \<longleftrightarrow> template_key a < template_key b"
  by (auto simp: template_less_def)

lemma if_swap: "(if \<not> b then x else y) = (if b then y else x)"
  by simp

lemma template_less_not_le: "template_less y x \<longleftrightarrow> \<not> template_key x \<le> template_key y"
  unfolding template_less_key by (rule not_le [symmetric])

lemma insert_by_key: "insert_by template_less x ys = insort_key template_key x ys"
proof (induction ys)
  case (Cons y ys)
  show ?case
    unfolding insert_by.simps(2) insort_key.simps(2) Cons.IH template_less_not_le [of y x]
    by (rule if_swap)
qed simp

lemma sort_Slice_key: "sort_Slice template_less xs = sort_key template_key xs"
  unfolding sort_Slice_def sort_key_def by (induction xs) (simp_all add: insert_by_key)

definition all_templates :: "FileRepository \<Rightarrow> Template list" where
  "all_templates r = concat (map (\<lambda>(t, byID). map snd byID) (fr_templates r))"

lemma mset_concat_map: "mset (concat (map f xs)) = \<Sum>\<^sub># (image_mset (\<lambda>x. mset (f x)) (mset xs))"
  by (induction xs) auto

lemma mset_iteration:
  "mset (concat (map (\<lambda>(t, byID). map snd (map_order (it_ids it t) byID))
      (map_order (it_types it) (fr_templates r)))) = mset (all_templates r)"
proof -
  have "mset (map snd (map_order seed byID)) = mset (map snd byID)" for seed and byID :: "(string \<times> Template) list"
    by (simp only: mset_map mset_map_order)
  then show ?thesis
    by (simp add: mset_concat_map all_templates_def case_prod_unfold)
qed

lemma all_templates_keys:
  assumes "repo_inv r"
  shows "map template_key (all_templates r) = concat (map (\<lambda>(t, m). map (\<lambda>(id', _). (t, id')) m) (fr_templates r))"
proof -
  have "template_key tm = (t, id')" if "(t, m) \<in> set (fr_templates r)" "(id', tm) \<in> set m" for t m id' tm
  proof -
    from assms that(1) have "map_of (fr_templates r) t = Some m"
      by (simp add: repo_inv_def)
    then have "type_inv t m"
      using assms by (auto simp only: repo_inv_def)
    moreover from this that(2) have "map_of m id' = Some tm"
      by (simp add: type_inv_def)
    ultimately show ?thesis
      unfolding type_inv_def by blast
  qed
  then show ?thesis
    by (auto simp: all_templates_def map_concat case_prod_unfold intro!: arg_cong [of _ _ concat] map_cong)
qed

lemma distinct_concat_keys:
  "distinct (map fst ts) \<Longrightarrow> \<forall>(t, m) \<in> set ts. distinct (map fst m) \<Longrightarrow>
    distinct (concat (map (\<lambda>(t, m). map (\<lambda>(id', _). (t, id')) m) ts))"
proof (induction ts)
  case (Cons tm ts)
  obtain t m where tm: "tm = (t, m)" by (cases tm)
  have "distinct (map (\<lambda>(id', _). (t, id')) m)"
    using Cons.prems(2) by (auto simp: tm distinct_map case_prod_unfold inj_on_def)
  moreover have "set (map (\<lambda>(id', _). (t, id')) m) \<inter> set (concat (map (\<lambda>(t, m). map (\<lambda>(id', _). (t, id')) m) ts)) = {}"
    using Cons.prems(1) by (force simp: tm case_prod_unfold)
  ultimately show ?case
    using Cons by (simp add: tm)
qed simp

lemma distinct_template_keys: "repo_inv r \<Longrightarrow> distinct (map template_key (all_templates r))"
  unfolding all_templates_keys
  by (rule distinct_concat_keys) (auto simp: repo_inv_def type_inv_def)

lemma set_all_templates:
  assumes "repo_inv r"
  shows "tm \<in> set (all_templates r) \<longleftrightarrow> lookup r (t_Type tm) (t_ID tm) = Some tm"
proof
  assume "tm \<in> set (all_templates r)"
  then obtain t m id' where m: "(t, m) \<in> set (fr_templates r)" "(id', tm) \<in> set m"
    by (auto simp: all_templates_def)
  with assms have t: "map_of (fr_templates r) t = Some m"
    by (simp add: repo_inv_def)
  with assms m(2) have "map_of m id' = Some tm"
    unfolding repo_inv_def type_inv_def by (metis map_of_is_SomeI)
  with t have "lookup r t id' = Some tm"
    by (simp add: lookup_def type_map_def)
  then show "lookup r (t_Type tm) (t_ID tm) = Some tm"
    using lookup_inv [OF assms] by metis
next
  assume "lookup r (t_Type tm) (t_ID tm) = Some tm"
  then show "tm \<in> set (all_templates r)"
    by (force simp: lookup_def type_map_def all_templates_def split: option.splits dest: map_of_SomeD)
qed

lemma FileRepository_List_eq:
  assumes "repo_inv r"
  shows "FileRepository_List it r = Inr (sort_key template_key (all_templates r))"
proof -
  let ?visited = "concat (map (\<lambda>(t, byID). map snd (map_order (it_ids it t) byID))
      (map_order (it_types it) (fr_templates r)))"
  have "inj_on template_key (set (all_templates r))"
    using distinct_template_keys [OF assms] by (simp add: distinct_map)
  moreover have "set ?visited = set (all_templates r)"
    by (rule mset_eq_setD) (rule mset_iteration)
  ultimately have "inj_on template_key (set ?visited)"
    by (simp only:)
  moreover have "mset ?visited = mset (sort_key template_key (all_templates r))"
    by (simp only: mset_iteration mset_sort)
  ultimately have "sort_key template_key ?visited = sort_key template_key (all_templates r)"
    by (intro sort_key_inj_key_eq) simp_all
  then show ?thesis
    by (simp only: FileRepository_List_def sort_Slice_key)
qed

lemma sorted_wrt_template_less:
  assumes "repo_inv r"
  shows "sorted_wrt template_less (sort_key template_key (all_templates r))"
proof -
  have "distinct (map template_key (sort_key template_key (all_templates r)))"
    using distinct_template_keys [OF assms] by (simp add: distinct_map)
  moreover have "sorted (map template_key (sort_key template_key (all_templates r)))"
    by (rule sorted_sort_key)
  ultimately have "sorted_wrt (<) (map template_key (sort_key template_key (all_templates r)))"
    by (simp only: strict_sorted_iff)
  then show ?thesis
    by (simp only: sorted_wrt_map template_less_key [abs_def])
qed

subsection \<open>The repository as an implementation of the interface\<close>

definition file_Repository :: "iteration \<Rightarrow> FileRepository \<Rightarrow> Repository" where
  "file_Repository it r =
    \<lparr>repo_Get = FileRepository_Get r, repo_GetDefault = FileRepository_GetDefault r,
     repo_List = FileRepository_List it r\<rparr>"

interpretation file_repo: template_repository "file_Repository it" repo_inv for it
proof unfold_locales
  fix r t id' tm assume "repo_inv r" "repo_Get (file_Repository it r) t id' = Inr tm"
  then show "t_Type tm = t \<and> t_ID tm = id' \<and> id' \<noteq> []"
    using lookup_inv by (auto simp: file_Repository_def FileRepository_Get_lookup)
next
  fix r t tm assume r: "repo_inv r" "repo_GetDefault (file_Repository it r) t = Inr tm"
  then have "lookup r t defaultTemplateID = Some tm"
    by (simp add: file_Repository_def FileRepository_GetDefault_lookup)
  with lookup_inv [OF r(1) this]
  show "t_IsDefault tm \<and> repo_Get (file_Repository it r) t (t_ID tm) = Inr tm"
    by (simp add: file_Repository_def FileRepository_Get_lookup)
next
  fix r assume "repo_inv r"
  moreover from this have "distinct (sort_key template_key (all_templates r))"
    using distinct_template_keys distinct_map distinct_sort by metis
  ultimately show "\<exists>ts. repo_List (file_Repository it r) = Inr ts \<and> distinct ts
      \<and> (\<forall>tm. tm \<in> set ts \<longleftrightarrow> repo_Get (file_Repository it r) (t_Type tm) (t_ID tm) = Inr tm)"
    by (simp add: file_Repository_def FileRepository_List_eq FileRepository_Get_lookup set_all_templates)
qed (auto simp: file_Repository_def FileRepository_Get_def FileRepository_GetDefault_def split: option.splits)

subsection \<open>Front matter\<close>

lemma delim_overlap:
  assumes "HasPrefix (drop j (meta @ newline # ''---'' @ rest)) (newline # ''---'')" "j < length meta"
  shows "HasPrefix (drop j meta) (newline # ''---'')"
proof -
  obtain c u where u: "drop j meta = c # u"
    using assms(2) by (cases "drop j meta") auto
  with assms have "HasPrefix (u @ newline # ''---'' @ rest) ''---''" "c = newline"
    by auto
  then have "HasPrefix u ''---''"
    by (cases u; cases "tl u"; cases "tl (tl u)") (auto simp: HasPrefix_def)
  with u \<open>c = newline\<close> show ?thesis by simp
qed

lemma Index_front_matter:
  assumes "\<not> Contains meta (newline # ''---'')"
  shows "Index (meta @ newline # ''---'' @ rest) (newline # ''---'') = Some (length meta)"
proof -
  let ?s = "meta @ newline # ''---'' @ rest"
  have none: "\<not> HasPrefix (drop j ?s) (newline # ''---'')" if "j < length meta" for j
    using delim_overlap [OF _ that] assms that by (auto simp: Contains_def Index_None)
  have at: "HasPrefix (drop (length meta) ?s) (newline # ''---'')"
    by (simp add: HasPrefix_append)
  moreover have "length meta \<le> length ?s"
    by simp
  ultimately have "Index ?s (newline # ''---'') \<noteq> None"
    unfolding Index_None by blast
  then obtain i where i: "Index ?s (newline # ''---'') = Some i"
    by blast
  have "\<not> i < length meta"
    using none Index_Some [OF i] by blast
  moreover have "\<not> length meta < i"
    using Index_least [OF i] at by blast
  ultimately show ?thesis
    using i by simp
qed

lemma splitFrontMatter_delimited:
  assumes "\<not> Contains meta (newline # ''---'')"
  shows "splitFrontMatter yaml (''---'' @ newline # meta @ newline # ''---'' @ rest) =
    (case yaml meta of Inl err \<Rightarrow> Inl err | Inr m \<Rightarrow> Inr (m, TrimPrefix rest [newline]))"
proof -
  let ?content = "''---'' @ newline # meta @ newline # ''---'' @ rest"
  let ?rest = "meta @ newline # ''---'' @ rest"
  have "HasPrefix ?content (frontMatterDelim @ [newline])"
    by (simp add: HasPrefix_append)
  moreover have "drop (length frontMatterDelim + 1) ?content = ?rest"
    by simp
  moreover have "drop (length meta + 1 + length frontMatterDelim) ?rest = rest"
    by simp
  ultimately show ?thesis
    using Index_front_matter [OF assms, of rest]
    by (simp only: splitFrontMatter_def Let_def not_True_eq_False if_False option.simps) simp
qed

subsection \<open>A concrete template directory\<close>

definition sample_fs :: filesystem where
  "sample_fs =
    \<lparr>ReadDir = (\<lambda>d.
        if d = ''templates'' then Inr [\<lparr>de_Name = ''.git'', de_IsDir = True\<rparr>, \<lparr>de_Name = ''email'', de_IsDir = True\<rparr>]
        else if d = ''templates/email''
        then Inr [\<lparr>de_Name = ''default.html'', de_IsDir = False\<rparr>, \<lparr>de_Name = ''welcome.html'', de_IsDir = False\<rparr>,
                  \<lparr>de_Name = ''welcome.txt'', de_IsDir = False\<rparr>]
        else Inl (External ''no such directory'')),
     ReadFile = (\<lambda>p. Inr p)\<rparr>"

definition no_yaml :: "string \<Rightarrow> frontMatter result" where
  "no_yaml s = Inr \<lparr>fm_Name = [], fm_Subject = s\<rparr>"

definition sample_default :: Template where
  "sample_default = Template_New ''default'' TypeEmail ''default'' [] ''templates/email/default.html'' True"

definition sample_welcome :: Template where
  "sample_welcome = Template_New ''welcome'' TypeEmail ''welcome'' [] ''templates/email/welcome.txt'' False"

definition sample_repository :: FileRepository where
  "sample_repository =
    \<lparr>fr_templates = [(TypeEmail, [(''default'', sample_default), (''welcome'', sample_welcome)])]\<rparr>"

definition sample_iteration :: iteration where
  "sample_iteration = \<lparr>it_types = [], it_ids = (\<lambda>_. [])\<rparr>"

lemma sample_fs_ok: "filesystem_ok sample_fs"
  by (auto simp: filesystem_ok_def sample_fs_def entry_name_def split: if_splits)

lemma sample_repository_loads: "NewFileRepository sample_fs no_yaml ''templates'' = Inr sample_repository"
  by code_simp

subsection \<open>Properties\<close>

text \<open>C23. Loading refines the map it documents: after a successful load, the templates of a
  type are those of the visible files of its directory under the root, keyed by their ID,
  the file that comes last in the directory winning; a type without a directory has
  none, and every directory that is not hidden is a valid type.\<close>

theorem NewFileRepository_refines:
  assumes "NewFileRepository fs yaml rootDir = Inr r"
    and "ReadDir fs rootDir = Inr entries" and "distinct (map de_Name entries)"
  shows "if t \<in> de_Name ` set (type_dirs entries)
    then Type_IsValid t \<and> (\<exists>tms. loaded fs yaml rootDir t tms
           \<and> (\<forall>id' tm. FileRepository_Get r t id' = Inr tm \<longleftrightarrow> last_with_id tms id' = Some tm))
    else (\<forall>id' tm. FileRepository_Get r t id' \<noteq> Inr tm)"
proof -
  have fold: "foldE (loadDir_step fs yaml rootDir) entries \<lparr>fr_templates = []\<rparr> = Inr r"
    using assms(1,2) by (simp add: NewFileRepository_def)
  have "lookup \<lparr>fr_templates = []\<rparr> t id' = None" for id'
    by (simp add: lookup_def type_map_def)
  with foldE_loadDir [OF fold assms(3), of t] show ?thesis
    by (auto simp: FileRepository_Get_lookup split: if_splits)
qed

theorem NewFileRepository_refines_witness:
  "\<exists>tms. loaded sample_fs no_yaml ''templates'' TypeEmail tms
     \<and> (\<forall>id' tm. FileRepository_Get sample_repository TypeEmail id' = Inr tm \<longleftrightarrow> last_with_id tms id' = Some tm)"
proof -
  define entries where "entries = [\<lparr>de_Name = ''.git'', de_IsDir = True\<rparr>, \<lparr>de_Name = ''email'', de_IsDir = True\<rparr>]"
  have "ReadDir sample_fs ''templates'' = Inr entries" "distinct (map de_Name entries)"
    by (simp_all add: sample_fs_def entries_def)
  moreover have "TypeEmail \<in> de_Name ` set (type_dirs entries)"
    by (simp add: type_dirs_def entries_def)
  ultimately show ?thesis
    using NewFileRepository_refines [OF sample_repository_loads, of entries TypeEmail] by simp
qed

text \<open>Every template a loaded repository answers with has a valid type, the type and
  the ID it was asked for, a name and an ID that are not empty, and is the default template
  exactly when its ID is \<open>default\<close>.\<close>

theorem NewFileRepository_entries:
  assumes "filesystem_ok fs" "NewFileRepository fs yaml rootDir = Inr r"
    and "FileRepository_Get r t id' = Inr tm"
  shows "Type_IsValid t \<and> t_ID tm = id' \<and> t_Type tm = t \<and> id' \<noteq> [] \<and> t_Name tm \<noteq> []
    \<and> (t_IsDefault tm \<longleftrightarrow> id' = defaultTemplateID)"
  using lookup_inv [OF NewFileRepository_repo_inv [OF assms(1,2)]] assms(3)
  by (simp add: FileRepository_Get_lookup)

theorem NewFileRepository_entries_witness:
  "t_ID sample_welcome = ''welcome'' \<and> \<not> t_IsDefault sample_welcome"
proof -
  have "FileRepository_Get sample_repository TypeEmail ''welcome'' = Inr sample_welcome"
    by (simp add: FileRepository_Get_def type_map_def sample_repository_def)
  from NewFileRepository_entries [OF sample_fs_ok sample_repository_loads this] show ?thesis
    by simp
qed

text \<open>C34. The listing of a loaded repository does not depend on the order in which Go
  visits its maps: it is strictly sorted by type and then ID, and has exactly the templates
  that a lookup finds.\<close>

theorem FileRepository_List_spec:
  assumes "filesystem_ok fs" "NewFileRepository fs yaml rootDir = Inr r"
  shows "\<exists>ts. (\<forall>it. FileRepository_List it r = Inr ts) \<and> sorted_wrt template_less ts
    \<and> (\<forall>tm. tm \<in> set ts \<longleftrightarrow> FileRepository_Get r (t_Type tm) (t_ID tm) = Inr tm)"
proof -
  note inv = NewFileRepository_repo_inv [OF assms]
  let ?ts = "sort_key template_key (all_templates r)"
  have "(\<forall>it. FileRepository_List it r = Inr ?ts) \<and> sorted_wrt template_less ?ts"
    using FileRepository_List_eq [OF inv] sorted_wrt_template_less [OF inv] by blast
  moreover have "tm \<in> set ?ts \<longleftrightarrow> FileRepository_Get r (t_Type tm) (t_ID tm) = Inr tm" for tm
    by (simp only: set_sort set_all_templates [OF inv] FileRepository_Get_lookup)
  ultimately show ?thesis by blast
qed

theorem FileRepository_List_spec_witness:
  "\<exists>ts. (\<forall>it. FileRepository_List it sample_repository = Inr ts) \<and> sorted_wrt template_less ts"
  using FileRepository_List_spec [OF sample_fs_ok sample_repository_loads] by blast

text \<open>C35. Front matter reads back: of a file made of a delimiter line, metadata without a
  delimiter, a delimiter line and a body, the metadata goes to the YAML parser and the
  body comes back unchanged.\<close>

theorem splitFrontMatter_roundtrip:
  assumes "\<not> Contains meta (newline # frontMatterDelim)"
  shows "splitFrontMatter yaml
      (frontMatterDelim @ [newline] @ meta @ [newline] @ frontMatterDelim @ [newline] @ body)
    = (case yaml meta of Inl err \<Rightarrow> Inl err | Inr m \<Rightarrow> Inr (m, body))"
  using splitFrontMatter_delimited [OF assms, of yaml "newline # body"]
  by (simp add: TrimPrefix_def HasPrefix_append split: sum.split)

theorem splitFrontMatter_roundtrip_witness:
  "splitFrontMatter no_yaml
      (frontMatterDelim @ [newline] @ ''name: Welcome'' @ [newline] @ frontMatterDelim @ [newline] @ ''Hi'')
    = Inr (\<lparr>fm_Name = [], fm_Subject = ''name: Welcome''\<rparr>, ''Hi'')"
proof -
  have "\<not> Contains ''name: Welcome'' (newline # frontMatterDelim)"
    by (simp add: Contains_def)
  from splitFrontMatter_roundtrip [OF this, of no_yaml "''Hi''"] show ?thesis
    by (simp add: no_yaml_def)
qed

text \<open>An empty front matter block, a delimiter line directly followed by another, is
  refused as unclosed when nothing later in the file closes it.\<close>

theorem splitFrontMatter_empty_block:
  assumes "\<not> Contains (frontMatterDelim @ [newline] @ body) (newline # frontMatterDelim)"
  shows "splitFrontMatter yaml (frontMatterDelim @ [newline] @ frontMatterDelim @ [newline] @ body)
    = Inl (ErrorfNew [Lit ''missing closing '', Quoted frontMatterDelim, Lit '' delimiter''])"
  using assms by (auto simp: splitFrontMatter_def HasPrefix_append Contains_def Let_def)

theorem splitFrontMatter_empty_block_witness:
  "splitFrontMatter no_yaml (frontMatterDelim @ [newline] @ frontMatterDelim @ [newline] @ ''Hi'')
    = Inl (ErrorfNew [Lit ''missing closing '', Quoted frontMatterDelim, Lit '' delimiter''])"
  by (rule splitFrontMatter_empty_block) (simp add: Contains_def)

text \<open>The closing delimiter need not be a line of its own: any line that starts with
  three dashes closes the block, and what follows the dashes on it begins the body.\<close>

theorem splitFrontMatter_delimiter_prefix:
  assumes "\<not> Contains meta (newline # frontMatterDelim)" "\<not> HasPrefix tail' [newline]"
  shows "splitFrontMatter yaml (frontMatterDelim @ [newline] @ meta @ [newline] @ frontMatterDelim @ tail')
    = (case yaml meta of Inl err \<Rightarrow> Inl err | Inr m \<Rightarrow> Inr (m, tail'))"
  using splitFrontMatter_delimited [OF assms(1), of yaml tail'] assms(2)
  by (simp add: TrimPrefix_def split: sum.split)

theorem splitFrontMatter_delimiter_prefix_witness:
  "splitFrontMatter no_yaml (frontMatterDelim @ [newline] @ ''a'' @ [newline] @ frontMatterDelim @ ''- Hi'')
    = Inr (\<lparr>fm_Name = [], fm_Subject = ''a''\<rparr>, ''- Hi'')"
proof -
  have "\<not> Contains ''a'' (newline # frontMatterDelim)" "\<not> HasPrefix ''- Hi'' [newline]"
    by (simp_all add: Contains_def)
  from splitFrontMatter_delimiter_prefix [OF this, of no_yaml] show ?thesis
    by (simp add: no_yaml_def)
qed

end
