(* ===== verification/Template_Service.thy ===== *)
theory Template_Service
  imports File_Repository
begin

text \<open>
  internal/app/template/service.go: resolving and listing templates over the
  repository interface. The client lemmas are proved once in the interface's
  locale and reach the file repository through its interpretation.
\<close>

record TemplateService =
  ts_repo :: Repository

definition NewTemplateService :: "Repository \<Rightarrow> TemplateService" where
  "NewTemplateService repo = \<lparr>ts_repo = repo\<rparr>"

text \<open>The methods, as functions of the field.\<close>

definition Service_Resolve :: "Repository \<Rightarrow> string \<Rightarrow> Type \<Rightarrow> Template result" where
  "Service_Resolve repo templateID notificationType =
    (if templateID = [] then repo_GetDefault repo notificationType
     else repo_Get repo notificationType templateID)"

definition Service_List :: "Repository \<Rightarrow> Type \<Rightarrow> Template list result" where
  "Service_List repo typeFilter =
    (case repo_List repo of
       Inl err \<Rightarrow> Inl err
     | Inr templates \<Rightarrow>
         if typeFilter = [] then Inr templates
         else Inr (filter (\<lambda>tmpl. t_Type tmpl = typeFilter) templates))"

context template_repository
begin

lemma Resolve_Inr:
  assumes "invar r" "Service_Resolve (repository r) tid t = Inr tm"
  shows "t_Type tm = t \<and> t_ID tm \<noteq> [] \<and> (if tid = [] then t_IsDefault tm else t_ID tm = tid)"
proof (cases "tid = []")
  case True
  with assms(2) have "repo_GetDefault (repository r) t = Inr tm"
    by (simp add: Service_Resolve_def)
  from GetDefault_Inr [OF assms(1) this] True show ?thesis
    using Get_Inr [OF assms(1)] by auto
next
  case False
  with assms(2) show ?thesis
    using Get_Inr [OF assms(1)] by (auto simp: Service_Resolve_def)
qed

text \<open>Resolving the resolved template's own ID gives the same template.\<close>

lemma Resolve_stable:
  assumes "invar r" "Service_Resolve (repository r) tid t = Inr tm"
  shows "Service_Resolve (repository r) (t_ID tm) t = Inr tm"
proof (cases "tid = []")
  case True
  with assms show ?thesis
    using GetDefault_Inr [OF assms(1)] Resolve_Inr [OF assms] by (simp add: Service_Resolve_def)
next
  case False
  with assms show ?thesis
    using Resolve_Inr [OF assms] by simp
qed

lemma Resolve_Inl:
  assumes "Service_Resolve (repository r) tid t = Inl e"
  shows "errors_Is e (if tid = [] then ErrNoDefaultTemplate else ErrTemplateNotFound)
    \<and> errors_As is_ValidationError e = None"
  using assms GetDefault_Inl Get_Inl
  by (auto simp: Service_Resolve_def split: if_splits)

lemma List_filter:
  assumes "invar r"
  shows "\<exists>ts. Service_List (repository r) f = Inr ts \<and> distinct ts
    \<and> (\<forall>tm. tm \<in> set ts \<longleftrightarrow> (f = [] \<or> t_Type tm = f)
         \<and> repo_Get (repository r) (t_Type tm) (t_ID tm) = Inr tm)"
  using List_Inr [OF assms] by (auto simp: Service_List_def)

end

text \<open>Resolution does not depend on the order in which a listing visits the maps.\<close>

lemma Resolve_iteration:
  "Service_Resolve (file_Repository it r) = Service_Resolve (file_Repository it' r)"
  by (simp add: fun_eq_iff Service_Resolve_def file_Repository_def)

subsection \<open>Properties\<close>

text \<open>Resolution over a loaded repository: the template has the requested type; an empty
  ID gives the default template and any other ID the template with that ID; and resolving
  the ID of the result again, as the worker does with the stamped ID, gives the same
  template.\<close>

theorem Service_Resolve_stable:
  assumes "filesystem_ok fs" "NewFileRepository fs yaml rootDir = Inr r"
    and "Service_Resolve (file_Repository it r) tid t = Inr tm"
  shows "t_Type tm = t \<and> (if tid = [] then t_IsDefault tm else t_ID tm = tid)
    \<and> Service_Resolve (file_Repository it' r) (t_ID tm) t = Inr tm"
proof -
  note inv = NewFileRepository_repo_inv [OF assms(1,2)]
  show ?thesis
    using file_repo.Resolve_Inr [OF inv assms(3)] file_repo.Resolve_stable [OF inv assms(3)]
      Resolve_iteration [of it r it'] by simp
qed

theorem Service_Resolve_stable_witness:
  "Service_Resolve (file_Repository sample_iteration sample_repository) (t_ID sample_default) TypeEmail
     = Inr sample_default"
proof -
  have "Service_Resolve (file_Repository sample_iteration sample_repository) [] TypeEmail = Inr sample_default"
    by (simp add: Service_Resolve_def file_Repository_def FileRepository_GetDefault_def type_map_def
        sample_repository_def)
  from Service_Resolve_stable [OF sample_fs_ok sample_repository_loads this] show ?thesis
    by blast
qed

text \<open>Listing with a type filter gives exactly the templates of that type in the sorted
  order of the full listing, and without a filter all of them.\<close>

theorem Service_List_spec:
  assumes "filesystem_ok fs" "NewFileRepository fs yaml rootDir = Inr r"
  shows "\<exists>ts. Service_List (file_Repository it r) f = Inr ts \<and> sorted_wrt template_less ts
    \<and> (\<forall>tm. tm \<in> set ts \<longleftrightarrow> (f = [] \<or> t_Type tm = f)
         \<and> FileRepository_Get r (t_Type tm) (t_ID tm) = Inr tm)"
proof -
  note inv = NewFileRepository_repo_inv [OF assms]
  have "sorted_wrt template_less (if f = [] then sort_key template_key (all_templates r)
      else filter (\<lambda>tm. t_Type tm = f) (sort_key template_key (all_templates r)))"
    using sorted_wrt_template_less [OF inv] by (simp add: sorted_wrt_filter)
  moreover have "Service_List (file_Repository it r) f = Inr (if f = [] then sort_key template_key (all_templates r)
      else filter (\<lambda>tm. t_Type tm = f) (sort_key template_key (all_templates r)))"
    by (simp add: Service_List_def file_Repository_def FileRepository_List_eq [OF inv])
  ultimately show ?thesis
    using file_repo.List_filter [OF inv, of it f] by (auto simp: file_Repository_def)
qed

theorem Service_List_spec_witness:
  "\<exists>ts. Service_List (file_Repository sample_iteration sample_repository) TypeEmail = Inr ts \<and> sorted_wrt template_less ts"
  using Service_List_spec [OF sample_fs_ok sample_repository_loads] by blast

end
