(* ===== verification/Publisher_Port.thy ===== *)
theory Publisher_Port
  imports Notification
begin

text \<open>
  The publisher interfaces: \<open>Publish\<close> of internal/domain/notification/publisher.go,
  which the API service calls, and the consumer's interface of
  internal/transport/queue/consumer.go, which adds \<open>PublishDeadLetter\<close>. A
  method takes the state of the outside world and returns it with the error.
  \<open>marshal\<close> is \<open>encoding/json.Marshal\<close> on messages. \<open>confirmed\<close> is what
  the broker has acknowledged so far: pairs of routing key and body. The
  contract: \<open>nil\<close> is returned exactly when the broker has confirmed the
  message on its lane, and nothing else is confirmed.
\<close>

type_synonym 'w publish = "ctx \<Rightarrow> Message \<Rightarrow> 'w \<Rightarrow> go_error option \<times> 'w"

locale publisher =
  fixes Publish :: "'w publish"
    and marshal :: "Message \<Rightarrow> string result"
    and lane :: "Message \<Rightarrow> string"
    and confirmed :: "'w \<Rightarrow> (string \<times> string) list"
  assumes Publish_nil: "Publish c m w = (None, w') \<Longrightarrow>
      \<exists>body. marshal m = Inr body \<and> confirmed w' = confirmed w @ [(lane m, body)]"
    and Publish_err: "Publish c m w = (Some e, w') \<Longrightarrow> confirmed w' = confirmed w"

locale retry_publisher = publisher Publish marshal lane confirmed
  for Publish :: "'w publish" and marshal lane and confirmed :: "'w \<Rightarrow> (string \<times> string) list" +
  fixes PublishDeadLetter :: "'w publish" and dead_lane :: string
  assumes Dead_nil: "PublishDeadLetter c m w = (None, w') \<Longrightarrow>
      \<exists>body. marshal m = Inr body \<and> confirmed w' = confirmed w @ [(dead_lane, body)]"
    and Dead_err: "PublishDeadLetter c m w = (Some e, w') \<Longrightarrow> confirmed w' = confirmed w"

end
