(* ===== verification/Delivery_Port.thy ===== *)
theory Delivery_Port
  imports Notification
begin

text \<open>
  The delivery interface of internal/transport/queue/consumer.go. A delivery
  has a body and two methods that act on the state of the consuming connection.
  \<open>settled\<close> is the record of the answers given so far, each with the tag of its
  delivery. The contract: each method gives exactly one answer for its own
  delivery, whether or not the connection then reports an error.
\<close>

datatype settlement = Acked | Requeued | Discarded

record 'd queue_delivery =
  qd_Body :: string
  qd_Ack :: "'d \<Rightarrow> go_error option \<times> 'd"
  qd_Nack :: "bool \<Rightarrow> 'd \<Rightarrow> go_error option \<times> 'd"

locale delivery =
  fixes as_delivery :: "'b \<Rightarrow> 'd queue_delivery"
    and tag :: "'b \<Rightarrow> nat"
    and settled :: "'d \<Rightarrow> (nat \<times> settlement) list"
  assumes Ack_settles: "settled (snd (qd_Ack (as_delivery b) s)) = settled s @ [(tag b, Acked)]"
    and Nack_settles: "settled (snd (qd_Nack (as_delivery b) rq s)) =
      settled s @ [(tag b, if rq then Requeued else Discarded)]"

end
