(* ===== verification/Rabbit.thy ===== *)
theory Rabbit
  imports Publisher_Port Delivery_Port
begin

text \<open>
  internal/infrastructure/rabbitmq: connection.go, topology.go, publisher.go and
  consumer.go. The client library amqp091-go and the broker behind it are the
  parameter \<open>amqp\<close>: each call the source makes is a value of \<open>amqp_call\<close> with
  its arguments in the source's order, and the environment answers it with a
  reply. The state keeps the environment and, for the proofs, the list of the
  calls made so far with their replies. The mutex of the publisher orders whole
  publishes, so one publish runs alone here.
\<close>

record Publishing =
  pub_ContentType :: string
  pub_Persistent :: bool
  pub_MessageId :: string
  pub_Timestamp :: int
  pub_Body :: string

datatype amqp_call =
    Dial_conn string
  | Open_channel
  | Close_channel
  | Close_conn
  | Confirm bool
  | ExchangeDeclare string string bool bool bool bool
  | QueueDeclare string bool bool bool bool
  | QueueBind string string string bool
  | Qos int int bool
  | Consume_queue string string bool bool bool bool
  | PublishDeferred ctx string string bool bool Publishing
  | WaitConfirm ctx
  | Ack_tag nat bool
  | Nack_tag nat bool bool

datatype amqp_reply = ROk | RErr go_error | RAcked bool

record 'w amqp =
  amqp_invoke :: "amqp_call \<Rightarrow> 'w \<Rightarrow> amqp_reply \<times> 'w"
  amqp_now :: "'w \<Rightarrow> int"

record 'w broker =
  bk_env :: 'w
  bk_calls :: "(amqp_call \<times> amqp_reply) list"

definition invoke :: "'w amqp \<Rightarrow> amqp_call \<Rightarrow> 'w broker \<Rightarrow> amqp_reply \<times> 'w broker" where
  "invoke amqp call s =
    (let (reply, env) = amqp_invoke amqp call (bk_env s)
     in (reply, s\<lparr>bk_env := env, bk_calls := bk_calls s @ [(call, reply)]\<rparr>))"

text \<open>\<open>if err := call; err != nil { return wrap(err) }\<close>\<close>

definition try_call ::
  "'w amqp \<Rightarrow> (go_error \<Rightarrow> go_error) \<Rightarrow> amqp_call \<Rightarrow> 'w broker \<Rightarrow> go_error option \<times> 'w broker" where
  "try_call amqp wrap call s =
    (case invoke amqp call s of
       (RErr e, s') \<Rightarrow> (Some (wrap e), s')
     | (_, s') \<Rightarrow> (None, s'))"

subsection \<open>connection.go\<close>

text \<open>The connection's two fields are the handles that are not nil.\<close>

record Connection =
  cn_conn :: bool
  cn_ch :: bool

definition Dial :: "'w amqp \<Rightarrow> string \<Rightarrow> 'w broker \<Rightarrow> Connection result \<times> 'w broker" where
  "Dial amqp url s =
    (case try_call amqp (\<lambda>e. Errorf [Lit ''dial rabbitmq: '', Cause] e) (Dial_conn url) s of
       (Some err, s') \<Rightarrow> (Inl err, s')
     | (None, s') \<Rightarrow>
        (case try_call amqp (\<lambda>e. Errorf [Lit ''open channel: '', Cause] e) Open_channel s' of
           (Some err, s'') \<Rightarrow> (Inl err, snd (invoke amqp Close_conn s''))
         | (None, s'') \<Rightarrow> (Inr \<lparr>cn_conn = True, cn_ch = True\<rparr>, s'')))"

definition Connection_Close :: "'w amqp \<Rightarrow> Connection \<Rightarrow> 'w broker \<Rightarrow> go_error option \<times> 'w broker" where
  "Connection_Close amqp c s =
    (let s' = (if cn_ch c then snd (invoke amqp Close_channel s) else s)
     in if cn_conn c then try_call amqp (\<lambda>e. e) Close_conn s' else (None, s'))"

subsection \<open>topology.go\<close>

abbreviation Exchange :: string where "Exchange \<equiv> ''notifications''"
abbreviation DeadLetterQueue :: string where "DeadLetterQueue \<equiv> ''notifications.dead''"
abbreviation DeadLetterRoutingKey :: string where "DeadLetterRoutingKey \<equiv> ''dead''"

definition allTypes :: "Type list" where
  "allTypes = [TypeEmail, TypeSMS, TypePush]"

definition allPriorities :: "Priority list" where
  "allPriorities = [PriorityTransactional, PriorityBulk]"

definition RoutingKey :: "Type \<Rightarrow> Priority \<Rightarrow> string" where
  "RoutingKey notifType priority = notifType @ ''.'' @ priority"

definition QueueName :: "Type \<Rightarrow> Priority \<Rightarrow> string" where
  "QueueName notifType priority = RoutingKey notifType priority"

definition declareLane :: "'w amqp \<Rightarrow> Type \<Rightarrow> Priority \<Rightarrow> 'w broker \<Rightarrow> go_error option \<times> 'w broker" where
  "declareLane amqp notifType priority =
    (let name = QueueName notifType priority in
     seqE (try_call amqp (\<lambda>e. Errorf [Lit ''declare queue '', Quoted name, Lit '': '', Cause] e)
             (QueueDeclare name True False False False))
          (try_call amqp (\<lambda>e. Errorf [Lit ''bind queue '', Quoted name, Lit '': '', Cause] e)
             (QueueBind name (RoutingKey notifType priority) Exchange False)))"

definition DeclareTopology :: "'w amqp \<Rightarrow> 'w broker \<Rightarrow> go_error option \<times> 'w broker" where
  "DeclareTopology amqp =
    seqE (try_call amqp (\<lambda>e. Errorf [Lit ''declare exchange '', Quoted Exchange, Lit '': '', Cause] e)
            (ExchangeDeclare Exchange ''direct'' True False False False))
    (seqE (forE (\<lambda>notifType. forE (declareLane amqp notifType) allPriorities) allTypes)
    (seqE (try_call amqp (\<lambda>e. Errorf [Lit ''declare dead-letter queue '', Quoted DeadLetterQueue, Lit '': '', Cause] e)
            (QueueDeclare DeadLetterQueue True False False False))
          (try_call amqp (\<lambda>e. Errorf [Lit ''bind dead-letter queue '', Quoted DeadLetterQueue, Lit '': '', Cause] e)
            (QueueBind DeadLetterQueue DeadLetterRoutingKey Exchange False))))"

subsection \<open>publisher.go\<close>

text \<open>Five seconds.\<close>

definition DefaultPublishTimeout :: int where
  "DefaultPublishTimeout = 5000000000"

record Publisher =
  pb_timeout :: int

definition WithPublishTimeout :: "int \<Rightarrow> Publisher \<Rightarrow> Publisher" where
  "WithPublishTimeout d p = p\<lparr>pb_timeout := d\<rparr>"

definition NewPublisher ::
  "'w amqp \<Rightarrow> (Publisher \<Rightarrow> Publisher) list \<Rightarrow> 'w broker \<Rightarrow> Publisher result \<times> 'w broker" where
  "NewPublisher amqp opts s =
    (case try_call amqp (\<lambda>e. Errorf [Lit ''put channel in confirm mode: '', Cause] e) (Confirm False) s of
       (Some err, s') \<Rightarrow> (Inl err, s')
     | (None, s') \<Rightarrow>
        (case DeclareTopology amqp s' of
           (Some err, s'') \<Rightarrow> (Inl err, s'')
         | (None, s'') \<Rightarrow> (Inr (fold (\<lambda>opt. opt) opts \<lparr>pb_timeout = DefaultPublishTimeout\<rparr>), s'')))"

definition Publisher_publish ::
  "'w amqp \<Rightarrow> (Message \<Rightarrow> string result) \<Rightarrow> Publisher \<Rightarrow> ctx \<Rightarrow> string \<Rightarrow> Message
    \<Rightarrow> 'w broker \<Rightarrow> go_error option \<times> 'w broker" where
  "Publisher_publish amqp marshal p c routingKey msg s =
    (case marshal msg of
       Inl err \<Rightarrow> (Some (Errorf [Lit ''marshal notification '', Lit (m_ID msg), Lit '': '', Cause] err), s)
     | Inr body \<Rightarrow>
        (let c' = WithTimeout c (amqp_now amqp (bk_env s)) (pb_timeout p);
             publishing = \<lparr>pub_ContentType = ''application/json'', pub_Persistent = True,
                           pub_MessageId = m_ID msg, pub_Timestamp = m_CreatedAt msg, pub_Body = body\<rparr>
         in case invoke amqp (PublishDeferred c' Exchange routingKey False False publishing) s of
              (RErr err, s') \<Rightarrow>
                (Some (Errorf [Lit ''publish notification '', Lit (m_ID msg), Lit '': '', Cause] err), s')
            | (_, s') \<Rightarrow>
               (case invoke amqp (WaitConfirm c') s' of
                  (RErr err, s'') \<Rightarrow>
                    (Some (Errorf [Lit ''await confirm for notification '', Lit (m_ID msg), Lit '': '', Cause] err), s'')
                | (reply, s'') \<Rightarrow>
                    if reply \<noteq> RAcked True
                    then (Some (Errorf [Cause, Lit '': notification '', Lit (m_ID msg), Lit '' nacked by broker'']
                                  (Sentinel ErrPublishFailed)), s'')
                    else (None, s''))))"

definition Publisher_Publish ::
  "'w amqp \<Rightarrow> (Message \<Rightarrow> string result) \<Rightarrow> Publisher \<Rightarrow> 'w broker publish" where
  "Publisher_Publish amqp marshal p c msg =
    Publisher_publish amqp marshal p c (RoutingKey (m_Type msg) (m_Priority msg)) msg"

definition Publisher_PublishDeadLetter ::
  "'w amqp \<Rightarrow> (Message \<Rightarrow> string result) \<Rightarrow> Publisher \<Rightarrow> 'w broker publish" where
  "Publisher_PublishDeadLetter amqp marshal p c msg =
    Publisher_publish amqp marshal p c DeadLetterRoutingKey msg"

subsection \<open>consumer.go\<close>

record Delivery =
  dl_Body :: string
  dl_Tag :: nat

definition Delivery_Ack :: "'w amqp \<Rightarrow> Delivery \<Rightarrow> 'w broker \<Rightarrow> go_error option \<times> 'w broker" where
  "Delivery_Ack amqp d = try_call amqp (\<lambda>e. e) (Ack_tag (dl_Tag d) False)"

definition Delivery_Nack :: "'w amqp \<Rightarrow> Delivery \<Rightarrow> bool \<Rightarrow> 'w broker \<Rightarrow> go_error option \<times> 'w broker" where
  "Delivery_Nack amqp d requeue = try_call amqp (\<lambda>e. e) (Nack_tag (dl_Tag d) False requeue)"

text \<open>The delivery as the consumer's interface sees it.\<close>

definition as_delivery :: "'w amqp \<Rightarrow> Delivery \<Rightarrow> 'w broker queue_delivery" where
  "as_delivery amqp d =
    \<lparr>qd_Body = dl_Body d, qd_Ack = Delivery_Ack amqp d, qd_Nack = Delivery_Nack amqp d\<rparr>"

text \<open>Registering the consumer; the goroutine then forwards the deliveries unchanged and in
  order.\<close>

definition Connection_Consume :: "'w amqp \<Rightarrow> string \<Rightarrow> int \<Rightarrow> 'w broker \<Rightarrow> go_error option \<times> 'w broker" where
  "Connection_Consume amqp queue prefetch =
    seqE (try_call amqp (\<lambda>e. Errorf [Lit ''set qos: '', Cause] e) (Qos prefetch 0 False))
         (try_call amqp (\<lambda>e. Errorf [Lit ''consume '', Quoted queue, Lit '': '', Cause] e)
            (Consume_queue queue [] False False False False))"

subsection \<open>The calls an operation makes\<close>

definition failed :: "amqp_reply \<Rightarrow> bool" where
  "failed r \<longleftrightarrow> (case r of RErr e \<Rightarrow> True | _ \<Rightarrow> False)"

lemma failed_simps [simp]: "failed (RErr e)" "\<not> failed ROk" "\<not> failed (RAcked b)"
  by (simp_all add: failed_def)

lemma invoke_calls: "invoke amqp call s = (r, s') \<Longrightarrow> bk_calls s' = bk_calls s @ [(call, r)]"
  by (auto simp: invoke_def split: prod.splits)

lemma try_call_None:
  "try_call amqp wrap call s = (None, s') \<longleftrightarrow> (\<exists>r. invoke amqp call s = (r, s') \<and> \<not> failed r)"
  by (auto simp: try_call_def failed_def split: prod.splits amqp_reply.splits)

lemma try_call_Some:
  "try_call amqp wrap call s = (Some e, s') \<longleftrightarrow> (\<exists>err. invoke amqp call s = (RErr err, s') \<and> e = wrap err)"
  by (auto simp: try_call_def split: prod.splits amqp_reply.splits)

text \<open>A list of calls with early return: all were made and none failed, or a prefix was made
  and its last call failed.\<close>

definition run_calls ::
  "'w amqp \<Rightarrow> (amqp_call \<times> (go_error \<Rightarrow> go_error)) list \<Rightarrow> 'w broker \<Rightarrow> go_error option \<times> 'w broker" where
  "run_calls amqp = forE (\<lambda>(call, wrap). try_call amqp wrap call)"

lemma seqE_return: "seqE m (\<lambda>s. (None, s)) = m"
  by (rule ext) (auto simp: seqE_def split: prod.splits option.splits)

lemma seqE_assoc: "seqE (seqE a b) c = seqE a (seqE b c)"
  by (rule ext) (auto simp: seqE_def split: prod.splits option.splits)

lemma forE_Nil: "forE f [] = (\<lambda>s. (None, s))"
  by (rule ext) simp

lemma forE_Cons: "forE f (x # xs) = seqE (f x) (forE f xs)"
  by (rule ext) simp

lemma run_calls_None:
  "run_calls amqp steps s = (None, s') \<Longrightarrow>
    \<exists>rs. length rs = length steps \<and> (\<forall>r \<in> set rs. \<not> failed r)
      \<and> bk_calls s' = bk_calls s @ zip (map fst steps) rs"
proof (induction steps arbitrary: s)
  case Nil
  then show ?case by (simp add: run_calls_def)
next
  case (Cons x steps)
  obtain call wrap where x: "x = (call, wrap)" by (cases x)
  with Cons.prems obtain r s1 where step: "invoke amqp call s = (r, s1)" "\<not> failed r"
    and rest: "run_calls amqp steps s1 = (None, s')"
    by (auto simp: run_calls_def seqE_None try_call_None)
  from Cons.IH [OF rest] obtain rs where "length rs = length steps" "\<forall>r \<in> set rs. \<not> failed r"
    "bk_calls s' = bk_calls s1 @ zip (map fst steps) rs"
    by blast
  with step x show ?case
    by (intro exI [of _ "r # rs"]) (simp add: invoke_calls [OF step(1)])
qed

lemma run_calls_Some:
  "run_calls amqp steps s = (Some e, s') \<Longrightarrow>
    \<exists>k rs err. k < length steps \<and> length rs = k \<and> (\<forall>r \<in> set rs. \<not> failed r) \<and> e = snd (steps ! k) err
      \<and> bk_calls s' = bk_calls s @ zip (map fst (take k steps)) rs @ [(fst (steps ! k), RErr err)]"
proof (induction steps arbitrary: s)
  case Nil
  then show ?case by (simp add: run_calls_def)
next
  case (Cons x steps)
  obtain call wrap where x: "x = (call, wrap)" by (cases x)
  from Cons.prems have "(\<exists>err. invoke amqp call s = (RErr err, s') \<and> e = wrap err)
      \<or> (\<exists>r s1. invoke amqp call s = (r, s1) \<and> \<not> failed r \<and> run_calls amqp steps s1 = (Some e, s'))"
    by (auto simp: x run_calls_def seqE_Some try_call_Some try_call_None)
  then show ?case
  proof (elim disjE exE conjE)
    fix err assume "invoke amqp call s = (RErr err, s')" "e = wrap err"
    then show ?thesis
      by (intro exI [of _ 0] exI [of _ "[]"] exI [of _ err]) (simp add: x invoke_calls)
  next
    fix r s1 assume step: "invoke amqp call s = (r, s1)" "\<not> failed r"
      and rest: "run_calls amqp steps s1 = (Some e, s')"
    from Cons.IH [OF rest] obtain k rs err where "k < length steps" "length rs = k"
      "\<forall>r \<in> set rs. \<not> failed r" "e = snd (steps ! k) err"
      "bk_calls s' = bk_calls s1 @ zip (map fst (take k steps)) rs @ [(fst (steps ! k), RErr err)]"
      by blast
    with step show ?thesis
      by (intro exI [of _ "Suc k"] exI [of _ "r # rs"] exI [of _ err]) (simp add: x invoke_calls [OF step(1)])
  qed
qed

subsection \<open>The declared topology\<close>

definition lane_calls :: "Type \<times> Priority \<Rightarrow> amqp_call list" where
  "lane_calls = (\<lambda>(t, p). [QueueDeclare (QueueName t p) True False False False,
                          QueueBind (QueueName t p) (RoutingKey t p) Exchange False])"

definition lanes :: "(Type \<times> Priority) list" where
  "lanes = List.product allTypes allPriorities"

definition topology_calls :: "amqp_call list" where
  "topology_calls =
    ExchangeDeclare Exchange ''direct'' True False False False
    # concat (map lane_calls lanes)
    @ [QueueDeclare DeadLetterQueue True False False False,
       QueueBind DeadLetterQueue DeadLetterRoutingKey Exchange False]"

lemma DeclareTopology_run:
  "\<exists>steps. DeclareTopology amqp = run_calls amqp steps \<and> map fst steps = topology_calls
     \<and> (\<forall>(call, wrap) \<in> set steps. \<forall>err. errors_Is (wrap err) = errors_Is err)"
proof -
  let ?d = "\<lambda>q. (QueueDeclare q True False False False, \<lambda>e. Errorf [Lit ''declare queue '', Quoted q, Lit '': '', Cause] e)"
  let ?b = "\<lambda>q k. (QueueBind q k Exchange False, \<lambda>e. Errorf [Lit ''bind queue '', Quoted q, Lit '': '', Cause] e)"
  let ?lane = "\<lambda>t p. [?d (QueueName t p), ?b (QueueName t p) (RoutingKey t p)]"
  let ?steps = "[(ExchangeDeclare Exchange ''direct'' True False False False,
         \<lambda>e. Errorf [Lit ''declare exchange '', Quoted Exchange, Lit '': '', Cause] e)]
      @ concat (map (\<lambda>t. concat (map (?lane t) allPriorities)) allTypes)
      @ [(QueueDeclare DeadLetterQueue True False False False,
           \<lambda>e. Errorf [Lit ''declare dead-letter queue '', Quoted DeadLetterQueue, Lit '': '', Cause] e),
         (QueueBind DeadLetterQueue DeadLetterRoutingKey Exchange False,
           \<lambda>e. Errorf [Lit ''bind dead-letter queue '', Quoted DeadLetterQueue, Lit '': '', Cause] e)]"
  have "DeclareTopology amqp = run_calls amqp ?steps"
    by (simp add: DeclareTopology_def run_calls_def declareLane_def Let_def forE_Cons forE_Nil
        allTypes_def allPriorities_def seqE_return seqE_assoc)
  moreover have "map fst ?steps = topology_calls"
    by (simp add: topology_calls_def lane_calls_def lanes_def allTypes_def allPriorities_def)
  moreover have "\<forall>(call, wrap) \<in> set ?steps. \<forall>err. errors_Is (wrap err) = errors_Is err"
    by (auto simp: fun_eq_iff)
  ultimately show ?thesis by blast
qed

text \<open>The queues a direct exchange routes a key to: those that a successful call has bound
  with exactly this key.\<close>

definition binding :: "amqp_call \<times> amqp_reply \<Rightarrow> (string \<times> string) option" where
  "binding x =
    (case x of
       (QueueBind q k exch _, r) \<Rightarrow> if exch = Exchange \<and> \<not> failed r then Some (k, q) else None
     | _ \<Rightarrow> None)"

definition bound_queues :: "(amqp_call \<times> amqp_reply) list \<Rightarrow> string \<Rightarrow> string list" where
  "bound_queues h key =
    concat (map (\<lambda>x. case binding x of Some (k, q) \<Rightarrow> if k = key then [q] else [] | None \<Rightarrow> []) h)"

lemma bound_queues_append [simp]: "bound_queues (h @ h') key = bound_queues h key @ bound_queues h' key"
  by (simp add: bound_queues_def)

lemma binding_reply: "r \<noteq> ROk \<Longrightarrow> \<not> failed r \<Longrightarrow> binding (c, r) = binding (c, ROk)"
  by (simp add: binding_def split: amqp_call.split)

lemma bound_queues_replies:
  "length rs = length cs \<Longrightarrow> \<forall>r \<in> set rs. \<not> failed r \<Longrightarrow>
    bound_queues (zip cs rs) key = bound_queues (map (\<lambda>c. (c, ROk)) cs) key"
proof (induction rs cs rule: list_induct2)
  case (Cons r rs c cs)
  then show ?case
    by (cases "r = ROk") (auto simp: bound_queues_def binding_reply)
qed simp

definition lane_keys :: "string list" where
  "lane_keys = map (\<lambda>(t, p). RoutingKey t p) lanes"

lemma lane_bindings:
  "concat (map (\<lambda>x. case binding x of Some b \<Rightarrow> [b] | None \<Rightarrow> [])
     (map (\<lambda>c. (c, ROk)) (concat (map lane_calls ls)))) = map (\<lambda>(t, p). (RoutingKey t p, RoutingKey t p)) ls"
  by (induction ls) (auto simp: lane_calls_def binding_def QueueName_def)

lemma bound_queues_bindings:
  "bound_queues h key =
    map snd (filter (\<lambda>b. fst b = key) (concat (map (\<lambda>x. case binding x of Some b \<Rightarrow> [b] | None \<Rightarrow> []) h)))"
  by (induction h) (auto simp: bound_queues_def split: option.splits)

lemma filter_keys: "map snd (filter (\<lambda>b. fst b = key) (map (\<lambda>x. (f x, f x)) xs)) = filter (\<lambda>k. k = key) (map f xs)"
  by (induction xs) auto

lemma filter_distinct: "distinct ks \<Longrightarrow> filter (\<lambda>k. k = key) ks = (if key \<in> set ks then [key] else [])"
  by (induction ks) auto

lemma lane_keys_eval:
  "lane_keys = [''email.transactional'', ''email.bulk'', ''sms.transactional'', ''sms.bulk'', ''push.transactional'', ''push.bulk'']"
  by (simp add: lane_keys_def lanes_def allTypes_def allPriorities_def RoutingKey_def)

lemma lane_keys_distinct: "distinct lane_keys" "DeadLetterRoutingKey \<notin> set lane_keys"
  by (simp_all add: lane_keys_eval)

lemma topology_bindings:
  "concat (map (\<lambda>x. case binding x of Some b \<Rightarrow> [b] | None \<Rightarrow> []) (map (\<lambda>c. (c, ROk)) topology_calls)) =
    map (\<lambda>(t, p). (RoutingKey t p, RoutingKey t p)) lanes @ [(DeadLetterRoutingKey, DeadLetterQueue)]"
  using lane_bindings [of lanes] by (simp add: topology_calls_def binding_def)

lemma bound_queues_topology:
  "bound_queues (map (\<lambda>c. (c, ROk)) topology_calls) key =
    (if key \<in> set lane_keys then [key]
     else if key = DeadLetterRoutingKey then [DeadLetterQueue] else [])"
proof -
  have "bound_queues (map (\<lambda>c. (c, ROk)) topology_calls) key =
      filter (\<lambda>k. k = key) lane_keys @ (if DeadLetterRoutingKey = key then [DeadLetterQueue] else [])"
    by (simp only: bound_queues_bindings topology_bindings filter_append map_append case_prod_unfold filter_keys
        lane_keys_def) simp
  then show ?thesis
    using lane_keys_distinct by (simp add: filter_distinct)
qed

lemma valid_lane: "(t, p) \<in> set lanes \<longleftrightarrow> Type_IsValid t \<and> Priority_IsValid p"
  by (auto simp: lanes_def allTypes_def allPriorities_def Type_IsValid_def Priority_IsValid_def)

lemma RoutingKey_inject:
  assumes "Type_IsValid t" "Priority_IsValid p" "Type_IsValid t'" "Priority_IsValid p'"
    and "RoutingKey t p = RoutingKey t' p'"
  shows "t = t' \<and> p = p'"
  using assms by (auto simp: Type_IsValid_def Priority_IsValid_def RoutingKey_def)

lemma RoutingKey_not_dead: "Type_IsValid t \<Longrightarrow> RoutingKey t p \<noteq> DeadLetterRoutingKey"
  by (auto simp: Type_IsValid_def RoutingKey_def)

lemma DeclareTopology_calls:
  assumes "DeclareTopology amqp s = (None, s')"
  shows "\<exists>rs. length rs = length topology_calls \<and> (\<forall>r \<in> set rs. \<not> failed r)
    \<and> bk_calls s' = bk_calls s @ zip topology_calls rs"
proof -
  obtain steps where "DeclareTopology amqp = run_calls amqp steps" and steps: "map fst steps = topology_calls"
    using DeclareTopology_run by blast
  with assms have run: "run_calls amqp steps s = (None, s')" by simp
  have "length steps = length topology_calls"
    using arg_cong [OF steps, of length] by simp
  with run_calls_None [OF run] show ?thesis
    by (simp add: steps)
qed

lemma DeclareTopology_bindings:
  assumes "DeclareTopology amqp s = (None, s')"
  shows "bound_queues (bk_calls s') key = bound_queues (bk_calls s) key @
    (if key \<in> set lane_keys then [key]
     else if key = DeadLetterRoutingKey then [DeadLetterQueue] else [])"
  using DeclareTopology_calls [OF assms] bound_queues_replies bound_queues_topology by auto

lemma bound_queues_calls [simp]:
  "bound_queues ((Confirm b, r) # h) key = bound_queues h key"
  "bound_queues ((PublishDeferred c e k m i pub, r) # h) key = bound_queues h key"
  "bound_queues ((WaitConfirm c, r) # h) key = bound_queues h key"
  "bound_queues [] key = []"
  by (simp_all add: bound_queues_def binding_def)

lemma set_lane_keys:
  "key \<in> set lane_keys \<longleftrightarrow> (\<exists>t p. Type_IsValid t \<and> Priority_IsValid p \<and> key = RoutingKey t p)"
  by (simp add: lane_keys_def image_iff Bex_def valid_lane)

lemma NewPublisher_Inr:
  assumes "NewPublisher amqp opts s = (Inr p, s')" "bk_calls s = []"
  shows "(\<exists>r. \<not> failed r \<and> hd (bk_calls s') = (Confirm False, r))
    \<and> bound_queues (bk_calls s') key =
        (if key \<in> set lane_keys then [key]
         else if key = DeadLetterRoutingKey then [DeadLetterQueue] else [])"
proof -
  from assms(1) obtain r s1 where first: "invoke amqp (Confirm False) s = (r, s1)" "\<not> failed r"
    and rest: "DeclareTopology amqp s1 = (None, s')"
    by (auto simp: NewPublisher_def try_call_None split: prod.splits option.splits)
  have calls: "bk_calls s1 = [(Confirm False, r)]"
    using invoke_calls [OF first(1)] assms(2) by simp
  moreover obtain rs where "bk_calls s' = bk_calls s1 @ zip topology_calls rs"
    using DeclareTopology_calls [OF rest] by blast
  ultimately have "hd (bk_calls s') = (Confirm False, r)" by simp
  then show ?thesis
    using DeclareTopology_bindings [OF rest, of key] calls first(2) by auto
qed

subsection \<open>Confirmed publishes\<close>

text \<open>What the broker has acknowledged: the bodies whose publish went through and whose
  confirm, awaited next, was an ack.\<close>

definition published :: "amqp_call \<times> amqp_reply \<Rightarrow> (string \<times> string) option" where
  "published x =
    (case x of
       (PublishDeferred c exch key mandatory immediate pub, r) \<Rightarrow>
          if exch = Exchange \<and> \<not> failed r then Some (key, pub_Body pub) else None
     | _ \<Rightarrow> None)"

definition acknowledged :: "amqp_call \<times> amqp_reply \<Rightarrow> bool" where
  "acknowledged x \<longleftrightarrow> (case x of (WaitConfirm c, r) \<Rightarrow> r = RAcked True | _ \<Rightarrow> False)"

fun confirmed_calls :: "(amqp_call \<times> amqp_reply) list \<Rightarrow> (string \<times> string) list" where
  "confirmed_calls [] = []"
| "confirmed_calls [x] = []"
| "confirmed_calls (x # y # h) =
    (case published x of
       Some b \<Rightarrow> if acknowledged y then b # confirmed_calls (y # h) else confirmed_calls (y # h)
     | None \<Rightarrow> confirmed_calls (y # h))"

definition confirmed :: "'w broker \<Rightarrow> (string \<times> string) list" where
  "confirmed s = confirmed_calls (bk_calls s)"

lemma acknowledged_simps [simp]:
  "acknowledged (WaitConfirm c, r) \<longleftrightarrow> r = RAcked True"
  "\<not> acknowledged (PublishDeferred c e k m i pub, r)"
  "\<not> acknowledged (Ack_tag t mu, r)"
  "\<not> acknowledged (Nack_tag t mu rq, r)"
  by (simp_all add: acknowledged_def)

lemma published_simps [simp]:
  "published (WaitConfirm c, r) = None"
  "published (PublishDeferred c Exchange key m i pub, r) = (if failed r then None else Some (key, pub_Body pub))"
  by (simp_all add: published_def)

lemma confirmed_calls_append:
  "new = [] \<or> \<not> acknowledged (hd new) \<Longrightarrow>
    confirmed_calls (h @ new) = confirmed_calls h @ confirmed_calls new"
proof (induction h rule: confirmed_calls.induct)
  case (2 x)
  then show ?case by (cases new) (auto split: option.split)
qed (auto split: option.split)

lemma confirmed_settle:
  "confirmed (snd (invoke amqp (Ack_tag t mu) s)) = confirmed s"
  "confirmed (snd (invoke amqp (Nack_tag t mu rq) s)) = confirmed s"
  by (simp_all add: confirmed_def invoke_def confirmed_calls_append split: prod.split)

text \<open>The calls of a publish, by its outcome.\<close>

definition publishing :: "Message \<Rightarrow> string \<Rightarrow> Publishing" where
  "publishing m body =
    \<lparr>pub_ContentType = ''application/json'', pub_Persistent = True, pub_MessageId = m_ID m,
     pub_Timestamp = m_CreatedAt m, pub_Body = body\<rparr>"

definition publish_deadline :: "'w amqp \<Rightarrow> Publisher \<Rightarrow> ctx \<Rightarrow> 'w broker \<Rightarrow> ctx" where
  "publish_deadline amqp p c s = WithTimeout c (amqp_now amqp (bk_env s)) (pb_timeout p)"

lemma Publisher_publish_cases:
  assumes "Publisher_publish amqp marshal p c key m s = (res, s')"
  obtains
    (unmarshalled) err where "marshal m = Inl err" "s' = s"
      "res = Some (Errorf [Lit ''marshal notification '', Lit (m_ID m), Lit '': '', Cause] err)"
  | (rejected) body err where "marshal m = Inr body"
      "res = Some (Errorf [Lit ''publish notification '', Lit (m_ID m), Lit '': '', Cause] err)"
      "bk_calls s' = bk_calls s @
        [(PublishDeferred (publish_deadline amqp p c s) Exchange key False False (publishing m body), RErr err)]"
  | (waited) body r1 r2 where "marshal m = Inr body" "\<not> failed r1"
      "bk_calls s' = bk_calls s @
        [(PublishDeferred (publish_deadline amqp p c s) Exchange key False False (publishing m body), r1),
         (WaitConfirm (publish_deadline amqp p c s), r2)]"
      "res = (case r2 of
         RErr err \<Rightarrow> Some (Errorf [Lit ''await confirm for notification '', Lit (m_ID m), Lit '': '', Cause] err)
       | _ \<Rightarrow> if r2 = RAcked True then None
              else Some (Errorf [Cause, Lit '': notification '', Lit (m_ID m), Lit '' nacked by broker'']
                           (Sentinel ErrPublishFailed)))"
proof (cases "marshal m")
  case (Inl err)
  with assms show ?thesis by (intro unmarshalled) (auto simp: Publisher_publish_def)
next
  case (Inr body)
  let ?c = "publish_deadline amqp p c s"
  let ?call = "PublishDeferred ?c Exchange key False False (publishing m body)"
  obtain r1 s1 where call: "invoke amqp ?call s = (r1, s1)" by (cases "invoke amqp ?call s")
  obtain r2 s2 where wait: "invoke amqp (WaitConfirm ?c) s1 = (r2, s2)" by (cases "invoke amqp (WaitConfirm ?c) s1")
  note unfold = Publisher_publish_def publish_deadline_def [symmetric] publishing_def [symmetric] Let_def
  show ?thesis
  proof (cases "failed r1")
    case True
    then obtain err where "r1 = RErr err" by (cases r1) auto
    with assms Inr call show ?thesis
      by (intro rejected [OF Inr]) (auto simp: unfold dest: invoke_calls)
  next
    case False
    with assms Inr call wait have "s' = s2" and "res = (case r2 of
         RErr err \<Rightarrow> Some (Errorf [Lit ''await confirm for notification '', Lit (m_ID m), Lit '': '', Cause] err)
       | _ \<Rightarrow> if r2 = RAcked True then None
              else Some (Errorf [Cause, Lit '': notification '', Lit (m_ID m), Lit '' nacked by broker'']
                           (Sentinel ErrPublishFailed)))"
      by (auto simp: unfold split: amqp_reply.splits if_splits)
    then show ?thesis
      using False by (intro waited [OF Inr]) (simp_all add: invoke_calls [OF call] invoke_calls [OF wait])
  qed
qed


lemma confirmed_publish:
  assumes "Publisher_publish amqp marshal p c key m s = (res, s')"
  shows "(res = None \<longrightarrow> (\<exists>body. marshal m = Inr body \<and> confirmed s' = confirmed s @ [(key, body)]))
    \<and> (res \<noteq> None \<longrightarrow> confirmed s' = confirmed s)"
  using assms
proof (cases rule: Publisher_publish_cases)
  case (waited body r1 r2)
  then have "confirmed s' = confirmed s @ (if r2 = RAcked True then [(key, body)] else [])"
    by (simp add: confirmed_def confirmed_calls_append publishing_def)
  with waited show ?thesis by (cases r2) auto
qed (auto simp: confirmed_def confirmed_calls_append)

interpretation rabbit_pub: retry_publisher
    "Publisher_Publish amqp marshal p" marshal "\<lambda>m. RoutingKey (m_Type m) (m_Priority m)" confirmed
    "Publisher_PublishDeadLetter amqp marshal p" DeadLetterRoutingKey
  for amqp :: "'w amqp" and marshal p
  by unfold_locales
     (use confirmed_publish in \<open>fastforce simp: Publisher_Publish_def Publisher_PublishDeadLetter_def\<close>)+

subsection \<open>Answered deliveries\<close>

fun settlement_of :: "amqp_call \<Rightarrow> (nat \<times> settlement) option" where
  "settlement_of (Ack_tag tag False) = Some (tag, Acked)"
| "settlement_of (Nack_tag tag False requeue) = Some (tag, if requeue then Requeued else Discarded)"
| "settlement_of _ = None"

definition settled :: "'w broker \<Rightarrow> (nat \<times> settlement) list" where
  "settled s = List.map_filter (\<lambda>(call, reply). settlement_of call) (bk_calls s)"

lemma settled_invoke:
  "settled (snd (invoke amqp call s)) =
    settled s @ (case settlement_of call of None \<Rightarrow> [] | Some x \<Rightarrow> [x])"
  by (simp add: settled_def invoke_def List.map_filter_def split: prod.split option.split)

lemma try_call_state: "snd (try_call amqp wrap call s) = snd (invoke amqp call s)"
  by (simp add: try_call_def split: prod.split amqp_reply.split)

interpretation rabbit_delivery: delivery "as_delivery amqp" dl_Tag settled for amqp :: "'w amqp"
  by unfold_locales
     (simp_all add: as_delivery_def Delivery_Ack_def Delivery_Nack_def try_call_state settled_invoke)

text \<open>A broker for the examples: it accepts every call, and acknowledges each message with
  the flag that is its state.\<close>

definition sample_amqp :: "bool amqp" where
  "sample_amqp =
    \<lparr>amqp_invoke = (\<lambda>call w. (case call of WaitConfirm c \<Rightarrow> RAcked w | _ \<Rightarrow> ROk, w)), amqp_now = (\<lambda>w. 0)\<rparr>"

definition sample_broker :: "bool \<Rightarrow> bool broker" where
  "sample_broker acks = \<lparr>bk_env = acks, bk_calls = []\<rparr>"

subsection \<open>Properties\<close>

text \<open>C24. After a publisher has been made on a fresh channel, the channel is in confirm mode
  before anything else, every valid lane's routing key is bound to exactly the lane's own
  queue, the dead-letter key to exactly the dead-letter queue, and any other key to none.\<close>

theorem NewPublisher_topology:
  assumes "NewPublisher amqp opts s = (Inr p, s')" "bk_calls s = []"
  shows "(\<exists>r. \<not> failed r \<and> hd (bk_calls s') = (Confirm False, r))
    \<and> (\<forall>key. bound_queues (bk_calls s') key =
         (if \<exists>t pr. Type_IsValid t \<and> Priority_IsValid pr \<and> key = RoutingKey t pr then [key]
          else if key = DeadLetterRoutingKey then [DeadLetterQueue] else []))"
  using NewPublisher_Inr [OF assms] by (simp only: set_lane_keys [symmetric]) blast

theorem NewPublisher_topology_witness:
  "\<exists>s'. NewPublisher sample_amqp [] (sample_broker True) = (Inr \<lparr>pb_timeout = DefaultPublishTimeout\<rparr>, s')
     \<and> bound_queues (bk_calls s') ''dead'' = [''notifications.dead'']"
proof -
  have "\<exists>s'. NewPublisher sample_amqp [] (sample_broker True) = (Inr \<lparr>pb_timeout = DefaultPublishTimeout\<rparr>, s')"
    by (simp add: NewPublisher_def DeclareTopology_def declareLane_def allTypes_def allPriorities_def
        try_call_def invoke_def seqE_def sample_amqp_def Let_def)
  then obtain s' where run: "NewPublisher sample_amqp [] (sample_broker True)
      = (Inr \<lparr>pb_timeout = DefaultPublishTimeout\<rparr>, s')" by blast
  have "\<not> (\<exists>t pr. Type_IsValid t \<and> Priority_IsValid pr \<and> ''dead'' = RoutingKey t pr)"
    using RoutingKey_not_dead by metis
  with run NewPublisher_topology [OF run] show ?thesis
    by (auto simp: sample_broker_def)
qed

text \<open>C9. Publishing returns nil exactly when the broker has acknowledged the message, on the
  lane of its type and priority; with any other outcome nothing new is acknowledged.\<close>

theorem Publish_confirms:
  assumes "Publisher_Publish amqp marshal p c m s = (res, s')"
  shows "(res = None \<longleftrightarrow> (\<exists>body. marshal m = Inr body \<and>
             confirmed s' = confirmed s @ [(RoutingKey (m_Type m) (m_Priority m), body)]))
    \<and> (res \<noteq> None \<longleftrightarrow> confirmed s' = confirmed s)"
  using confirmed_publish assms by (fastforce simp: Publisher_Publish_def)

theorem Publish_confirms_witness:
  "\<exists>s'. Publisher_Publish sample_amqp (\<lambda>m. Inr (m_ID m)) \<lparr>pb_timeout = DefaultPublishTimeout\<rparr> Background
      (NewMessage sample_notification None) (sample_broker True) = (None, s')
     \<and> confirmed s' = [(''push.bulk'', ''notif_1'')]"
proof -
  have "\<exists>s'. Publisher_Publish sample_amqp (\<lambda>m. Inr (m_ID m)) \<lparr>pb_timeout = DefaultPublishTimeout\<rparr> Background
      (NewMessage sample_notification None) (sample_broker True) = (None, s')"
    by (simp add: Publisher_Publish_def Publisher_publish_def Let_def invoke_def sample_amqp_def sample_broker_def)
  then obtain s' where run: "Publisher_Publish sample_amqp (\<lambda>m. Inr (m_ID m)) \<lparr>pb_timeout = DefaultPublishTimeout\<rparr>
      Background (NewMessage sample_notification None) (sample_broker True) = (None, s')" by blast
  from Publish_confirms [OF run] run show ?thesis
    by (simp add: NewMessage_def sample_notification_def RoutingKey_def confirmed_def sample_broker_def)
qed

text \<open>C37. A publish makes at most two calls of the library: the message, persistent and to
  the exchange under the given key, then the wait for its confirm; both under one deadline,
  at most the publisher's timeout from now and never later than the caller's. When the broker refuses
  the message, the error is \<open>ErrPublishFailed\<close>.\<close>

theorem publish_bounded:
  assumes "Publisher_publish amqp marshal p c key m s = (res, s')"
  shows "\<exists>calls d. bk_calls s' = bk_calls s @ calls \<and> length calls \<le> 2
    \<and> d \<le> amqp_now amqp (bk_env s) + pb_timeout p \<and> (\<forall>t. ctx_deadline c = Some t \<longrightarrow> d \<le> t)
    \<and> (calls \<noteq> [] \<longrightarrow> (\<exists>c' pub r. hd calls = (PublishDeferred c' Exchange key False False pub, r)
          \<and> ctx_deadline c' = Some d \<and> pub_Persistent pub \<and> pub_MessageId pub = m_ID m
          \<and> (tl calls = [] \<longrightarrow> failed r)))
    \<and> (tl calls \<noteq> [] \<longrightarrow> (\<exists>c' r. tl calls = [(WaitConfirm c', r)] \<and> ctx_deadline c' = Some d
          \<and> (r = RAcked False \<longrightarrow> (\<exists>e. res = Some e \<and> errors_Is e ErrPublishFailed))))"
proof -
  define d where "d = (case ctx_deadline c of
      None \<Rightarrow> amqp_now amqp (bk_env s) + pb_timeout p | Some t \<Rightarrow> min t (amqp_now amqp (bk_env s) + pb_timeout p))"
  then have d: "ctx_deadline (publish_deadline amqp p c s) = Some d"
      "d \<le> amqp_now amqp (bk_env s) + pb_timeout p" "\<forall>t. ctx_deadline c = Some t \<longrightarrow> d \<le> t"
    by (auto simp: publish_deadline_def WithTimeout_def split: option.splits)
  show ?thesis
    using assms
  proof (cases rule: Publisher_publish_cases)
    case (unmarshalled err)
    with d show ?thesis by (intro exI [of _ "[]"] exI [of _ d]) simp
  next
    case (rejected body err)
    with d show ?thesis
      by (intro exI [of _ "[(PublishDeferred (publish_deadline amqp p c s) Exchange key False False
          (publishing m body), RErr err)]"] exI [of _ d]) (simp add: publishing_def)
  next
    case (waited body r1 r2)
    with d show ?thesis
      by (intro exI [of _ "[(PublishDeferred (publish_deadline amqp p c s) Exchange key False False
          (publishing m body), r1), (WaitConfirm (publish_deadline amqp p c s), r2)]"] exI [of _ d])
         (simp add: publishing_def)
  qed
qed

theorem publish_bounded_witness:
  "\<exists>s' calls. snd (Publisher_publish sample_amqp (\<lambda>m. Inr (m_ID m)) \<lparr>pb_timeout = 5\<rparr> Background ''dead''
      (NewMessage sample_notification None) (sample_broker False)) = s' \<and> bk_calls s' = calls \<and> length calls \<le> 2"
  using publish_bounded [OF surjective_pairing, of sample_amqp "\<lambda>m. Inr (m_ID m)" "\<lparr>pb_timeout = 5\<rparr>" Background
      "''dead''" "NewMessage sample_notification None" "sample_broker False"]
  by (auto simp: sample_broker_def)

text \<open>Dialing leaves no connection behind when it fails: on success the connection and
  its channel are open, on a failed dial nothing was opened, and when the channel cannot be
  opened the connection is closed again.\<close>

theorem Dial_closes:
  assumes "Dial amqp url s = (res, s')"
  shows "\<exists>calls. bk_calls s' = bk_calls s @ calls \<and>
    (case res of
       Inr conn \<Rightarrow> cn_conn conn \<and> cn_ch conn \<and> (\<exists>r1 r2. \<not> failed r1 \<and> \<not> failed r2
          \<and> calls = [(Dial_conn url, r1), (Open_channel, r2)])
     | Inl err \<Rightarrow> (\<exists>e. calls = [(Dial_conn url, RErr e)])
          \<or> (\<exists>r1 e r3. \<not> failed r1 \<and> calls = [(Dial_conn url, r1), (Open_channel, RErr e), (Close_conn, r3)]))"
proof -
  obtain r1 s1 where dial: "invoke amqp (Dial_conn url) s = (r1, s1)" by (cases "invoke amqp (Dial_conn url) s")
  obtain r2 s2 where chan: "invoke amqp Open_channel s1 = (r2, s2)" by (cases "invoke amqp Open_channel s1")
  obtain r3 s3 where close: "invoke amqp Close_conn s2 = (r3, s3)" by (cases "invoke amqp Close_conn s2")
  from assms show ?thesis
    using invoke_calls [OF dial] invoke_calls [OF chan] invoke_calls [OF close]
    by (cases r1; cases r2) (auto simp: Dial_def try_call_def dial chan close)
qed

theorem Dial_closes_witness:
  "\<exists>calls. bk_calls (snd (Dial sample_amqp ''amqp://localhost'' (sample_broker True))) = calls \<and> length calls = 2"
  using Dial_closes [OF surjective_pairing, of sample_amqp "''amqp://localhost''" "sample_broker True"]
  by (auto simp: Dial_def try_call_def invoke_def sample_amqp_def sample_broker_def)

text \<open>A failed topology declaration stops at the failing call: the calls before it are
  the beginning of the declaration, all successful, and none follows.\<close>

theorem DeclareTopology_stops:
  assumes "DeclareTopology amqp s = (Some e, s')"
  shows "\<exists>k rs err. k < length topology_calls \<and> length rs = k \<and> (\<forall>r \<in> set rs. \<not> failed r)
    \<and> bk_calls s' = bk_calls s @ zip (take k topology_calls) rs @ [(topology_calls ! k, RErr err)]
    \<and> errors_Is e = errors_Is err"
proof -
  obtain steps where steps: "DeclareTopology amqp = run_calls amqp steps" "map fst steps = topology_calls"
      and wraps: "\<forall>(call, wrap) \<in> set steps. \<forall>err. errors_Is (wrap err) = errors_Is err"
    using DeclareTopology_run by blast
  from steps assms have "run_calls amqp steps s = (Some e, s')" by simp
  from run_calls_Some [OF this] obtain k rs err where k: "k < length steps" "length rs = k"
      "\<forall>r \<in> set rs. \<not> failed r" "e = snd (steps ! k) err"
      "bk_calls s' = bk_calls s @ zip (map fst (take k steps)) rs @ [(fst (steps ! k), RErr err)]"
    by blast
  have "errors_Is e = errors_Is err"
    using wraps k(4) nth_mem [OF k(1)] by (cases "steps ! k") auto
  moreover have "map fst (take k steps) = take k topology_calls" "fst (steps ! k) = topology_calls ! k"
      "length steps = length topology_calls"
    using k(1) by (simp_all add: steps(2) [symmetric] take_map)
  ultimately show ?thesis
    using k by (intro exI [of _ k] exI [of _ rs] exI [of _ err]) simp
qed

text \<open>The broker of the witness refuses to declare any queue.\<close>

theorem DeclareTopology_stops_witness:
  "\<exists>s' e. DeclareTopology (sample_amqp\<lparr>amqp_invoke := \<lambda>call w.
        (case call of QueueDeclare q d a x n \<Rightarrow> RErr (External ''access refused'') | _ \<Rightarrow> ROk, w)\<rparr>) (sample_broker True)
      = (Some e, s')
    \<and> (\<exists>k < length topology_calls. fst (last (bk_calls s')) = topology_calls ! k)"
proof -
  let ?amqp = "sample_amqp\<lparr>amqp_invoke := \<lambda>call w.
        (case call of QueueDeclare q d a x n \<Rightarrow> RErr (External ''access refused'') | _ \<Rightarrow> ROk, w)\<rparr>"
  have "\<exists>s' e. DeclareTopology ?amqp (sample_broker True) = (Some e, s')"
    by (simp add: DeclareTopology_def declareLane_def allTypes_def allPriorities_def
        try_call_def invoke_def seqE_def sample_amqp_def sample_broker_def Let_def)
  then obtain s' e where run: "DeclareTopology ?amqp (sample_broker True) = (Some e, s')" by blast
  from DeclareTopology_stops [OF run] show ?thesis
    using run by auto
qed

end
