(* ===== verification/Send_Service.thy ===== *)
theory Send_Service
  imports Template_Service Rabbit
begin

text \<open>
  internal/app/notification/service.go: accepting a request. The service's two
  fields are the argument \<open>repo\<close>, the repository below the template service, and
  \<open>publish\<close>, the \<open>Publish\<close> method of its publisher on the state of the
  outside world. \<open>uuid\<close> and \<open>now\<close> are what \<open>New\<close> draws.
\<close>

record SendRequest =
  sr_Type :: Type
  sr_Priority :: Priority
  sr_Recipient :: Recipient
  sr_TemplateID :: string
  sr_TemplateData :: any_map
  sr_Metadata :: string_map

record SendResponse =
  sp_ID :: string
  sp_Status :: Status
  sp_CreatedAt :: int

record 'w NotificationService =
  ns_publisher :: "'w publish"
  ns_templateSvc :: TemplateService

definition NewService :: "'w publish \<Rightarrow> TemplateService \<Rightarrow> 'w NotificationService" where
  "NewService publish templateSvc = \<lparr>ns_publisher = publish, ns_templateSvc = templateSvc\<rparr>"

definition Service_Send ::
  "(string \<Rightarrow> string option) \<Rightarrow> Repository \<Rightarrow> 'w publish \<Rightarrow> string \<Rightarrow> int \<Rightarrow> ctx \<Rightarrow> SendRequest
    \<Rightarrow> 'w \<Rightarrow> SendResponse result \<times> 'w" where
  "Service_Send parse repo publish uuid now c req w =
    (let priority = (if sr_Priority req = [] then PriorityTransactional else sr_Priority req)
     in case Notification_New parse uuid now (sr_Type req) priority (sr_Recipient req) (sr_TemplateID req)
               (sr_TemplateData req) of
          Inl err \<Rightarrow> (Inl err, w)
        | Inr n \<Rightarrow>
           (case Service_Resolve repo (n_TemplateID n) (n_Type n) of
              Inl err \<Rightarrow> (Inl (Errorf [Lit ''failed to resolve template: '', Cause] err), w)
            | Inr tmpl \<Rightarrow>
               (let n' = n\<lparr>n_TemplateID := t_ID tmpl\<rparr>
                in case publish c (NewMessage n' (sr_Metadata req)) w of
                     (Some err, w') \<Rightarrow>
                       (Inl (Errorf [Lit ''failed to publish notification '', Lit (n_ID n'), Lit '': '', Cause] err), w')
                   | (None, w') \<Rightarrow>
                       (Inr \<lparr>sp_ID = n_ID n', sp_Status = n_Status n', sp_CreatedAt = n_CreatedAt n'\<rparr>, w'))))"

subsection \<open>The message of a request\<close>

definition request_priority :: "SendRequest \<Rightarrow> Priority" where
  "request_priority req = (if sr_Priority req = [] then PriorityTransactional else sr_Priority req)"

definition valid_request :: "(string \<Rightarrow> string option) \<Rightarrow> SendRequest \<Rightarrow> bool" where
  "valid_request parse req \<longleftrightarrow>
    Priority_IsValid (request_priority req) \<and> channel_ok parse (sr_Type req) (sr_Recipient req)"

definition request_message :: "string \<Rightarrow> int \<Rightarrow> SendRequest \<Rightarrow> Template \<Rightarrow> Message" where
  "request_message uuid now req tmpl =
    \<lparr>m_ID = uuid, m_Type = sr_Type req, m_Priority = request_priority req, m_Recipient = sr_Recipient req,
     m_TemplateID = t_ID tmpl, m_TemplateData = sr_TemplateData req, m_Metadata = sr_Metadata req,
     m_CreatedAt = now, m_RetryCount = 0\<rparr>"

lemma valid_request_message: "valid_request parse req \<Longrightarrow> valid_message parse (request_message uuid now req tmpl)"
  using channel_ok_Type [of parse "sr_Type req" "sr_Recipient req"]
  by (simp add: valid_request_def valid_message_def request_message_def)

lemma valid_request_New:
  "valid_request parse req \<longleftrightarrow> (\<exists>n. Notification_New parse uuid now (sr_Type req) (request_priority req)
     (sr_Recipient req) tid td = Inr n)"
  using channel_ok_Type [of parse "sr_Type req" "sr_Recipient req"]
  by (auto simp: valid_request_def Notification_New_Inr)

text \<open>The three ways a request goes: refused, without a template, or published.\<close>

lemma Service_Send_cases:
  assumes "Service_Send parse repo publish uuid now c req w = (res, w')"
  obtains
    (invalid) e where "\<not> valid_request parse req" "w' = w" "res = Inl e"
      "Notification_New parse uuid now (sr_Type req) (request_priority req) (sr_Recipient req)
         (sr_TemplateID req) (sr_TemplateData req) = Inl e"
  | (unresolved) e where "valid_request parse req" "w' = w"
      "Service_Resolve repo (sr_TemplateID req) (sr_Type req) = Inl e"
      "res = Inl (Errorf [Lit ''failed to resolve template: '', Cause] e)"
  | (published) tmpl r where "valid_request parse req"
      "Service_Resolve repo (sr_TemplateID req) (sr_Type req) = Inr tmpl"
      "publish c (request_message uuid now req tmpl) w = (r, w')"
      "res = (case r of
         None \<Rightarrow> Inr \<lparr>sp_ID = uuid, sp_Status = StatusPending, sp_CreatedAt = now\<rparr>
       | Some e \<Rightarrow> Inl (Errorf [Lit ''failed to publish notification '', Lit uuid, Lit '': '', Cause] e))"
proof (cases "Notification_New parse uuid now (sr_Type req) (request_priority req) (sr_Recipient req)
    (sr_TemplateID req) (sr_TemplateData req)")
  case (Inl e)
  then have "\<not> valid_request parse req"
    by (simp add: valid_request_New [of parse req uuid now "sr_TemplateID req" "sr_TemplateData req"])
  with Inl assms show ?thesis
    by (intro invalid) (auto simp: Service_Send_def request_priority_def Let_def split: if_splits)
next
  case (Inr n)
  note n = Inr [unfolded Notification_New_Inr]
  with Inr have valid: "valid_request parse req"
    by (simp add: valid_request_def)
  show ?thesis
  proof (cases "Service_Resolve repo (sr_TemplateID req) (sr_Type req)")
    case (Inl e)
    with Inr n assms show ?thesis
      by (intro unresolved [OF valid]) (auto simp: Service_Send_def request_priority_def [symmetric] Let_def)
  next
    case (Inr tmpl)
    obtain r w1 where "publish c (request_message uuid now req tmpl) w = (r, w1)"
      by (cases "publish c (request_message uuid now req tmpl) w")
    with Inr n assms \<open>Notification_New _ _ _ _ _ _ _ _ = Inr n\<close> show ?thesis
      by (intro published [OF valid Inr, of r])
         (auto simp: Service_Send_def request_priority_def [symmetric] Let_def NewMessage_def request_message_def
           split: option.splits)
  qed
qed

subsection \<open>The service over its two interfaces\<close>

locale send_service =
  template_repository repository invar + publisher Publish marshal lane confirmed
  for repository :: "'r \<Rightarrow> Repository" and invar
    and Publish :: "'w publish" and marshal lane and confirmed :: "'w \<Rightarrow> (string \<times> string) list"
begin

lemma Send_Inr:
  assumes "Service_Send parse (repository r) Publish uuid now c req w = (Inr resp, w')"
  shows "\<exists>tmpl body. valid_request parse req
    \<and> Service_Resolve (repository r) (sr_TemplateID req) (sr_Type req) = Inr tmpl
    \<and> marshal (request_message uuid now req tmpl) = Inr body
    \<and> confirmed w' = confirmed w @ [(lane (request_message uuid now req tmpl), body)]
    \<and> resp = \<lparr>sp_ID = uuid, sp_Status = StatusPending, sp_CreatedAt = now\<rparr>"
  using assms
proof (cases rule: Service_Send_cases)
  case (published tmpl x)
  then show ?thesis by (cases x) (auto dest!: Publish_nil)
qed simp_all

lemma Send_Inl_confirmed:
  assumes "Service_Send parse (repository r) Publish uuid now c req w = (Inl e, w')"
  shows "confirmed w' = confirmed w"
  using assms
proof (cases rule: Service_Send_cases)
  case (published tmpl x)
  then show ?thesis by (cases x) (auto dest!: Publish_err)
qed simp_all

lemma Send_unresolved:
  assumes "Service_Send parse (repository r) Publish uuid now c req w = (Inl e, w')"
    and "valid_request parse req"
    and "\<nexists>tmpl. Service_Resolve (repository r) (sr_TemplateID req) (sr_Type req) = Inr tmpl"
  shows "w' = w \<and> errors_Is e (if sr_TemplateID req = [] then ErrNoDefaultTemplate else ErrTemplateNotFound)
    \<and> errors_As is_ValidationError e = None"
  using assms(1)
proof (cases rule: Service_Send_cases)
  case (unresolved e')
  then show ?thesis using Resolve_Inl [OF unresolved(3)] by simp
qed (use assms in auto)

end

interpretation rabbit_send: send_service
    "file_Repository it" repo_inv
    "Publisher_Publish amqp marshal p" marshal "\<lambda>m. RoutingKey (m_Type m) (m_Priority m)" confirmed
  for it and amqp :: "'w amqp" and marshal p
  by (rule send_service.intro [OF file_repo.template_repository_axioms rabbit_pub.publisher_axioms])

subsection \<open>A concrete request\<close>

definition sample_request :: SendRequest where
  "sample_request =
    \<lparr>sr_Type = TypeEmail, sr_Priority = [], sr_Recipient = NewEmailRecipient ''user@example.com'' [],
     sr_TemplateID = [], sr_TemplateData = None, sr_Metadata = None\<rparr>"

lemma sample_valid: "valid_request Some sample_request"
proof -
  have "NewEmailAddress Some ''user@example.com'' = Inr \<lparr>ea_value = ''user@example.com''\<rparr>"
    by code_simp
  then show ?thesis
    by (simp add: valid_request_def channel_ok_def sample_request_def request_priority_def Priority_IsValid_def
        NewEmailRecipient_def)
qed

definition sample_message :: Message where
  "sample_message =
    \<lparr>m_ID = ''notif_1'', m_Type = TypeEmail, m_Priority = PriorityTransactional,
     m_Recipient = NewEmailRecipient ''user@example.com'' [], m_TemplateID = ''default'', m_TemplateData = None,
     m_Metadata = None, m_CreatedAt = 7, m_RetryCount = 0\<rparr>"

definition sample_marshal :: "Message \<Rightarrow> string result" where
  "sample_marshal m = Inr (m_ID m)"

definition sample_publisher :: Publisher where
  "sample_publisher = \<lparr>pb_timeout = DefaultPublishTimeout\<rparr>"

lemma sample_resolves:
  "Service_Resolve (file_Repository sample_iteration sample_repository) [] TypeEmail = Inr sample_default"
  by (simp add: Service_Resolve_def file_Repository_def FileRepository_GetDefault_def type_map_def sample_repository_def)

lemma sample_send:
  "\<exists>s'. Service_Send Some (file_Repository sample_iteration sample_repository)
      (Publisher_Publish sample_amqp sample_marshal sample_publisher) ''notif_1'' 7 Background sample_request
      (sample_broker True) = (Inr \<lparr>sp_ID = ''notif_1'', sp_Status = StatusPending, sp_CreatedAt = 7\<rparr>, s')"
proof -
  have publish: "\<exists>s'. Publisher_Publish sample_amqp sample_marshal sample_publisher Background m (sample_broker True)
      = (None, s')" for m
    by (simp add: Publisher_Publish_def Publisher_publish_def Let_def invoke_def sample_amqp_def sample_broker_def
        sample_marshal_def)
  obtain res s' where run: "Service_Send Some (file_Repository sample_iteration sample_repository)
      (Publisher_Publish sample_amqp sample_marshal sample_publisher) ''notif_1'' 7 Background sample_request
      (sample_broker True) = (res, s')"
    by fastforce
  then show ?thesis
  proof (cases rule: Service_Send_cases)
    case (published tmpl r)
    with publish [of "request_message ''notif_1'' 7 sample_request tmpl"] run show ?thesis by auto
  qed (use sample_valid sample_resolves in \<open>simp_all add: sample_request_def\<close>)
qed

subsection \<open>Properties\<close>

text \<open>C4. An accepted request: exactly one new message is confirmed by the broker, on the lane
  of the request's type and priority (transactional when none is given). It is valid, has
  the ID of the response, has not been retried, and carries the ID of the template the
  request resolves to, so that resolving it again gives that template. The response is
  pending.\<close>

theorem Service_Send_accepted:
  assumes "filesystem_ok fs" "NewFileRepository fs yaml rootDir = Inr repo"
    and "Service_Send parse (file_Repository it repo) (Publisher_Publish amqp marshal p) uuid now c req s
         = (Inr resp, s')"
  shows "\<exists>m body. marshal m = Inr body
    \<and> confirmed s' = confirmed s @ [(RoutingKey (sr_Type req) (m_Priority m), body)]
    \<and> valid_message parse m \<and> m_Type m = sr_Type req \<and> m_Recipient m = sr_Recipient req
    \<and> m_Priority m = (if sr_Priority req = [] then PriorityTransactional else sr_Priority req)
    \<and> m_TemplateData m = sr_TemplateData req \<and> m_Metadata m = sr_Metadata req
    \<and> m_RetryCount m = 0 \<and> m_TemplateID m \<noteq> []
    \<and> Service_Resolve (file_Repository it' repo) (m_TemplateID m) (m_Type m)
        = Service_Resolve (file_Repository it repo) (sr_TemplateID req) (sr_Type req)
    \<and> resp = \<lparr>sp_ID = m_ID m, sp_Status = StatusPending, sp_CreatedAt = m_CreatedAt m\<rparr>"
proof -
  from rabbit_send.Send_Inr [OF assms(3)] obtain tmpl body where valid: "valid_request parse req"
    and tmpl: "Service_Resolve (file_Repository it repo) (sr_TemplateID req) (sr_Type req) = Inr tmpl"
    and sent: "marshal (request_message uuid now req tmpl) = Inr body"
      "confirmed s' = confirmed s @ [(RoutingKey (m_Type (request_message uuid now req tmpl))
         (m_Priority (request_message uuid now req tmpl)), body)]"
      "resp = \<lparr>sp_ID = uuid, sp_Status = StatusPending, sp_CreatedAt = now\<rparr>"
    by blast
  note inv = NewFileRepository_repo_inv [OF assms(1,2)]
  have "Service_Resolve (file_Repository it' repo) (t_ID tmpl) (sr_Type req) = Inr tmpl" "t_ID tmpl \<noteq> []"
    using file_repo.Resolve_stable [OF inv tmpl] file_repo.Resolve_Inr [OF inv tmpl]
    by (simp_all add: Service_Resolve_def file_Repository_def)
  with sent tmpl valid_request_message [OF valid, of uuid now tmpl] show ?thesis
    by (intro exI [of _ "request_message uuid now req tmpl"] exI [of _ body])
       (simp add: request_message_def request_priority_def)
qed

theorem Service_Send_accepted_witness:
  "\<exists>s' m. Service_Send Some (file_Repository sample_iteration sample_repository)
      (Publisher_Publish sample_amqp sample_marshal sample_publisher) ''notif_1'' 7 Background sample_request
      (sample_broker True) = (Inr \<lparr>sp_ID = ''notif_1'', sp_Status = StatusPending, sp_CreatedAt = 7\<rparr>, s')
    \<and> confirmed s' = [(''email.transactional'', ''notif_1'')] \<and> valid_message Some m \<and> m_ID m = ''notif_1''"
proof -
  obtain s' where run: "Service_Send Some (file_Repository sample_iteration sample_repository)
      (Publisher_Publish sample_amqp sample_marshal sample_publisher) ''notif_1'' 7 Background sample_request
      (sample_broker True) = (Inr \<lparr>sp_ID = ''notif_1'', sp_Status = StatusPending, sp_CreatedAt = 7\<rparr>, s')"
    using sample_send by blast
  have "confirmed (sample_broker True) = []"
    by (simp add: confirmed_def sample_broker_def)
  with Service_Send_accepted [OF sample_fs_ok sample_repository_loads run, where it' = sample_iteration] run show ?thesis
    by (auto simp: sample_request_def sample_marshal_def RoutingKey_def)
qed

text \<open>C25. A refused request leaves nothing confirmed. An invalid one is a
  \<open>ValidationError\<close> and a valid one without a template the matching template error; neither
  reaches the broker. Otherwise the broker did not confirm the message.\<close>

theorem Service_Send_refused:
  assumes "Service_Send parse (file_Repository it repo) (Publisher_Publish amqp marshal p) uuid now c req s
      = (Inl e, s')"
  shows "confirmed s' = confirmed s
    \<and> (if \<not> valid_request parse req then s' = s \<and> (\<exists>field cause. e = ValidationError field cause)
       else case Service_Resolve (file_Repository it repo) (sr_TemplateID req) (sr_Type req) of
         Inl _ \<Rightarrow> s' = s \<and> errors_As is_ValidationError e = None
            \<and> errors_Is e (if sr_TemplateID req = [] then ErrNoDefaultTemplate else ErrTemplateNotFound)
       | Inr tmpl \<Rightarrow> (\<exists>cause. Publisher_Publish amqp marshal p c (request_message uuid now req tmpl) s = (Some cause, s')
            \<and> errors_Is e = errors_Is cause))"
  using assms
proof (cases rule: Service_Send_cases)
  case (invalid e')
  then show ?thesis by (auto dest: Notification_New_Inl)
next
  case (unresolved e')
  then show ?thesis using file_repo.Resolve_Inl [OF unresolved(3)] by auto
next
  case (published tmpl r)
  then obtain cause where "r = Some cause" "e = Errorf [Lit ''failed to publish notification '', Lit uuid, Lit '': '', Cause] cause"
    by (cases r) auto
  with published rabbit_send.Send_Inl_confirmed [OF assms] show ?thesis
    by (auto simp: fun_eq_iff)
qed

theorem Service_Send_refused_witness:
  "\<exists>e s'. Service_Send Some (file_Repository sample_iteration sample_repository)
      (Publisher_Publish sample_amqp sample_marshal sample_publisher) ''notif_1'' 7 Background
      (sample_request\<lparr>sr_TemplateID := ''missing''\<rparr>) (sample_broker True) = (Inl e, s')
    \<and> s' = sample_broker True \<and> errors_Is e ErrTemplateNotFound"
proof -
  let ?req = "sample_request\<lparr>sr_TemplateID := ''missing''\<rparr>"
  have valid: "valid_request Some ?req"
    using sample_valid by (simp add: valid_request_def request_priority_def sample_request_def)
  have missing: "\<exists>e. Service_Resolve (file_Repository sample_iteration sample_repository) ''missing'' TypeEmail = Inl e"
    by (simp add: Service_Resolve_def file_Repository_def FileRepository_Get_def type_map_def sample_repository_def)
  then obtain err where err: "Service_Resolve (file_Repository sample_iteration sample_repository) ''missing'' TypeEmail = Inl err"
    by blast
  have "\<exists>e s'. Service_Send Some (file_Repository sample_iteration sample_repository)
      (Publisher_Publish sample_amqp sample_marshal sample_publisher) ''notif_1'' 7 Background ?req (sample_broker True)
      = (Inl e, s')" (is "\<exists>e s'. ?run = (Inl e, s')")
  proof -
    obtain res s' where run: "?run = (res, s')" by fastforce
    then have "\<exists>e. res = Inl e"
      by (cases rule: Service_Send_cases) (use err in \<open>simp_all add: sample_request_def\<close>)
    with run show ?thesis by blast
  qed
  then obtain e s' where run: "?run = (Inl e, s')" by blast
  from Service_Send_refused [OF run] run valid err show ?thesis
    by (auto simp: sample_request_def)
qed

end
