(* ===== verification/Processor_Port.thy ===== *)
theory Processor_Port
  imports Notification
begin

text \<open>
  The processor interface of internal/transport/queue/consumer.go, on a state of
  the outside world whose calls so far are \<open>calls\<close>. The contract: a message the
  processor rejects gets a \<open>PermanentError\<close> without any call to the outside, and
  whether it is rejected depends on the message alone; for any other message the
  outside is called, and nil is returned only when the last call succeeded.
\<close>

locale processor =
  fixes Process :: "ctx \<Rightarrow> Message \<Rightarrow> 'p \<Rightarrow> go_error option \<times> 'p"
    and rejects :: "Message \<Rightarrow> go_error option"
    and calls :: "'p \<Rightarrow> ('c \<times> go_error option) list"
  assumes reject: "rejects m = Some e \<Longrightarrow> Process c m s = (Some e, s)"
    and reject_permanent: "rejects m = Some e \<Longrightarrow> errors_As is_PermanentError e \<noteq> None"
    and attempt: "rejects m = None \<Longrightarrow> Process c m s = (res, s') \<Longrightarrow>
      \<exists>new. calls s' = calls s @ new \<and> new \<noteq> [] \<and> (res = None \<longleftrightarrow> snd (last new) = None)"
begin

lemma Process_nil_calls:
  assumes "Process c m s = (None, s')"
  shows "rejects m = None \<and> (\<exists>new call. calls s' = calls s @ new @ [(call, None)])"
proof -
  have "rejects m = None"
    using assms reject by (cases "rejects m") auto
  with attempt [OF this assms] show ?thesis
    by (metis append_butlast_last_id prod.collapse)
qed

end

end
