(* ===== verification/Processors.thy ===== *)
theory Processors
  imports Send_Service Processor_Port
begin

text \<open>
  internal/app/notification/renderer.go and the three processors, and
  \<open>buildProcessor\<close> with its stub senders from cmd/worker/main.go. The limiter of
  golang.org/x/time/rate and the provider's sender are the parameter \<open>outside\<close>:
  it answers each call the processors make on them with an error or nil. As in
  \<open>Rabbit\<close>, the state keeps the environment and the calls made so far with
  their replies. The template engines and the address parser are parameters as
  in \<open>Template\<close> and \<open>Provider\<close>.
\<close>

datatype out_call =
    LimiterWait ctx
  | SendEmail ctx EmailMessage
  | SendSMS ctx SMSMessage
  | SendPush ctx PushMessage

type_synonym 'w outside = "out_call \<Rightarrow> 'w \<Rightarrow> go_error option \<times> 'w"

record 'w outbound =
  ob_env :: 'w
  ob_calls :: "(out_call \<times> go_error option) list"

definition out_invoke ::
  "'w outside \<Rightarrow> (go_error \<Rightarrow> go_error) \<Rightarrow> out_call \<Rightarrow> 'w outbound \<Rightarrow> go_error option \<times> 'w outbound" where
  "out_invoke outside wrap call s =
    (let (reply, env) = outside call (ob_env s)
     in (map_option wrap reply, s\<lparr>ob_env := env, ob_calls := ob_calls s @ [(call, reply)]\<rparr>))"

type_synonym 'w process = "ctx \<Rightarrow> Message \<Rightarrow> 'w outbound \<Rightarrow> go_error option \<times> 'w outbound"

record Renderer =
  rn_templateSvc :: TemplateService

definition NewRenderer :: "TemplateService \<Rightarrow> Renderer" where
  "NewRenderer templateSvc = \<lparr>rn_templateSvc = templateSvc\<rparr>"

definition Renderer_Render :: "('x, 'h) engines \<Rightarrow> Repository \<Rightarrow> Message \<Rightarrow> RenderedContent result" where
  "Renderer_Render eng repo msg =
    (case Service_Resolve repo (m_TemplateID msg) (m_Type msg) of
       Inl err \<Rightarrow> Inl (newPermanentError (Errorf [Lit ''resolve template: '', Cause] err))
     | Inr tmpl \<Rightarrow>
        (case Template_Render eng tmpl (m_TemplateData msg) of
           Inl err \<Rightarrow> Inl (newPermanentError (Errorf [Lit ''render template: '', Cause] err))
         | Inr content \<Rightarrow> Inr content))"

definition EmailProcessor_Process ::
  "'w outside \<Rightarrow> (string \<Rightarrow> string option) \<Rightarrow> ('x, 'h) engines \<Rightarrow> Repository \<Rightarrow> 'w process" where
  "EmailProcessor_Process outside parse eng repo c msg s =
    (case Renderer_Render eng repo msg of
       Inl err \<Rightarrow> (Some err, s)
     | Inr content \<Rightarrow>
        (case NewEmailAddress parse (rc_Email (m_Recipient msg)) of
           Inl err \<Rightarrow> (Some (newPermanentError (Errorf [Lit ''invalid email recipient: '', Cause] err)), s)
         | Inr addr \<Rightarrow>
            (case NewEmailMessage addr (rd_Subject content) (rd_Body content) of
               Inl err \<Rightarrow> (Some (newPermanentError (Errorf [Lit ''build email message: '', Cause] err)), s)
             | Inr email \<Rightarrow>
                seqE (out_invoke outside (\<lambda>e. Errorf [Lit ''rate limiter wait: '', Cause] e) (LimiterWait c))
                     (out_invoke outside (\<lambda>e. Errorf [Lit ''send email: '', Cause] e) (SendEmail c email)) s)))"

definition SMSProcessor_Process ::
  "'w outside \<Rightarrow> ('x, 'h) engines \<Rightarrow> Repository \<Rightarrow> 'w process" where
  "SMSProcessor_Process outside eng repo c msg s =
    (case Renderer_Render eng repo msg of
       Inl err \<Rightarrow> (Some err, s)
     | Inr content \<Rightarrow>
        (case NewPhoneNumber (rc_PhoneNumber (m_Recipient msg)) of
           Inl err \<Rightarrow> (Some (newPermanentError (Errorf [Lit ''invalid phone recipient: '', Cause] err)), s)
         | Inr phone \<Rightarrow>
            (case NewSMSMessage phone (rd_Body content) of
               Inl err \<Rightarrow> (Some (newPermanentError (Errorf [Lit ''build sms message: '', Cause] err)), s)
             | Inr sms \<Rightarrow>
                seqE (out_invoke outside (\<lambda>e. Errorf [Lit ''rate limiter wait: '', Cause] e) (LimiterWait c))
                     (out_invoke outside (\<lambda>e. Errorf [Lit ''send sms: '', Cause] e) (SendSMS c sms)) s)))"

definition PushProcessor_Process ::
  "'w outside \<Rightarrow> ('x, 'h) engines \<Rightarrow> Repository \<Rightarrow> 'w process" where
  "PushProcessor_Process outside eng repo c msg s =
    (case Renderer_Render eng repo msg of
       Inl err \<Rightarrow> (Some err, s)
     | Inr content \<Rightarrow>
        (case NewDeviceToken (rc_DeviceToken (m_Recipient msg)) of
           Inl err \<Rightarrow> (Some (newPermanentError (Errorf [Lit ''invalid device token: '', Cause] err)), s)
         | Inr token \<Rightarrow>
            (case NewPushMessage token (rd_Subject content) (rd_Body content) (rd_Data content) of
               Inl err \<Rightarrow> (Some (newPermanentError (Errorf [Lit ''build push message: '', Cause] err)), s)
             | Inr push \<Rightarrow>
                seqE (out_invoke outside (\<lambda>e. Errorf [Lit ''rate limiter wait: '', Cause] e) (LimiterWait c))
                     (out_invoke outside (\<lambda>e. Errorf [Lit ''send push: '', Cause] e) (SendPush c push)) s)))"

text \<open>The three structs. A sender and the limiter are what their methods do on the outside world; a
  processor calls no sender but its own.\<close>

type_synonym ('m, 'w) sender = "ctx \<Rightarrow> 'm \<Rightarrow> 'w \<Rightarrow> go_error option \<times> 'w"
type_synonym 'w limiter = "ctx \<Rightarrow> 'w \<Rightarrow> go_error option \<times> 'w"

definition processor_outside ::
  "'w limiter \<Rightarrow> (EmailMessage, 'w) sender \<Rightarrow> (SMSMessage, 'w) sender \<Rightarrow> (PushMessage, 'w) sender \<Rightarrow> 'w outside" where
  "processor_outside limiter_Wait email sms push call w =
    (case call of
       LimiterWait c \<Rightarrow> limiter_Wait c w
     | SendEmail c m \<Rightarrow> email c m w
     | SendSMS c m \<Rightarrow> sms c m w
     | SendPush c m \<Rightarrow> push c m w)"

definition no_sender :: "('m, 'w) sender" where
  "no_sender c m w = (None, w)"

record 'w EmailProcessor =
  ep_renderer :: Renderer
  ep_sender :: "(EmailMessage, 'w) sender"
  ep_limiter :: "'w limiter"

definition NewEmailProcessor :: "Renderer \<Rightarrow> (EmailMessage, 'w) sender \<Rightarrow> 'w limiter \<Rightarrow> 'w EmailProcessor" where
  "NewEmailProcessor renderer sender limiter_Wait = \<lparr>ep_renderer = renderer, ep_sender = sender, ep_limiter = limiter_Wait\<rparr>"

record 'w SMSProcessor =
  sp_renderer :: Renderer
  sp_sender :: "(SMSMessage, 'w) sender"
  sp_limiter :: "'w limiter"

definition NewSMSProcessor :: "Renderer \<Rightarrow> (SMSMessage, 'w) sender \<Rightarrow> 'w limiter \<Rightarrow> 'w SMSProcessor" where
  "NewSMSProcessor renderer sender limiter_Wait = \<lparr>sp_renderer = renderer, sp_sender = sender, sp_limiter = limiter_Wait\<rparr>"

record 'w PushProcessor =
  pp_renderer :: Renderer
  pp_sender :: "(PushMessage, 'w) sender"
  pp_limiter :: "'w limiter"

definition NewPushProcessor :: "Renderer \<Rightarrow> (PushMessage, 'w) sender \<Rightarrow> 'w limiter \<Rightarrow> 'w PushProcessor" where
  "NewPushProcessor renderer sender limiter_Wait = \<lparr>pp_renderer = renderer, pp_sender = sender, pp_limiter = limiter_Wait\<rparr>"

definition email_method :: "(string \<Rightarrow> string option) \<Rightarrow> ('x, 'h) engines \<Rightarrow> 'w EmailProcessor \<Rightarrow> 'w process" where
  "email_method parse eng p =
    EmailProcessor_Process (processor_outside (ep_limiter p) (ep_sender p) no_sender no_sender) parse eng
      (ts_repo (rn_templateSvc (ep_renderer p)))"

definition sms_method :: "('x, 'h) engines \<Rightarrow> 'w SMSProcessor \<Rightarrow> 'w process" where
  "sms_method eng p =
    SMSProcessor_Process (processor_outside (sp_limiter p) no_sender (sp_sender p) no_sender) eng
      (ts_repo (rn_templateSvc (sp_renderer p)))"

definition push_method :: "('x, 'h) engines \<Rightarrow> 'w PushProcessor \<Rightarrow> 'w process" where
  "push_method eng p =
    PushProcessor_Process (processor_outside (pp_limiter p) no_sender no_sender (pp_sender p)) eng
      (ts_repo (rn_templateSvc (pp_renderer p)))"

text \<open>The stub senders accept and drop every message; only the limiter stays outside.\<close>

definition stubEmailSender_Send :: "(EmailMessage, 'w) sender" where
  "stubEmailSender_Send c m w = (None, w)"

definition stubSMSSender_Send :: "(SMSMessage, 'w) sender" where
  "stubSMSSender_Send c m w = (None, w)"

definition stubPushSender_Send :: "(PushMessage, 'w) sender" where
  "stubPushSender_Send c m w = (None, w)"

definition buildProcessor ::
  "(string \<Rightarrow> string option) \<Rightarrow> ('x, 'h) engines \<Rightarrow> Type \<Rightarrow> Renderer \<Rightarrow> 'w limiter \<Rightarrow> 'w process result" where
  "buildProcessor parse eng notifType renderer limiter_Wait =
    (if notifType = TypeEmail then Inr (email_method parse eng (NewEmailProcessor renderer stubEmailSender_Send limiter_Wait))
     else if notifType = TypeSMS then Inr (sms_method eng (NewSMSProcessor renderer stubSMSSender_Send limiter_Wait))
     else if notifType = TypePush then Inr (push_method eng (NewPushProcessor renderer stubPushSender_Send limiter_Wait))
     else Inl (ErrorfNew [Lit ''unknown worker type '', Quoted notifType]))"

text \<open>The outside of a worker with stub senders.\<close>

definition stub_senders :: "'w limiter \<Rightarrow> 'w outside" where
  "stub_senders limiter_Wait = processor_outside limiter_Wait stubEmailSender_Send stubSMSSender_Send stubPushSender_Send"

subsection \<open>The processors' contract\<close>

text \<open>What a processor does, in two parts: a message is rejected before anything is called, or
  it makes one call of a sender. Rejection depends on the message, the repository and the
  template engines alone.\<close>

definition prepare ::
  "(string \<Rightarrow> string option) \<Rightarrow> ('x, 'h) engines \<Rightarrow> Repository \<Rightarrow> Type \<Rightarrow> ctx \<Rightarrow> Message \<Rightarrow> out_call result" where
  "prepare parse eng repo t c msg =
    (case Renderer_Render eng repo msg of
       Inl err \<Rightarrow> Inl err
     | Inr content \<Rightarrow>
        if t = TypeEmail then
          (case NewEmailAddress parse (rc_Email (m_Recipient msg)) of
             Inl err \<Rightarrow> Inl (PermanentError (Errorf [Lit ''invalid email recipient: '', Cause] err))
           | Inr addr \<Rightarrow>
              if rd_Body content = []
              then Inl (PermanentError (Errorf [Lit ''build email message: '', Cause] (Sentinel ErrEmptyBody)))
              else Inr (SendEmail c \<lparr>em_to = addr, em_subject = rd_Subject content, em_body = rd_Body content\<rparr>))
        else if t = TypeSMS then
          (case NewPhoneNumber (rc_PhoneNumber (m_Recipient msg)) of
             Inl err \<Rightarrow> Inl (PermanentError (Errorf [Lit ''invalid phone recipient: '', Cause] err))
           | Inr phone \<Rightarrow>
              if rd_Body content = []
              then Inl (PermanentError (Errorf [Lit ''build sms message: '', Cause] (Sentinel ErrEmptyMessage)))
              else Inr (SendSMS c \<lparr>sms_to = phone, sms_text = rd_Body content\<rparr>))
        else
          (case NewDeviceToken (rc_DeviceToken (m_Recipient msg)) of
             Inl err \<Rightarrow> Inl (PermanentError (Errorf [Lit ''invalid device token: '', Cause] err))
           | Inr token \<Rightarrow>
              if rd_Body content = []
              then Inl (PermanentError (Errorf [Lit ''build push message: '', Cause] (Sentinel ErrEmptyPushBody)))
              else Inr (SendPush c \<lparr>pm_to = token, pm_title = rd_Subject content, pm_body = rd_Body content,
                                   pm_data = None\<rparr>)))"

definition send_label :: "Type \<Rightarrow> string" where
  "send_label t = (if t = TypeEmail then ''send email: '' else if t = TypeSMS then ''send sms: '' else ''send push: '')"

definition dispatch :: "'w outside \<Rightarrow> Type \<Rightarrow> ctx \<Rightarrow> out_call result \<Rightarrow> 'w outbound \<Rightarrow> go_error option \<times> 'w outbound" where
  "dispatch outside t c prepared s =
    (case prepared of
       Inl err \<Rightarrow> (Some err, s)
     | Inr call \<Rightarrow>
         seqE (out_invoke outside (\<lambda>e. Errorf [Lit ''rate limiter wait: '', Cause] e) (LimiterWait c))
              (out_invoke outside (\<lambda>e. Errorf [Lit (send_label t), Cause] e) call) s)"

lemma Renderer_Render_Data: "Renderer_Render eng repo msg = Inr content \<Longrightarrow> rd_Data content = None"
  by (auto simp: Renderer_Render_def Template_Render_Inr split: sum.splits)

lemma Renderer_Render_Inl:
  "Renderer_Render eng repo msg = Inl e \<Longrightarrow> errors_As is_PermanentError e = Some e"
  by (auto simp: Renderer_Render_def error_constructors split: sum.splits)

lemma EmailProcessor_dispatch:
  "EmailProcessor_Process outside parse eng repo c msg = dispatch outside TypeEmail c (prepare parse eng repo TypeEmail c msg)"
  by (rule ext) (simp add: EmailProcessor_Process_def dispatch_def prepare_def send_label_def NewEmailMessage_def
      error_constructors split: sum.split)

lemma SMSProcessor_dispatch:
  "SMSProcessor_Process outside eng repo c msg = dispatch outside TypeSMS c (prepare parse eng repo TypeSMS c msg)"
  by (rule ext) (simp add: SMSProcessor_Process_def dispatch_def prepare_def send_label_def NewSMSMessage_def
      error_constructors split: sum.split)

lemma PushProcessor_dispatch:
  "PushProcessor_Process outside eng repo c msg = dispatch outside TypePush c (prepare parse eng repo TypePush c msg)"
  by (rule ext) (simp add: PushProcessor_Process_def dispatch_def prepare_def send_label_def NewPushMessage_def
      error_constructors Renderer_Render_Data split: sum.split)

lemmas processors_dispatch = EmailProcessor_dispatch SMSProcessor_dispatch PushProcessor_dispatch

lemma prepare_Inl: "prepare parse eng repo t c msg = Inl e \<Longrightarrow> errors_As is_PermanentError e = Some e"
  by (auto simp: prepare_def Renderer_Render_Inl split: sum.splits if_splits)

lemma dispatch_cases:
  assumes "dispatch outside t c prepared s = (res, s')"
  obtains
    (rejected) e where "prepared = Inl e" "res = Some e" "s' = s"
  | (limited) call e where "prepared = Inr call" "res = Some (Errorf [Lit ''rate limiter wait: '', Cause] e)"
      "ob_calls s' = ob_calls s @ [(LimiterWait c, Some e)]"
  | (called) call r where "prepared = Inr call"
      "res = map_option (\<lambda>e. Errorf [Lit (send_label t), Cause] e) r"
      "ob_calls s' = ob_calls s @ [(LimiterWait c, None), (call, r)]"
  using assms
  by (cases prepared) (auto simp: dispatch_def seqE_def out_invoke_def split: prod.splits option.splits)

text \<open>A message is rejected the same way whatever the context.\<close>

definition rejects ::
  "(string \<Rightarrow> string option) \<Rightarrow> ('x, 'h) engines \<Rightarrow> Repository \<Rightarrow> Type \<Rightarrow> Message \<Rightarrow> go_error option" where
  "rejects parse eng repo t msg =
    (case prepare parse eng repo t Background msg of Inl err \<Rightarrow> Some err | Inr _ \<Rightarrow> None)"

lemma prepare_ctx:
  "prepare parse eng repo t c msg = Inl e \<longleftrightarrow> prepare parse eng repo t c' msg = Inl e"
  by (auto simp: prepare_def split: sum.splits if_splits)

lemma rejects_Some: "rejects parse eng repo t msg = Some e \<longleftrightarrow> prepare parse eng repo t c msg = Inl e"
  using prepare_ctx [of parse eng repo t c msg e Background] by (auto simp: rejects_def split: sum.splits)

lemma rejects_None: "rejects parse eng repo t msg = None \<longleftrightarrow> (\<exists>call. prepare parse eng repo t c msg = Inr call)"
  using rejects_Some [of parse eng repo t msg _ c] by (cases "prepare parse eng repo t c msg") (auto simp: not_Some_eq [symmetric] simp del: not_Some_eq)

lemma dispatch_contract:
  assumes "Process = (\<lambda>c m. dispatch outside t c (prepare parse eng repo t c m))"
  shows "processor Process (rejects parse eng repo t) ob_calls"
proof
  fix m e c s assume "rejects parse eng repo t m = Some e"
  then show "Process c m s = (Some e, s)"
    by (simp add: assms rejects_Some [where c = c] dispatch_def)
next
  fix m e assume "rejects parse eng repo t m = Some e"
  then show "errors_As is_PermanentError e \<noteq> None"
    using prepare_Inl by (fastforce simp: rejects_Some [where c = Background])
next
  fix m c s res s' assume "rejects parse eng repo t m = None" "Process c m s = (res, s')"
  then obtain call where "prepare parse eng repo t c m = Inr call"
      and run: "dispatch outside t c (prepare parse eng repo t c m) s = (res, s')"
    using rejects_None [of parse eng repo t m c] by (auto simp: assms)
  then show "\<exists>new. ob_calls s' = ob_calls s @ new \<and> new \<noteq> [] \<and> (res = None) = (snd (last new) = None)"
    by (cases rule: dispatch_cases [OF run]) auto
qed

text \<open>The processor of a lane's channel; \<open>buildProcessor\<close> gives it the stub senders.\<close>

definition lane_processor ::
  "'w outside \<Rightarrow> (string \<Rightarrow> string option) \<Rightarrow> ('x, 'h) engines \<Rightarrow> Repository \<Rightarrow> Type \<Rightarrow> 'w process" where
  "lane_processor outside parse eng repo t =
    (if t = TypeEmail then EmailProcessor_Process outside parse eng repo
     else if t = TypeSMS then SMSProcessor_Process outside eng repo
     else PushProcessor_Process outside eng repo)"

lemma prepare_push:
  "t \<noteq> TypeEmail \<Longrightarrow> t \<noteq> TypeSMS \<Longrightarrow> prepare parse eng repo t c m = prepare parse eng repo TypePush c m"
  by (cases "Renderer_Render eng repo m") (simp_all add: prepare_def)

lemma dispatch_push: "t \<noteq> TypeEmail \<Longrightarrow> t \<noteq> TypeSMS \<Longrightarrow> dispatch outside t = dispatch outside TypePush"
proof -
  assume "t \<noteq> TypeEmail" "t \<noteq> TypeSMS"
  then have label: "send_label t = send_label TypePush"
    by (simp add: send_label_def)
  show ?thesis
    unfolding dispatch_def label by (rule refl)
qed

lemma lane_processor_dispatch:
  "lane_processor outside parse eng repo t = (\<lambda>c m. dispatch outside t c (prepare parse eng repo t c m))"
proof (intro ext)
  fix c m s
  consider "t = TypeEmail" | "t = TypeSMS" | "t \<noteq> TypeEmail" "t \<noteq> TypeSMS" by blast
  then show "lane_processor outside parse eng repo t c m s = dispatch outside t c (prepare parse eng repo t c m) s"
  proof cases
    case 3
    then show ?thesis
      by (simp add: lane_processor_def dispatch_push [OF 3] prepare_push [OF 3] PushProcessor_dispatch [where parse = parse])
  qed (simp_all add: lane_processor_def EmailProcessor_dispatch SMSProcessor_dispatch [where parse = parse])
qed

interpretation lane: processor "lane_processor outside parse eng repo t" "rejects parse eng repo t" ob_calls
  for outside parse eng repo t
  by (rule dispatch_contract [where outside = outside]) (rule lane_processor_dispatch)

lemma stub_no_sender:
  "stubEmailSender_Send = no_sender" "stubSMSSender_Send = no_sender" "stubPushSender_Send = no_sender"
  by (simp_all add: fun_eq_iff stubEmailSender_Send_def stubSMSSender_Send_def stubPushSender_Send_def no_sender_def)

lemma buildProcessor_eq:
  "buildProcessor parse eng t renderer limiter_Wait =
    (if Type_IsValid t then Inr (lane_processor (stub_senders limiter_Wait) parse eng (ts_repo (rn_templateSvc renderer)) t)
     else Inl (ErrorfNew [Lit ''unknown worker type '', Quoted t]))"
  by (simp add: buildProcessor_def lane_processor_def Type_IsValid_def stub_senders_def stub_no_sender email_method_def
      sms_method_def push_method_def NewEmailProcessor_def NewSMSProcessor_def NewPushProcessor_def)

subsection \<open>Messages the API accepted\<close>

lemma valid_prepare:
  assumes "channel_ok parse (m_Type msg) (m_Recipient msg)" "Renderer_Render eng repo msg = Inr content"
    and "rd_Body content \<noteq> []"
  shows "\<exists>call. prepare parse eng repo (m_Type msg) c msg = Inr call"
  using assms by (auto simp: prepare_def channel_ok_def)

lemma valid_rejects:
  assumes "channel_ok parse (m_Type msg) (m_Recipient msg)"
    and "Service_Resolve repo (m_TemplateID msg) (m_Type msg) = Inr tmpl"
    and "rejects parse eng repo (m_Type msg) msg = Some e"
  shows "(\<exists>err. Template_Render eng tmpl (m_TemplateData msg) = Inl err \<and> errors_As is_PermanentError e = Some e
      \<and> e = PermanentError (Errorf [Lit ''render template: '', Cause] err))
    \<or> (\<exists>content. Template_Render eng tmpl (m_TemplateData msg) = Inr content \<and> rd_Body content = [])"
proof (cases "Template_Render eng tmpl (m_TemplateData msg)")
  case (Inl err)
  with assms(2,3) show ?thesis
    by (auto simp: rejects_def prepare_def Renderer_Render_def error_constructors)
next
  case (Inr content)
  with assms(2) have "Renderer_Render eng repo msg = Inr content"
    by (simp add: Renderer_Render_def)
  with assms(1,3) Inr show ?thesis
    using valid_prepare [OF assms(1), of eng repo content Background] by (cases "rd_Body content = []") (auto simp: rejects_def)
qed

lemma rejects_IncrementRetry [simp]: "rejects parse eng repo t (IncrementRetry msg) = rejects parse eng repo t msg"
  unfolding rejects_def prepare_def Renderer_Render_def IncrementRetry_fields by (rule refl)

text \<open>The call of a sender a rendered message leads to, by what the sender can read of the message.\<close>

definition sender_call :: "Type \<Rightarrow> ctx \<Rightarrow> Recipient \<Rightarrow> RenderedContent \<Rightarrow> out_call \<Rightarrow> bool" where
  "sender_call t c r content call \<longleftrightarrow>
    (t = TypeEmail \<and> (\<exists>m. call = SendEmail c m \<and> EmailAddress_String (EmailMessage_To m) = rc_Email r
        \<and> EmailMessage_Subject m = rd_Subject content \<and> EmailMessage_Body m = rd_Body content))
    \<or> (t = TypeSMS \<and> (\<exists>m. call = SendSMS c m \<and> NewPhoneNumber (rc_PhoneNumber r) = Inr (SMSMessage_To m)
        \<and> SMSMessage_Text m = rd_Body content))
    \<or> (t = TypePush \<and> (\<exists>m. call = SendPush c m \<and> DeviceToken_String (PushMessage_To m) = rc_DeviceToken r
        \<and> PushMessage_Title m = rd_Subject content \<and> PushMessage_Body m = rd_Body content \<and> PushMessage_Data m = None))"

lemma prepare_Inr:
  assumes "Type_IsValid t" "prepare parse eng repo t c msg = Inr call"
  shows "channel_ok parse t (m_Recipient msg) \<and> (\<exists>tmpl content.
    Service_Resolve repo (m_TemplateID msg) (m_Type msg) = Inr tmpl
    \<and> Template_Render eng tmpl (m_TemplateData msg) = Inr content \<and> rd_Body content \<noteq> []
    \<and> sender_call t c (m_Recipient msg) content call)"
  using assms
  by (auto simp: prepare_def channel_ok_def sender_call_def Type_IsValid_def Renderer_Render_def
      NewEmailAddress_Inr NewDeviceToken_Inr split: sum.splits if_splits)

subsection \<open>Properties\<close>

text \<open>C13. A processor either rejects a message with a \<open>PermanentError\<close> and calls nothing; or
  it waits for the rate limiter, and only if that succeeds makes exactly one call of its
  channel's sender, with the rendered, non-empty body and the recipient's address for the
  channel. Nil is returned exactly when the sender accepted; a push never carries a
  payload.\<close>

theorem Process_one_send:
  assumes "Type_IsValid t" "lane_processor outside parse eng repo t c m s = (res, s')"
  shows "(s' = s \<and> (\<exists>e. res = Some e \<and> errors_As is_PermanentError e = Some e))
    \<or> (\<exists>e. ob_calls s' = ob_calls s @ [(LimiterWait c, Some e)]
         \<and> res = Some (Errorf [Lit ''rate limiter wait: '', Cause] e))
    \<or> (\<exists>call r tmpl content. ob_calls s' = ob_calls s @ [(LimiterWait c, None), (call, r)]
         \<and> Service_Resolve repo (m_TemplateID m) (m_Type m) = Inr tmpl
         \<and> Template_Render eng tmpl (m_TemplateData m) = Inr content \<and> rd_Body content \<noteq> []
         \<and> sender_call t c (m_Recipient m) content call \<and> (res = None \<longleftrightarrow> r = None))"
proof -
  have "dispatch outside t c (prepare parse eng repo t c m) s = (res, s')"
    using assms by (simp add: lane_processor_dispatch)
  then show ?thesis
  proof (cases rule: dispatch_cases)
    case (rejected e)
    then show ?thesis using prepare_Inl by blast
  next
    case (limited call e)
    then show ?thesis by blast
  next
    case (called call r)
    with prepare_Inr [OF assms(1), of parse eng repo c m call] show ?thesis by auto
  qed
qed

definition sample_outside :: "unit outside" where
  "sample_outside call w = (None, w)"

definition sample_outbound :: "unit outbound" where
  "sample_outbound = \<lparr>ob_env = (), ob_calls = []\<rparr>"

lemma sample_prepare:
  "prepare Some verbatim_engines (file_Repository sample_iteration sample_repository) TypeEmail c sample_message
    = Inr (SendEmail c \<lparr>em_to = \<lparr>ea_value = ''user@example.com''\<rparr>, em_subject = [],
                        em_body = ''templates/email/default.html''\<rparr>)"
proof -
  have "NewEmailAddress Some ''user@example.com'' = Inr \<lparr>ea_value = ''user@example.com''\<rparr>"
    by code_simp
  moreover have "Service_Resolve (file_Repository sample_iteration sample_repository) ''default'' TypeEmail
      = Inr sample_default"
    by (simp add: Service_Resolve_def file_Repository_def FileRepository_Get_def type_map_def sample_repository_def)
  ultimately show ?thesis
    by (simp add: prepare_def Renderer_Render_def Template_Render_def renderSubject_def renderBody_def
        sample_message_def NewEmailRecipient_def sample_default_def Template_New_def verbatim_engines_def)
qed

theorem Process_one_send_witness:
  "\<exists>s' call. lane_processor sample_outside Some verbatim_engines (file_Repository sample_iteration sample_repository)
      TypeEmail Background sample_message sample_outbound = (None, s')
    \<and> ob_calls s' = [(LimiterWait Background, None), (call, None)]"
proof -
  have valid: "Type_IsValid TypeEmail" by (simp add: Type_IsValid_def)
  have "\<exists>s'. lane_processor sample_outside Some verbatim_engines (file_Repository sample_iteration sample_repository)
      TypeEmail Background sample_message sample_outbound = (None, s')"
    by (simp add: lane_processor_dispatch dispatch_def sample_prepare seqE_def out_invoke_def
        sample_outside_def)
  then obtain s' where run: "lane_processor sample_outside Some verbatim_engines
      (file_Repository sample_iteration sample_repository) TypeEmail Background sample_message sample_outbound
      = (None, s')" by blast
  moreover from Process_one_send [OF valid run] obtain call where "ob_calls s' = [(LimiterWait Background, None), (call, None)]"
    by (auto simp: sample_outbound_def)
  ultimately show ?thesis by blast
qed



end
