(* ===== verification/Consumer.thy ===== *)
theory Consumer
  imports Processors
begin

text \<open>
  internal/transport/queue/consumer.go: one delivery (\<open>handle\<close>) and the loop
  over the deliveries of a lane (\<open>Run\<close>). The consumer acts on three parts of
  the outside world: the senders and the rate limiter (\<open>wk_out\<close>), the
  publishing connection (\<open>wk_pub\<close>) and the consuming connection (\<open>wk_con\<close>).
  \<open>unmarshal\<close> is \<open>encoding/json.Unmarshal\<close> on messages. Log calls are left out:
  they take values and return nothing.
\<close>

record ('p, 'w, 'd) worker =
  wk_out :: 'p
  wk_pub :: 'w
  wk_con :: 'd

record ('p, 'w) Consumer =
  co_Process :: "ctx \<Rightarrow> Message \<Rightarrow> 'p \<Rightarrow> go_error option \<times> 'p"
  co_Publish :: "'w publish"
  co_PublishDeadLetter :: "'w publish"
  co_maxRetries :: go_int

definition NewConsumer ::
  "(ctx \<Rightarrow> Message \<Rightarrow> 'p \<Rightarrow> go_error option \<times> 'p) \<Rightarrow> 'w publish \<Rightarrow> 'w publish \<Rightarrow> go_int \<Rightarrow> ('p, 'w) Consumer" where
  "NewConsumer process publish publishDeadLetter maxRetries =
    \<lparr>co_Process = process, co_Publish = publish, co_PublishDeadLetter = publishDeadLetter,
     co_maxRetries = maxRetries\<rparr>"

definition isPermanent :: "go_error \<Rightarrow> bool" where
  "isPermanent err \<longleftrightarrow> errors_As is_PermanentError err \<noteq> None"

text \<open>\<open>_ = d.Ack()\<close> and \<open>_ = d.Nack(requeue)\<close>: the error is dropped.\<close>

definition ignore :: "('d \<Rightarrow> go_error option \<times> 'd) \<Rightarrow> ('p, 'w, 'd) worker \<Rightarrow> ('p, 'w, 'd) worker" where
  "ignore settle s = s\<lparr>wk_con := snd (settle (wk_con s))\<rparr>"

definition handle ::
  "(string \<Rightarrow> Message result) \<Rightarrow> ('p, 'w) Consumer \<Rightarrow> ctx \<Rightarrow> 'd queue_delivery
    \<Rightarrow> ('p, 'w, 'd) worker \<Rightarrow> ('p, 'w, 'd) worker" where
  "handle unmarshal co c d s =
    (case unmarshal (qd_Body d) of
       Inl err \<Rightarrow> ignore (qd_Ack d) s
     | Inr msg \<Rightarrow>
        (let (res, out) = co_Process co c msg (wk_out s);
             s = s\<lparr>wk_out := out\<rparr>
         in case res of
              None \<Rightarrow> ignore (qd_Ack d) s
            | Some err \<Rightarrow>
                if isPermanent err then ignore (qd_Ack d) s
                else if CanRetry msg (co_maxRetries co) then
                  (let msg = IncrementRetry msg;
                       (rerr, pub) = co_Publish co c msg (wk_pub s);
                       s = s\<lparr>wk_pub := pub\<rparr>
                   in case rerr of
                        Some _ \<Rightarrow> ignore (qd_Nack d True) s
                      | None \<Rightarrow> ignore (qd_Ack d) s)
                else
                  (let (derr, pub) = co_PublishDeadLetter co c msg (wk_pub s);
                       s = s\<lparr>wk_pub := pub\<rparr>
                   in case derr of
                        Some _ \<Rightarrow> ignore (qd_Nack d True) s
                      | None \<Rightarrow> ignore (qd_Ack d) s)))"

text \<open>What a \<open>select\<close> of the loop picks: the context was cancelled (with its
  error), the channel was closed, or a delivery. A run of the loop is given by the choices
  made so far; \<open>None\<close> is a loop that still runs after them.\<close>

datatype 'b event = Done go_error | Closed | Deliver 'b

fun Run ::
  "(string \<Rightarrow> Message result) \<Rightarrow> ('p, 'w) Consumer \<Rightarrow> ctx \<Rightarrow> 'd queue_delivery event list
    \<Rightarrow> ('p, 'w, 'd) worker \<Rightarrow> go_error option option \<times> ('p, 'w, 'd) worker" where
  "Run unmarshal co c [] s = (None, s)"
| "Run unmarshal co c (Done err # es) s = (Some (Some err), s)"
| "Run unmarshal co c (Closed # es) s = (Some None, s)"
| "Run unmarshal co c (Deliver d # es) s = Run unmarshal co c es (handle unmarshal co c d s)"

subsection \<open>What happens to a delivery\<close>

text \<open>The verdict on a delivery, as a function of the body, the processor's answer and the
  limit.\<close>

datatype verdict =
    Unparseable
  | Delivered Message
  | Dropped Message go_error
  | Retry Message
  | Park Message

definition verdict_of :: "Message result \<Rightarrow> go_error option \<Rightarrow> go_int \<Rightarrow> verdict" where
  "verdict_of parsed res maxRetries =
    (case parsed of
       Inl err \<Rightarrow> Unparseable
     | Inr msg \<Rightarrow>
        (case res of
           None \<Rightarrow> Delivered msg
         | Some err \<Rightarrow> if isPermanent err then Dropped msg err
             else if CanRetry msg maxRetries then Retry (IncrementRetry msg) else Park msg))"

definition process_result ::
  "(string \<Rightarrow> Message result) \<Rightarrow> ('p, 'w) Consumer \<Rightarrow> ctx \<Rightarrow> 'd queue_delivery \<Rightarrow> 'p \<Rightarrow> go_error option \<times> 'p" where
  "process_result unmarshal co c d p =
    (case unmarshal (qd_Body d) of Inl err \<Rightarrow> (None, p) | Inr msg \<Rightarrow> co_Process co c msg p)"

lemma handle_verdict:
  assumes "process_result unmarshal co c d (wk_out s) = (res, out)"
  shows "handle unmarshal co c d s =
    (case verdict_of (unmarshal (qd_Body d)) res (co_maxRetries co) of
       Retry m \<Rightarrow> (case co_Publish co c m (wk_pub s) of
           (Some _, pub) \<Rightarrow> ignore (qd_Nack d True) (s\<lparr>wk_out := out, wk_pub := pub\<rparr>)
         | (None, pub) \<Rightarrow> ignore (qd_Ack d) (s\<lparr>wk_out := out, wk_pub := pub\<rparr>))
     | Park m \<Rightarrow> (case co_PublishDeadLetter co c m (wk_pub s) of
           (Some _, pub) \<Rightarrow> ignore (qd_Nack d True) (s\<lparr>wk_out := out, wk_pub := pub\<rparr>)
         | (None, pub) \<Rightarrow> ignore (qd_Ack d) (s\<lparr>wk_out := out, wk_pub := pub\<rparr>))
     | _ \<Rightarrow> ignore (qd_Ack d) (s\<lparr>wk_out := out\<rparr>))"
proof (cases "unmarshal (qd_Body d)")
  case (Inr m)
  with assms have "co_Process co c m (wk_out s) = (res, out)" by (simp add: process_result_def)
  with Inr show ?thesis by (cases res) (simp_all add: handle_def verdict_of_def Let_def)
qed (use assms in \<open>auto simp: handle_def process_result_def verdict_of_def\<close>)

text \<open>The deliveries the loop takes before it returns.\<close>

fun taken :: "'b event list \<Rightarrow> 'b list" where
  "taken (Deliver b # es) = b # taken es"
| "taken _ = []"

text \<open>The consumer over its three interfaces.\<close>

locale queue_consumer =
  retry_publisher Publish marshal lane_key confirmed PublishDeadLetter dead_lane
  + processor Process rejects calls + delivery as_delivery tag settled
  for Publish :: "'w publish" and marshal lane_key and confirmed :: "'w \<Rightarrow> (string \<times> string) list"
    and PublishDeadLetter dead_lane
    and Process :: "ctx \<Rightarrow> Message \<Rightarrow> 'p \<Rightarrow> go_error option \<times> 'p" and rejects
    and calls :: "'p \<Rightarrow> ('c \<times> go_error option) list"
    and as_delivery :: "'b \<Rightarrow> 'd queue_delivery" and tag and settled :: "'d \<Rightarrow> (nat \<times> settlement) list"
begin

abbreviation consumer :: "go_int \<Rightarrow> ('p, 'w) Consumer" where
  "consumer maxRetries \<equiv> NewConsumer Process Publish PublishDeadLetter maxRetries"

text \<open>The delivery gets one answer; it is requeued exactly when a copy had to be published and
  was not confirmed, and otherwise the copy, if there is one, is confirmed on its lane.\<close>

lemma handle_outcome:
  assumes "process_result unmarshal (consumer n) c (as_delivery b) (wk_out s) = (res, out)"
    and "handle unmarshal (consumer n) c (as_delivery b) s = s'"
  shows "wk_out s' = out \<and>
    (case verdict_of (unmarshal (qd_Body (as_delivery b))) res n of
       Retry m \<Rightarrow> (confirmed (wk_pub s') = confirmed (wk_pub s) \<and> settled (wk_con s') = settled (wk_con s) @ [(tag b, Requeued)])
         \<or> (\<exists>body. marshal m = Inr body \<and> confirmed (wk_pub s') = confirmed (wk_pub s) @ [(lane_key m, body)]
              \<and> settled (wk_con s') = settled (wk_con s) @ [(tag b, Acked)])
     | Park m \<Rightarrow> (confirmed (wk_pub s') = confirmed (wk_pub s) \<and> settled (wk_con s') = settled (wk_con s) @ [(tag b, Requeued)])
         \<or> (\<exists>body. marshal m = Inr body \<and> confirmed (wk_pub s') = confirmed (wk_pub s) @ [(dead_lane, body)]
              \<and> settled (wk_con s') = settled (wk_con s) @ [(tag b, Acked)])
     | _ \<Rightarrow> wk_pub s' = wk_pub s \<and> settled (wk_con s') = settled (wk_con s) @ [(tag b, Acked)])"
proof (cases "verdict_of (unmarshal (qd_Body (as_delivery b))) res n")
  case (Retry m)
  obtain r pub where run: "Publish c m (wk_pub s) = (r, pub)" by (cases "Publish c m (wk_pub s)")
  show ?thesis
  proof (cases r)
    case None
    with run Retry assms(2) handle_verdict [OF assms(1)] Publish_nil [of c m "wk_pub s" pub] show ?thesis
      by (auto simp: NewConsumer_def ignore_def Ack_settles)
  next
    case (Some e)
    with run Retry assms(2) handle_verdict [OF assms(1)] Publish_err [of c m "wk_pub s" e pub] show ?thesis
      by (auto simp: NewConsumer_def ignore_def Nack_settles)
  qed
next
  case (Park m)
  obtain r pub where run: "PublishDeadLetter c m (wk_pub s) = (r, pub)" by (cases "PublishDeadLetter c m (wk_pub s)")
  show ?thesis
  proof (cases r)
    case None
    with run Park assms(2) handle_verdict [OF assms(1)] Dead_nil [of c m "wk_pub s" pub] show ?thesis
      by (auto simp: NewConsumer_def ignore_def Ack_settles)
  next
    case (Some e)
    with run Park assms(2) handle_verdict [OF assms(1)] Dead_err [of c m "wk_pub s" e pub] show ?thesis
      by (auto simp: NewConsumer_def ignore_def Nack_settles)
  qed
qed (use assms(2) handle_verdict [OF assms(1)] in \<open>auto simp: NewConsumer_def ignore_def Ack_settles\<close>)

lemma handle_settles:
  "\<exists>v \<in> {Acked, Requeued}. settled (wk_con (handle unmarshal (consumer n) c (as_delivery b) s))
     = settled (wk_con s) @ [(tag b, v)]"
proof -
  obtain res out where run: "process_result unmarshal (consumer n) c (as_delivery b) (wk_out s) = (res, out)"
    by (cases "process_result unmarshal (consumer n) c (as_delivery b) (wk_out s)")
  from handle_outcome [OF run refl] show ?thesis
    by (cases "verdict_of (unmarshal (qd_Body (as_delivery b))) res n") auto
qed

text \<open>The loop settles the deliveries it took, in order.\<close>

lemma Run_settles:
  "\<exists>vs. length vs = length (taken es) \<and> set vs \<subseteq> {Acked, Requeued}
     \<and> settled (wk_con (snd (Run unmarshal (consumer n) c (map (map_event as_delivery) es) s)))
       = settled (wk_con s) @ zip (map tag (taken es)) vs"
proof (induction es arbitrary: s rule: taken.induct)
  case (1 b es)
  let ?s = "handle unmarshal (consumer n) c (as_delivery b) s"
  obtain v where v: "v \<in> {Acked, Requeued}" "settled (wk_con ?s) = settled (wk_con s) @ [(tag b, v)]"
    by (rule bexE [OF handle_settles])
  from 1 [of ?s] obtain vs where "length vs = length (taken es)" "set vs \<subseteq> {Acked, Requeued}"
    "settled (wk_con (snd (Run unmarshal (consumer n) c (map (map_event as_delivery) es) ?s)))
       = settled (wk_con ?s) @ zip (map tag (taken es)) vs"
    by blast
  with v show ?case by (intro exI [of _ "v # vs"]) auto
qed simp_all

text \<open>A copy is confirmed only of the message delivered: with one more retry on its lane while
  retries are left, or as it is on the dead-letter lane after that.\<close>

lemma handle_confirms:
  assumes "confirmed (wk_pub (handle unmarshal (consumer n) c (as_delivery b) s)) = confirmed (wk_pub s) @ [(key, body)]"
  shows "\<exists>m. unmarshal (qd_Body (as_delivery b)) = Inr m \<and>
    (CanRetry m n \<and> key = lane_key (IncrementRetry m) \<and> marshal (IncrementRetry m) = Inr body
     \<or> \<not> CanRetry m n \<and> key = dead_lane \<and> marshal m = Inr body)"
proof -
  obtain res out where run: "process_result unmarshal (consumer n) c (as_delivery b) (wk_out s) = (res, out)"
    by (cases "process_result unmarshal (consumer n) c (as_delivery b) (wk_out s)")
  show ?thesis
    using handle_outcome [OF run refl] assms
    by (auto simp: verdict_of_def split: verdict.splits sum.splits option.splits if_splits)
qed

end

interpretation worker: queue_consumer
    "Publisher_Publish amqp marshal p" marshal "\<lambda>m. RoutingKey (m_Type m) (m_Priority m)" confirmed
    "Publisher_PublishDeadLetter amqp marshal p" DeadLetterRoutingKey
    "lane_processor outside parse eng repo t" "rejects parse eng repo t" ob_calls
    "as_delivery con" dl_Tag settled
  for amqp :: "'w amqp" and marshal p outside parse eng repo t and con :: "'d amqp"
  by (rule queue_consumer.intro [OF rabbit_pub.retry_publisher_axioms lane.processor_axioms
        rabbit_delivery.delivery_axioms])

text \<open>The consumer of a worker process: a lane's processor and the RabbitMQ publisher.\<close>

definition worker_consumer ::
  "'o outside \<Rightarrow> (string \<Rightarrow> string option) \<Rightarrow> ('x, 'h) engines \<Rightarrow> Repository \<Rightarrow> Type
    \<Rightarrow> 'w amqp \<Rightarrow> (Message \<Rightarrow> string result) \<Rightarrow> Publisher \<Rightarrow> go_int \<Rightarrow> ('o outbound, 'w broker) Consumer" where
  "worker_consumer outside parse eng repo t amqp marshal p maxRetries =
    NewConsumer (lane_processor outside parse eng repo t) (Publisher_Publish amqp marshal p)
      (Publisher_PublishDeadLetter amqp marshal p) maxRetries"

text \<open>What the codec is relied on for: an encoded message decodes with its retry count.\<close>

definition keeps_RetryCount :: "(Message \<Rightarrow> string result) \<Rightarrow> (string \<Rightarrow> Message result) \<Rightarrow> bool" where
  "keeps_RetryCount marshal unmarshal \<longleftrightarrow>
    (\<forall>m body m'. marshal m = Inr body \<longrightarrow> unmarshal body = Inr m' \<longrightarrow> m_RetryCount m' = m_RetryCount m)"

text \<open>Redeliveries of a message: the copy that some handling of it confirmed on a lane comes
  back as the next delivery; \<open>H\<close> is the handler and \<open>k\<close> counts them.\<close>

inductive redelivered ::
  "(string \<Rightarrow> Message result) \<Rightarrow> (ctx \<Rightarrow> Delivery \<Rightarrow> ('p, 'w broker, 'd) worker \<Rightarrow> ('p, 'w broker, 'd) worker)
    \<Rightarrow> nat \<Rightarrow> Message \<Rightarrow> Message \<Rightarrow> bool" for unmarshal H where
  first: "redelivered unmarshal H 0 m m"
| again: "redelivered unmarshal H k m m' \<Longrightarrow> unmarshal (dl_Body d) = Inr m' \<Longrightarrow>
    confirmed (wk_pub (H c d s)) = confirmed (wk_pub s) @ [(key, body)] \<Longrightarrow> key \<noteq> DeadLetterRoutingKey \<Longrightarrow>
    unmarshal body = Inr m'' \<Longrightarrow> redelivered unmarshal H (Suc k) m m''"

inductive_cases redelivered_SucE: "redelivered unmarshal H (Suc k) m m'"

lemma lane_key_not_dead: "RoutingKey t pr \<noteq> DeadLetterRoutingKey"
proof
  assume "RoutingKey t pr = DeadLetterRoutingKey"
  then have "CHR ''.'' \<in> set DeadLetterRoutingKey"
    by (metis RoutingKey_def append_Cons in_set_conv_decomp)
  then show False by simp
qed

subsection \<open>A concrete worker\<close>

text \<open>The provider of the examples is down; the codec of the examples counts retries in
  unary.\<close>

definition failing_outside :: "unit outside" where
  "failing_outside call w = (case call of LimiterWait c \<Rightarrow> (None, w) | _ \<Rightarrow> (Some (External ''503''), w))"

definition unary_marshal :: "Message \<Rightarrow> string result" where
  "unary_marshal m = Inr (replicate (unat (m_RetryCount m)) (CHR ''r''))"

definition unary_unmarshal :: "string \<Rightarrow> Message result" where
  "unary_unmarshal body = Inr (sample_message\<lparr>m_RetryCount := of_nat (length body)\<rparr>)"

definition garbled :: "string \<Rightarrow> Message result" where
  "garbled body = Inl (External ''invalid character'')"

definition sample_worker :: "(unit outbound, bool broker, bool broker) worker" where
  "sample_worker = \<lparr>wk_out = sample_outbound, wk_pub = sample_broker True, wk_con = sample_broker True\<rparr>"

definition sample_delivery :: Delivery where
  "sample_delivery = \<lparr>dl_Body = [], dl_Tag = 1\<rparr>"

definition sample_consumer :: "(unit outbound, bool broker) Consumer" where
  "sample_consumer = worker_consumer failing_outside Some verbatim_engines
    (file_Repository sample_iteration sample_repository) TypeEmail sample_amqp unary_marshal sample_publisher 3"

lemma sample_message_RetryCount: "sample_message\<lparr>m_RetryCount := 0\<rparr> = sample_message"
  by (simp add: sample_message_def)

lemma sample_fails:
  "\<exists>out. lane_processor failing_outside Some verbatim_engines (file_Repository sample_iteration sample_repository)
     TypeEmail Background sample_message sample_outbound
     = (Some (Errorf [Lit ''send email: '', Cause] (External ''503'')), out)"
  by (simp add: lane_processor_dispatch dispatch_def sample_prepare seqE_def out_invoke_def failing_outside_def
      send_label_def)

lemma transient_503: "\<not> isPermanent (Errorf ps (External t))"
  by (simp add: isPermanent_def errors_As_def)

lemma sample_CanRetry: "CanRetry sample_message 3"
  by (simp add: CanRetry_def sample_message_def word_sless_alt)

definition sample_handle ::
  "ctx \<Rightarrow> Delivery \<Rightarrow> (unit outbound, bool broker, bool broker) worker \<Rightarrow> (unit outbound, bool broker, bool broker) worker" where
  "sample_handle c d s = handle unary_unmarshal sample_consumer c (as_delivery sample_amqp d) s"

lemma sample_handle_eq: "sample_handle = (\<lambda>c d. handle unary_unmarshal sample_consumer c (as_delivery sample_amqp d))"
  by (simp add: fun_eq_iff sample_handle_def)

lemma sample_parsed: "unary_unmarshal (dl_Body sample_delivery) = Inr sample_message"
  by (simp add: unary_unmarshal_def sample_delivery_def sample_message_RetryCount)

lemma sample_retry:
  "confirmed (wk_pub (sample_handle Background sample_delivery sample_worker))
    = confirmed (wk_pub sample_worker) @ [(''email.transactional'', ''r'')]"
proof -
  obtain out where out: "lane_processor failing_outside Some verbatim_engines
      (file_Repository sample_iteration sample_repository) TypeEmail Background sample_message sample_outbound
      = (Some (Errorf [Lit ''send email: '', Cause] (External ''503'')), out)"
    using sample_fails by blast
  have "unary_marshal (IncrementRetry sample_message) = Inr ''r''"
    by (simp add: unary_marshal_def IncrementRetry_def sample_message_def)
  then have "\<exists>pub. Publisher_Publish sample_amqp unary_marshal sample_publisher Background (IncrementRetry sample_message)
      (sample_broker True) = (None, pub) \<and> confirmed pub = [(''email.transactional'', ''r'')]"
    by (simp add: Publisher_Publish_def Publisher_publish_def Let_def invoke_def sample_amqp_def sample_broker_def
        confirmed_def published_def acknowledged_def RoutingKey_def sample_message_def)
  then show ?thesis
    using out transient_503 sample_CanRetry
    by (auto simp: sample_handle_def handle_def sample_consumer_def worker_consumer_def NewConsumer_def as_delivery_def sample_delivery_def
        unary_unmarshal_def sample_message_RetryCount sample_worker_def ignore_def Let_def confirmed_def sample_broker_def)
qed

subsection \<open>Properties\<close>

text \<open>C3. Nothing is lost: a delivery gets exactly one answer. It is acknowledged only if it
  cannot be parsed, or the sender took it, or it can never succeed, or a copy of it has
  been confirmed by the broker, on its lane with one more retry while retries are left and on the
  dead-letter lane after that. In the only other case, a copy that was not confirmed, it goes back to
  the queue.\<close>

theorem handle_no_loss:
  assumes "unmarshal (dl_Body d) = Inr m"
    and "lane_processor outside parse eng repo t c m (wk_out s) = (res, out)"
    and "handle unmarshal (worker_consumer outside parse eng repo t amqp marshal p n) c (as_delivery con d) s = s'"
  shows "wk_out s' = out \<and>
    (settled (wk_con s') = settled (wk_con s) @ [(dl_Tag d, Acked)] \<and>
       (case res of
          None \<Rightarrow> wk_pub s' = wk_pub s \<and> (\<exists>call. last (ob_calls out) = (call, None))
        | Some e \<Rightarrow>
            if isPermanent e then wk_pub s' = wk_pub s
            else if CanRetry m n then (\<exists>body. marshal (IncrementRetry m) = Inr body
              \<and> confirmed (wk_pub s') = confirmed (wk_pub s) @ [(RoutingKey (m_Type m) (m_Priority m), body)])
            else (\<exists>body. marshal m = Inr body
              \<and> confirmed (wk_pub s') = confirmed (wk_pub s) @ [(DeadLetterRoutingKey, body)]))
     \<or> settled (wk_con s') = settled (wk_con s) @ [(dl_Tag d, Requeued)]
       \<and> confirmed (wk_pub s') = confirmed (wk_pub s) \<and> (\<exists>e. res = Some e \<and> \<not> isPermanent e))"
proof -
  have body: "qd_Body (as_delivery con d) = dl_Body d"
    by (simp add: as_delivery_def)
  have run: "process_result unmarshal (worker_consumer outside parse eng repo t amqp marshal p n) c
      (as_delivery con d) (wk_out s) = (res, out)"
    using assms(1,2) by (simp add: process_result_def body worker_consumer_def NewConsumer_def)
  note outcome = worker.handle_outcome [OF run [unfolded worker_consumer_def] refl, folded worker_consumer_def,
      unfolded body assms(1,3)]
  show ?thesis
  proof (cases res)
    case None
    with lane.Process_nil_calls assms(2) have "\<exists>call. last (ob_calls out) = (call, None)"
      by fastforce
    with outcome None show ?thesis by (simp add: verdict_of_def)
  next
    case (Some e)
    with outcome show ?thesis
      by (auto simp: verdict_of_def split: if_splits)
  qed
qed

theorem handle_no_loss_witness:
  "settled (wk_con (sample_handle Background sample_delivery sample_worker))
    = [(1, Acked)]"
proof -
  obtain out where out: "lane_processor failing_outside Some verbatim_engines
      (file_Repository sample_iteration sample_repository) TypeEmail Background sample_message (wk_out sample_worker)
      = (Some (Errorf [Lit ''send email: '', Cause] (External ''503'')), out)"
    using sample_fails by (auto simp: sample_worker_def)
  have run: "handle unary_unmarshal (worker_consumer failing_outside Some verbatim_engines
      (file_Repository sample_iteration sample_repository) TypeEmail sample_amqp unary_marshal sample_publisher 3)
      Background (as_delivery sample_amqp sample_delivery) sample_worker
    = sample_handle Background sample_delivery sample_worker"
    by (simp add: sample_handle_def sample_consumer_def)
  have "settled (wk_con sample_worker) = []" "dl_Tag sample_delivery = 1"
    by (simp_all add: settled_def sample_worker_def sample_broker_def sample_delivery_def map_filter_simps)
  with handle_no_loss [OF sample_parsed out run] sample_retry show ?thesis
    by auto
qed



text \<open>C26. The loop answers the deliveries it takes, each exactly once and in the order they
  came, with an acknowledgement or a requeue. It takes deliveries until its context is
  cancelled, when it returns the context's error, or the channel closes, when it returns
  nil.\<close>

theorem Run_answers_each:
  "\<exists>vs. length vs = length (taken es) \<and> set vs \<subseteq> {Acked, Requeued}
     \<and> settled (wk_con (snd (Run unmarshal (worker_consumer outside parse eng repo t amqp marshal p n) c
           (map (map_event (as_delivery con)) es) s)))
       = settled (wk_con s) @ zip (map dl_Tag (taken es)) vs
     \<and> fst (Run unmarshal (worker_consumer outside parse eng repo t amqp marshal p n) c
           (map (map_event (as_delivery con)) es) s)
       = (case drop (length (taken es)) es of Done err # _ \<Rightarrow> Some (Some err) | Closed # _ \<Rightarrow> Some None | _ \<Rightarrow> None)"
proof -
  have "fst (Run unmarshal co c (map (map_event (as_delivery con)) es) s)
       = (case drop (length (taken es)) es of Done err # _ \<Rightarrow> Some (Some err) | Closed # _ \<Rightarrow> Some None | _ \<Rightarrow> None)"
    for co s
    by (induction es arbitrary: s rule: taken.induct) simp_all
  then show ?thesis
    using worker.Run_settles unfolding worker_consumer_def by fast
qed

text \<open>A message that can never succeed, or that cannot be parsed, is acknowledged with no
  effect: no sender and no publisher is called.\<close>

theorem handle_drops:
  assumes "(\<exists>err. unmarshal (dl_Body d) = Inl err)
    \<or> (\<exists>m err. unmarshal (dl_Body d) = Inr m \<and> rejects parse eng repo t m = Some err)"
    and "handle unmarshal (worker_consumer outside parse eng repo t amqp marshal p n) c (as_delivery con d) s = s'"
  shows "wk_out s' = wk_out s \<and> wk_pub s' = wk_pub s
    \<and> settled (wk_con s') = settled (wk_con s) @ [(dl_Tag d, Acked)]"
proof -
  obtain res out where run: "process_result unmarshal (worker_consumer outside parse eng repo t amqp marshal p n) c
      (as_delivery con d) (wk_out s) = (res, out)"
    by (cases "process_result unmarshal (worker_consumer outside parse eng repo t amqp marshal p n) c
      (as_delivery con d) (wk_out s)")
  have body: "qd_Body (as_delivery con d) = dl_Body d"
    by (simp add: as_delivery_def)
  note outcome = worker.handle_outcome [OF run [unfolded worker_consumer_def] refl, folded worker_consumer_def,
      unfolded body assms(2)]
  show ?thesis
    using assms(1)
  proof (elim disjE exE conjE)
    fix err assume "unmarshal (dl_Body d) = Inl err"
    with outcome run show ?thesis
      by (simp add: verdict_of_def process_result_def body)
  next
    fix m err assume m: "unmarshal (dl_Body d) = Inr m" "rejects parse eng repo t m = Some err"
    then have "res = Some err" "out = wk_out s"
      using run lane.reject [OF m(2), of outside c "wk_out s"]
      by (simp_all add: process_result_def body worker_consumer_def NewConsumer_def)
    moreover have "isPermanent err"
      using lane.reject_permanent [OF m(2)] by (simp add: isPermanent_def)
    ultimately show ?thesis
      using outcome m(1) by (simp add: verdict_of_def)
  qed
qed

theorem handle_drops_witness:
  "settled (wk_con (handle garbled sample_consumer Background (as_delivery sample_amqp sample_delivery) sample_worker))
    = [(1, Acked)]"
proof -
  have "(\<exists>err. garbled (dl_Body sample_delivery) = Inl err)
    \<or> (\<exists>m err. garbled (dl_Body sample_delivery) = Inr m
        \<and> rejects Some verbatim_engines (file_Repository sample_iteration sample_repository) TypeEmail m = Some err)"
    by (simp add: garbled_def)
  moreover have "handle garbled (worker_consumer failing_outside Some verbatim_engines
      (file_Repository sample_iteration sample_repository) TypeEmail sample_amqp unary_marshal sample_publisher 3)
      Background (as_delivery sample_amqp sample_delivery) sample_worker
    = handle garbled sample_consumer Background (as_delivery sample_amqp sample_delivery) sample_worker"
    by (simp add: sample_consumer_def)
  ultimately have "settled (wk_con (handle garbled sample_consumer Background (as_delivery sample_amqp sample_delivery)
      sample_worker)) = settled (wk_con sample_worker) @ [(dl_Tag sample_delivery, Acked)]"
    using handle_drops by metis
  then show ?thesis
    by (simp add: sample_delivery_def settled_def sample_worker_def sample_broker_def map_filter_simps)
qed

end
