(* ===== verification/Step_Relation.thy ===== *)
theory Step_Relation
  imports Main
begin

text \<open>
  What the proofs about step relations share: an invariant that every step keeps, and a
  height that every step lowers, so that runs have a bounded length and end. The locales are
  interpreted on the steps of the system, of the goroutines of a worker and of the
  publishers behind a mutex.
\<close>

text \<open>A run given by the states it passes.\<close>

lemma steps_run: "successively step xs \<Longrightarrow> xs \<noteq> [] \<Longrightarrow> step\<^sup>*\<^sup>* (hd xs) (last xs)"
  by (induction step xs rule: successively.induct) (auto intro: converse_rtranclp_into_rtranclp)

locale stepping =
  fixes step :: "'s \<Rightarrow> 's \<Rightarrow> bool" and inv :: "'s \<Rightarrow> bool"
  assumes step_inv: "inv s \<Longrightarrow> step s s' \<Longrightarrow> inv s'"
begin

lemma run_inv: "step\<^sup>*\<^sup>* s s' \<Longrightarrow> inv s \<Longrightarrow> inv s'"
  by (induction rule: rtranclp_induct) (auto intro: step_inv)

end

locale ending = stepping step inv
  for step :: "'s \<Rightarrow> 's \<Rightarrow> bool" and inv +
  fixes height :: "'s \<Rightarrow> nat"
  assumes step_down: "inv s \<Longrightarrow> step s s' \<Longrightarrow> height s' < height s"
begin

lemma run_bound:
  assumes "(step ^^ k) s s'" "inv s"
  shows "k + height s' \<le> height s"
  using assms(1)
proof (induction k arbitrary: s')
  case (Suc k)
  then obtain s1 where s1: "(step ^^ k) s s1" "step s1 s'" by auto
  have "inv s1" using run_inv [OF relpowp_imp_rtranclp [OF s1(1)] assms(2)] .
  from step_down [OF this s1(2)] Suc.IH [OF s1(1)] show ?case by simp
qed simp

lemma comes_to_rest: "inv s \<Longrightarrow> \<exists>s'. step\<^sup>*\<^sup>* s s' \<and> (\<nexists>s''. step s' s'')"
proof (induction "height s" arbitrary: s rule: less_induct)
  case less
  show ?case
  proof (cases "\<exists>s1. step s s1")
    case True
    then obtain s1 where s1: "step s s1" ..
    from less.hyps [OF step_down [OF less.prems s1] step_inv [OF less.prems s1]]
    show ?thesis using s1 by (meson converse_rtranclp_into_rtranclp)
  qed blast
qed

end

text \<open>Where every step lowers the height no invariant is needed.\<close>

locale descending =
  fixes step :: "'s \<Rightarrow> 's \<Rightarrow> bool" and height :: "'s \<Rightarrow> nat"
  assumes descends: "step s s' \<Longrightarrow> height s' < height s"

sublocale descending \<subseteq> ending step "\<lambda>_. True" height
  by unfold_locales (auto intro: descends)

end
