(* ===== verification/System.thy ===== *)
theory System
  imports Consumer Message_Json Step_Relation "HOL-Library.Multiset"
begin

text \<open>
  The whole system: API processes that run \<open>Service_Send\<close>, the broker's queues, and any number of
  worker processes per lane that run the consumer's \<open>handle\<close>, with the JSON of messages on the
  wire. A state has the client state of every process, the messages the broker holds (pairs
  of routing key and body, ready or delivered and not yet settled), and the
  messages of the requests the API has accepted.

  Of the broker a step assumes what RabbitMQ documents for persistent messages and confirms: a
  confirmed message is held in the queue its key is bound to; a message that was sent and not
  confirmed, or whose sending reported an error, may be held as well; a worker of a lane is delivered what the lane's queue holds; and a
  message is held until an acknowledgement of it has arrived, which may get lost. So
  messages may be duplicated and reordered.

  A process may die and be started again at any time: an API process that dies while it
  runs \<open>Service_Send\<close> answers nobody and may have sent its message; a worker that dies while it
  runs \<open>handle\<close> has made some of its calls to the provider, may have sent what it would publish,
  and has not acknowledged the delivery. A new process has new connections, in any state.
\<close>

record ('x, 'h, 'w, 'o, 'd) deployment =
  dp_floats :: floats
  dp_parse :: "string \<Rightarrow> string option"
  dp_engines :: "('x, 'h) engines"
  dp_repo :: Repository
  dp_amqp :: "'w amqp"
  dp_publisher :: Publisher
  dp_con :: "'d amqp"
  dp_outside :: "'o outside"
  dp_maxRetries :: go_int

record ('w, 'o, 'd) system =
  sy_apis :: "nat \<Rightarrow> 'w broker"
  sy_workers :: "string \<times> nat \<Rightarrow> ('o outbound, 'w broker, 'd broker) worker"
  sy_held :: "(string \<times> string) multiset"
  sy_accepted :: "Message list"

abbreviation marshal_in :: "('x, 'h, 'w, 'o, 'd) deployment \<Rightarrow> Message \<Rightarrow> string result" where
  "marshal_in D \<equiv> Marshal_Message (dp_floats D)"

abbreviation unmarshal_in :: "('x, 'h, 'w, 'o, 'd) deployment \<Rightarrow> string \<Rightarrow> Message result" where
  "unmarshal_in D \<equiv> Unmarshal_Message (dp_floats D)"

abbreviation lane_of :: "Message \<Rightarrow> string" where
  "lane_of m \<equiv> RoutingKey (m_Type m) (m_Priority m)"

definition api_send ::
  "('x, 'h, 'w, 'o, 'd) deployment \<Rightarrow> string \<Rightarrow> int \<Rightarrow> ctx \<Rightarrow> SendRequest \<Rightarrow> 'w broker \<Rightarrow> SendResponse result \<times> 'w broker" where
  "api_send D uuid now c req =
    Service_Send (dp_parse D) (dp_repo D) (Publisher_Publish (dp_amqp D) (marshal_in D) (dp_publisher D)) uuid now c req"

definition worker_handle ::
  "('x, 'h, 'w, 'o, 'd) deployment \<Rightarrow> Type \<Rightarrow> ctx \<Rightarrow> nat \<Rightarrow> string
    \<Rightarrow> ('o outbound, 'w broker, 'd broker) worker \<Rightarrow> ('o outbound, 'w broker, 'd broker) worker" where
  "worker_handle D t c tag body =
    handle (unmarshal_in D)
      (worker_consumer (dp_outside D) (dp_parse D) (dp_engines D) (dp_repo D) t (dp_amqp D) (marshal_in D)
        (dp_publisher D) (dp_maxRetries D)) c (as_delivery (dp_con D) \<lparr>dl_Body = body, dl_Tag = tag\<rparr>)"

text \<open>What a client has confirmed and sent between two states.\<close>

definition new_confirmed :: "'w broker \<Rightarrow> 'w broker \<Rightarrow> (string \<times> string) list" where
  "new_confirmed s s' = drop (length (confirmed s)) (confirmed s')"

definition new_sent :: "'w broker \<Rightarrow> 'w broker \<Rightarrow> (string \<times> string) list" where
  "new_sent s s' = List.map_filter (\<lambda>(call, reply). published (call, ROk)) (drop (length (bk_calls s)) (bk_calls s'))"

text \<open>The message of an accepted request. Requests come from JSON, and template files have names in
  UTF-8, so the message survives the wire unchanged.\<close>

definition accepted_message ::
  "('x, 'h, 'w, 'o, 'd) deployment \<Rightarrow> string \<Rightarrow> int \<Rightarrow> SendRequest \<Rightarrow> SendResponse result \<Rightarrow> Message list" where
  "accepted_message D uuid now req res =
    (case res of
       Inl _ \<Rightarrow> []
     | Inr _ \<Rightarrow>
        (case Service_Resolve (dp_repo D) (sr_TemplateID req) (sr_Type req) of
           Inl _ \<Rightarrow> [] | Inr tmpl \<Rightarrow> [request_message uuid now req tmpl]))"

definition transportable :: "Message \<Rightarrow> bool" where
  "transportable m \<longleftrightarrow> clean_Message m \<and> storable m"

definition json_request :: "('x, 'h, 'w, 'o, 'd) deployment \<Rightarrow> string \<Rightarrow> int \<Rightarrow> SendRequest \<Rightarrow> bool" where
  "json_request D uuid now req \<longleftrightarrow>
    (\<forall>tmpl. Service_Resolve (dp_repo D) (sr_TemplateID req) (sr_Type req) = Inr tmpl \<longrightarrow>
       transportable (request_message uuid now req tmpl))"

inductive sys_step ::
  "('x, 'h, 'w, 'o, 'd) deployment \<Rightarrow> ('w, 'o, 'd) system \<Rightarrow> ('w, 'o, 'd) system \<Rightarrow> bool" for D where
  send: "api_send D uuid now c req (sy_apis s i) = (res, b) \<Longrightarrow> json_request D uuid now req \<Longrightarrow>
    set_mset extra \<subseteq> set (new_sent (sy_apis s i) b) \<Longrightarrow>
    sys_step D s (s\<lparr>sy_apis := (sy_apis s)(i := b),
      sy_held := sy_held s + mset (new_confirmed (sy_apis s i) b) + extra,
      sy_accepted := sy_accepted s @ accepted_message D uuid now req res\<rparr>)"
| deliver: "Type_IsValid t \<Longrightarrow> Priority_IsValid pr \<Longrightarrow> (RoutingKey t pr, body) \<in># sy_held s \<Longrightarrow>
    worker_handle D t c tag body (sy_workers s (RoutingKey t pr, i)) = w \<Longrightarrow>
    held = sy_held s \<or> last (settled (wk_con w)) = (tag, Acked) \<and> held = sy_held s - {#(RoutingKey t pr, body)#} \<Longrightarrow>
    set_mset extra \<subseteq> set (new_sent (wk_pub (sy_workers s (RoutingKey t pr, i))) (wk_pub w)) \<Longrightarrow>
    sys_step D s (s\<lparr>sy_workers := (sy_workers s)((RoutingKey t pr, i) := w),
      sy_held := held + mset (new_confirmed (wk_pub (sy_workers s (RoutingKey t pr, i))) (wk_pub w)) + extra\<rparr>)"
| api_crash: "api_send D uuid now c req (sy_apis s i) = (res, b) \<Longrightarrow> json_request D uuid now req \<Longrightarrow>
    set_mset extra \<subseteq> set (new_sent (sy_apis s i) b) \<Longrightarrow>
    sys_step D s (s\<lparr>sy_apis := (sy_apis s)(i := b'), sy_held := sy_held s + extra\<rparr>)"
| worker_crash: "Type_IsValid t \<Longrightarrow> Priority_IsValid pr \<Longrightarrow> (RoutingKey t pr, body) \<in># sy_held s \<Longrightarrow>
    worker_handle D t c tag body (sy_workers s (RoutingKey t pr, i)) = w \<Longrightarrow>
    set_mset extra \<subseteq> set (new_sent (wk_pub (sy_workers s (RoutingKey t pr, i))) (wk_pub w)) \<Longrightarrow>
    length (ob_calls (wk_out (sy_workers s (RoutingKey t pr, i)))) \<le> k \<Longrightarrow>
    ob_calls (wk_out w') = take k (ob_calls (wk_out w)) \<Longrightarrow>
    sys_step D s (s\<lparr>sy_workers := (sy_workers s)((RoutingKey t pr, i) := w'), sy_held := sy_held s + extra\<rparr>)"
| restart: "(\<And>k. ob_calls (wk_out (workers k)) = ob_calls (wk_out (sy_workers s k))) \<Longrightarrow>
    sys_step D s (s\<lparr>sy_apis := apis, sy_workers := workers\<rparr>)"

inductive reachable :: "('x, 'h, 'w, 'o, 'd) deployment \<Rightarrow> ('w, 'o, 'd) system \<Rightarrow> bool" for D where
  start: "sy_held s = {#} \<Longrightarrow> sy_accepted s = [] \<Longrightarrow> reachable D s"
| step: "reachable D s \<Longrightarrow> sys_step D s s' \<Longrightarrow> reachable D s'"

subsection \<open>What a publish puts on the wire\<close>

lemma new_confirmed_append: "confirmed s' = confirmed s @ xs \<Longrightarrow> new_confirmed s s' = xs"
  by (simp add: new_confirmed_def)

lemma new_sent_same [simp]: "new_sent s s = []" "new_confirmed s s = []"
  by (simp_all add: new_sent_def new_confirmed_def map_filter_simps)

lemma publish_sent:
  assumes "Publisher_publish amqp marshal p c key m s = (res, s')" "x \<in> set (new_sent s s')"
  shows "\<exists>body. marshal m = Inr body \<and> x = (key, body)"
  using assms(1)
proof (cases rule: Publisher_publish_cases)
  case (unmarshalled err)
  with assms(2) show ?thesis by simp
next
  case (rejected body err)
  with assms(2) show ?thesis by (simp add: new_sent_def map_filter_simps publishing_def)
next
  case (waited body r1 r2)
  with assms(2) show ?thesis by (simp add: new_sent_def map_filter_simps publishing_def)
qed

lemma Publish_sent:
  "Publisher_Publish amqp marshal p c m s = (res, s') \<Longrightarrow> x \<in> set (new_sent s s') \<Longrightarrow>
    \<exists>body. marshal m = Inr body \<and> x = (lane_of m, body)"
  unfolding Publisher_Publish_def by (rule publish_sent)

lemma PublishDeadLetter_sent:
  "Publisher_PublishDeadLetter amqp marshal p c m s = (res, s') \<Longrightarrow> x \<in> set (new_sent s s') \<Longrightarrow>
    \<exists>body. marshal m = Inr body \<and> x = (DeadLetterRoutingKey, body)"
  unfolding Publisher_PublishDeadLetter_def by (rule publish_sent)

subsection \<open>What a worker does with a delivery\<close>

lemma IncrementRetry_lane [simp]: "lane_of (IncrementRetry m) = lane_of m"
  by simp

text \<open>A copy of a message differs at most in the retry count.\<close>

definition copy_of :: "Message \<Rightarrow> Message \<Rightarrow> bool" where
  "copy_of m m' \<longleftrightarrow> m' = m\<lparr>m_RetryCount := m_RetryCount m'\<rparr>"

lemma copy_of_refl [simp]: "copy_of m m"
  by (simp add: copy_of_def)

lemma copy_of_fields:
  assumes "copy_of m m'"
  shows "m_ID m' = m_ID m" "m_Type m' = m_Type m" "m_Priority m' = m_Priority m" "m_Recipient m' = m_Recipient m"
    "m_TemplateID m' = m_TemplateID m" "m_TemplateData m' = m_TemplateData m" "m_Metadata m' = m_Metadata m"
    "m_CreatedAt m' = m_CreatedAt m"
  by (subst assms [unfolded copy_of_def], simp)+

lemma copy_of_IncrementRetry [simp]: "copy_of m m' \<Longrightarrow> copy_of m (IncrementRetry m')"
  by (auto simp: copy_of_def IncrementRetry_def) (metis (no_types, lifting) Message.select_convs(9) Message.surjective Message.update_convs(9))

lemma prepare_copy:
  assumes "copy_of m m'"
  shows "prepare addr eng repo t c m' = prepare addr eng repo t c m"
  unfolding prepare_def Renderer_Render_def copy_of_fields [OF assms] ..

lemma rejects_copy: "copy_of m m' \<Longrightarrow> rejects addr eng repo t m' = rejects addr eng repo t m"
  by (simp add: rejects_def prepare_copy)

text \<open>The lane's processor in a deployment, and the calls it has made.\<close>

abbreviation prepare_in :: "('x, 'h, 'w, 'o, 'd) deployment \<Rightarrow> ctx \<Rightarrow> Message \<Rightarrow> out_call result" where
  "prepare_in D c m \<equiv> prepare (dp_parse D) (dp_engines D) (dp_repo D) (m_Type m) c m"

abbreviation rejects_in :: "('x, 'h, 'w, 'o, 'd) deployment \<Rightarrow> Message \<Rightarrow> go_error option" where
  "rejects_in D m \<equiv> rejects (dp_parse D) (dp_engines D) (dp_repo D) (m_Type m) m"

definition delivered_in :: "('x, 'h, 'w, 'o, 'd) deployment \<Rightarrow> (out_call \<times> go_error option) list \<Rightarrow> Message \<Rightarrow> bool" where
  "delivered_in D calls m \<longleftrightarrow> (\<exists>c call. prepare_in D c m = Inr call \<and> (call, None) \<in> set calls)"

definition refused_in :: "('x, 'h, 'w, 'o, 'd) deployment \<Rightarrow> (out_call \<times> go_error option) list \<Rightarrow> Message \<Rightarrow> bool" where
  "refused_in D calls m \<longleftrightarrow>
    (\<exists>c call e. prepare_in D c m = Inr call \<and> isPermanent e
       \<and> ((LimiterWait c, Some e) \<in> set calls \<or> (call, Some e) \<in> set calls))"

lemma delivered_in_mono: "delivered_in D calls m \<Longrightarrow> delivered_in D (calls @ new) m"
  and refused_in_mono: "refused_in D calls m \<Longrightarrow> refused_in D (calls @ new) m"
  by (auto simp: delivered_in_def refused_in_def)

lemma isPermanent_Errorf [simp]: "isPermanent (Errorf ps e) = isPermanent e"
  by (simp add: isPermanent_def errors_As_def)

text \<open>The verdicts of a worker with their reasons.\<close>

lemma lane_processor_fate:
  assumes "lane_processor outside addr eng repo (m_Type m) c m s = (res, out)"
    and "addr = dp_parse D" "eng = dp_engines D" "repo = dp_repo D"
  shows "(\<exists>new. ob_calls out = ob_calls s @ new)
    \<and> (res = None \<longrightarrow> delivered_in D (ob_calls out) m)
    \<and> (\<forall>e. res = Some e \<longrightarrow> isPermanent e \<longrightarrow> refused_in D (ob_calls out) m \<or> rejects_in D m \<noteq> None)"
  using assms(1) [unfolded lane_processor_dispatch]
proof (cases rule: dispatch_cases)
  case (rejected e)
  then have "rejects_in D m = Some e"
    using assms(2-4) rejects_Some by blast
  with rejected show ?thesis by simp
next
  case (limited call e)
  then show ?thesis using assms(2-4) by (auto simp: refused_in_def)
next
  case (called call r)
  then show ?thesis using assms(2-4) by (cases r) (auto simp: refused_in_def delivered_in_def)
qed

lemma worker_handle_run:
  assumes "worker_handle D t c tag body w = w'"
  obtains res out where
    "process_result (unmarshal_in D) (worker_consumer (dp_outside D) (dp_parse D) (dp_engines D) (dp_repo D) t (dp_amqp D)
        (marshal_in D) (dp_publisher D) (dp_maxRetries D)) c (as_delivery (dp_con D) \<lparr>dl_Body = body, dl_Tag = tag\<rparr>) (wk_out w)
      = (res, out)"
    "wk_out w' = out \<and>
      (case verdict_of (unmarshal_in D body) res (dp_maxRetries D) of
         Retry m \<Rightarrow> (confirmed (wk_pub w') = confirmed (wk_pub w) \<and> settled (wk_con w') = settled (wk_con w) @ [(tag, Requeued)])
           \<or> (\<exists>b. marshal_in D m = Inr b \<and> confirmed (wk_pub w') = confirmed (wk_pub w) @ [(lane_of m, b)]
                \<and> settled (wk_con w') = settled (wk_con w) @ [(tag, Acked)])
       | Park m \<Rightarrow> (confirmed (wk_pub w') = confirmed (wk_pub w) \<and> settled (wk_con w') = settled (wk_con w) @ [(tag, Requeued)])
           \<or> (\<exists>b. marshal_in D m = Inr b \<and> confirmed (wk_pub w') = confirmed (wk_pub w) @ [(DeadLetterRoutingKey, b)]
                \<and> settled (wk_con w') = settled (wk_con w) @ [(tag, Acked)])
       | _ \<Rightarrow> wk_pub w' = wk_pub w \<and> settled (wk_con w') = settled (wk_con w) @ [(tag, Acked)])"
proof -
  let ?co = "worker_consumer (dp_outside D) (dp_parse D) (dp_engines D) (dp_repo D) t (dp_amqp D)
        (marshal_in D) (dp_publisher D) (dp_maxRetries D)"
  let ?d = "\<lparr>dl_Body = body, dl_Tag = tag\<rparr>"
  obtain res out where run: "process_result (unmarshal_in D) ?co c (as_delivery (dp_con D) ?d) (wk_out w) = (res, out)"
    by (cases "process_result (unmarshal_in D) ?co c (as_delivery (dp_con D) ?d) (wk_out w)")
  have "qd_Body (as_delivery (dp_con D) ?d) = body" by (simp add: as_delivery_def)
  with worker.handle_outcome [OF run [unfolded worker_consumer_def] assms [unfolded worker_handle_def worker_consumer_def]]
  show ?thesis by (intro that [OF run]) (simp only: Delivery.select_convs)
qed


text \<open>A worker sends and has confirmed only copies of the message it was delivered.\<close>

definition republished :: "('x, 'h, 'w, 'o, 'd) deployment \<Rightarrow> Message \<Rightarrow> string \<times> string \<Rightarrow> bool" where
  "republished D m x \<longleftrightarrow>
    (\<exists>b. CanRetry m (dp_maxRetries D) \<and> marshal_in D (IncrementRetry m) = Inr b \<and> x = (lane_of m, b)
    \<or> marshal_in D m = Inr b \<and> x = (DeadLetterRoutingKey, b))"

lemma worker_sends:
  assumes "worker_handle D t c tag body w = w'" "x \<in> set (new_sent (wk_pub w) (wk_pub w'))"
  shows "\<exists>m. unmarshal_in D body = Inr m \<and> republished D m x"
proof -
  let ?pub = "Publisher_Publish (dp_amqp D) (marshal_in D) (dp_publisher D)"
  let ?dead = "Publisher_PublishDeadLetter (dp_amqp D) (marshal_in D) (dp_publisher D)"
  obtain m where m: "unmarshal_in D body = Inr m"
    using assms by (cases "unmarshal_in D body") (auto simp: worker_handle_def handle_def as_delivery_def ignore_def)
  have "wk_pub w' = wk_pub w
      \<or> CanRetry m (dp_maxRetries D) \<and> (\<exists>r. ?pub c (IncrementRetry m) (wk_pub w) = (r, wk_pub w'))
      \<or> (\<exists>r. ?dead c m (wk_pub w) = (r, wk_pub w'))"
    using assms(1) [symmetric]
    by (simp add: worker_handle_def handle_def m as_delivery_def ignore_def Let_def worker_consumer_def NewConsumer_def
        split: prod.splits option.splits if_splits)
  then show ?thesis
    using assms(2) m Publish_sent [of "dp_amqp D" "marshal_in D" "dp_publisher D" c "IncrementRetry m" "wk_pub w" _ "wk_pub w'" x]
      PublishDeadLetter_sent [of "dp_amqp D" "marshal_in D" "dp_publisher D" c m "wk_pub w" _ "wk_pub w'" x]
    by (auto simp: republished_def)
qed

lemma worker_confirms:
  assumes "worker_handle D t c tag body w = w'" "x \<in> set (new_confirmed (wk_pub w) (wk_pub w'))"
  shows "\<exists>m. unmarshal_in D body = Inr m \<and> republished D m x"
  using assms(1)
proof (cases rule: worker_handle_run)
  case (1 res out)
  show ?thesis
  proof (cases "unmarshal_in D body")
    case (Inl e)
    with 1 assms(2) show ?thesis by (simp add: verdict_of_def)
  next
    case (Inr m)
    with 1 assms(2) show ?thesis
      by (auto simp: verdict_of_def new_confirmed_def republished_def split: option.splits if_splits)
  qed
qed

text \<open>An acknowledged delivery has been dealt with.\<close>

lemma worker_fate:
  assumes "worker_handle D t c tag body w = w'" "unmarshal_in D body = Inr m" "m_Type m = t"
  shows "(\<exists>new. ob_calls (wk_out w') = ob_calls (wk_out w) @ new)
    \<and> (last (settled (wk_con w')) = (tag', Acked) \<longrightarrow>
        delivered_in D (ob_calls (wk_out w')) m \<or> refused_in D (ob_calls (wk_out w')) m \<or> rejects_in D m \<noteq> None
        \<or> (\<exists>b. marshal_in D (IncrementRetry m) = Inr b \<and> new_confirmed (wk_pub w) (wk_pub w') = [(lane_of m, b)])
        \<or> (\<exists>b. marshal_in D m = Inr b \<and> new_confirmed (wk_pub w) (wk_pub w') = [(DeadLetterRoutingKey, b)]))"
  using assms(1)
proof (cases rule: worker_handle_run)
  case (1 res out)
  have "lane_processor (dp_outside D) (dp_parse D) (dp_engines D) (dp_repo D) (m_Type m) c m (wk_out w) = (res, out)"
    using 1(1) assms(2,3) by (simp add: process_result_def as_delivery_def worker_consumer_def NewConsumer_def)
  note fate = lane_processor_fate [OF this refl refl refl]
  show ?thesis
  proof (cases res)
    case None
    with fate 1(2) assms(2) show ?thesis by (simp add: verdict_of_def)
  next
    case (Some e)
    with fate 1(2) assms(2) show ?thesis
      by (auto simp: verdict_of_def new_confirmed_append split: if_splits)
  qed
qed

lemma worker_calls_grow:
  assumes "worker_handle D t c tag body w = w'"
  shows "\<exists>new. ob_calls (wk_out w') = ob_calls (wk_out w) @ new"
  using assms
proof (cases rule: worker_handle_run)
  case (1 res out)
  then show ?thesis
  proof (cases "unmarshal_in D body")
    case (Inl e)
    with 1 show ?thesis by (simp add: process_result_def as_delivery_def)
  next
    case (Inr m)
    with 1 have "dispatch (dp_outside D) t c (prepare (dp_parse D) (dp_engines D) (dp_repo D) t c m) (wk_out w) = (res, out)"
      by (simp add: process_result_def as_delivery_def worker_consumer_def NewConsumer_def lane_processor_dispatch)
    then show ?thesis
      by (cases rule: dispatch_cases) (use 1 in auto)
  qed
qed


subsection \<open>Every accepted message is accounted for\<close>

definition message_ok :: "('x, 'h, 'w, 'o, 'd) deployment \<Rightarrow> Message \<Rightarrow> bool" where
  "message_ok D m \<longleftrightarrow>
    transportable m \<and> valid_message (dp_parse D) m \<and> finite_data (m_TemplateData m) \<and> writable_time (m_CreatedAt m)"

definition held_ok :: "('x, 'h, 'w, 'o, 'd) deployment \<Rightarrow> string \<times> string \<Rightarrow> bool" where
  "held_ok D x \<longleftrightarrow> (\<exists>m. unmarshal_in D (snd x) = Inr m \<and> message_ok D m \<and> 0 \<le> sint (m_RetryCount m)
    \<and> fst x \<in> {lane_of m, DeadLetterRoutingKey})"

definition waits :: "('x, 'h, 'w, 'o, 'd) deployment \<Rightarrow> (string \<times> string) multiset \<Rightarrow> string \<Rightarrow> Message \<Rightarrow> bool" where
  "waits D held key m \<longleftrightarrow> (\<exists>body m'. (key, body) \<in># held \<and> unmarshal_in D body = Inr m' \<and> copy_of m m')"

definition settled_for :: "('x, 'h, 'w, 'o, 'd) deployment \<Rightarrow> ('w, 'o, 'd) system \<Rightarrow> Message \<Rightarrow> bool" where
  "settled_for D s m \<longleftrightarrow> rejects_in D m \<noteq> None
    \<or> (\<exists>i. delivered_in D (ob_calls (wk_out (sy_workers s (lane_of m, i)))) m
          \<or> refused_in D (ob_calls (wk_out (sy_workers s (lane_of m, i)))) m)"

definition accounted :: "('x, 'h, 'w, 'o, 'd) deployment \<Rightarrow> ('w, 'o, 'd) system \<Rightarrow> Message \<Rightarrow> bool" where
  "accounted D s m \<longleftrightarrow>
    waits D (sy_held s) (lane_of m) m \<or> waits D (sy_held s) DeadLetterRoutingKey m \<or> settled_for D s m"

lemma message_ok_IncrementRetry [simp]: "message_ok D (IncrementRetry m) = message_ok D m"
  by (simp add: message_ok_def transportable_def)

lemma wire:
  assumes "floats_ok (dp_floats D)" "transportable m" "marshal_in D m = Inr b"
  shows "unmarshal_in D b = Inr m"
  using Unmarshal_Marshal [OF assms(1) _ assms(3)] assms(2) stored_Message_clean by (simp add: transportable_def)

lemma wire_ok:
  assumes "floats_ok (dp_floats D)" "transportable m" "valid_message (dp_parse D) m" "marshal_in D m = Inr b"
    and "key \<in> {lane_of m, DeadLetterRoutingKey}" "0 \<le> sint (m_RetryCount m)"
  shows "message_ok D m \<and> held_ok D (key, b)"
proof -
  have "message_ok D m"
    using assms(2,3) Marshal_Some [of "dp_floats D" m] assms(4) by (auto simp: message_ok_def)
  with wire [OF assms(1,2,4)] assms(5,6) show ?thesis by (auto simp: held_ok_def)
qed

lemma republished_ok:
  assumes "floats_ok (dp_floats D)" "message_ok D m" "0 \<le> sint (m_RetryCount m)" "republished D m x"
  shows "held_ok D x"
  using assms CanRetry_IncrementRetry [of m "dp_maxRetries D"] wire_ok [OF assms(1), of m _ "fst x"] wire_ok [OF assms(1), of "IncrementRetry m" _ "fst x"]
  by (auto simp: republished_def message_ok_def transportable_def)

lemma api_send_effect:
  assumes ok: "floats_ok (dp_floats D)" and run: "api_send D uuid now c req b = (res, b')"
    and req: "json_request D uuid now req"
  shows "(\<forall>x \<in> set (new_sent b b') \<union> set (new_confirmed b b'). held_ok D x)
    \<and> (\<forall>m \<in> set (accepted_message D uuid now req res). message_ok D m
        \<and> (\<exists>body. unmarshal_in D body = Inr m \<and> (lane_of m, body) \<in> set (new_confirmed b b')))"
  using run [unfolded api_send_def]
proof (cases rule: Service_Send_cases)
  case (published tmpl r)
  let ?m = "request_message uuid now req tmpl"
  have m: "transportable ?m" "valid_message (dp_parse D) ?m"
    using req published(2) valid_request_message [OF published(1)] by (simp_all add: json_request_def)
  have sent: "\<exists>body. marshal_in D ?m = Inr body \<and> x = (lane_of ?m, body)" if "x \<in> set (new_sent b b')" for x
    using Publish_sent [OF published(3) that] .
  have confirmed: "(r = None \<longrightarrow> (\<exists>body. marshal_in D ?m = Inr body \<and> new_confirmed b b' = [(lane_of ?m, body)]))
      \<and> (r \<noteq> None \<longrightarrow> new_confirmed b b' = [])"
    using rabbit_pub.Publish_nil [of "dp_amqp D" "marshal_in D" "dp_publisher D" c ?m b b']
      rabbit_pub.Publish_err [of "dp_amqp D" "marshal_in D" "dp_publisher D" c ?m b _ b'] published(3)
    by (cases r) (auto simp: new_confirmed_def)
  have held: "message_ok D ?m \<and> held_ok D (lane_of ?m, body)" if "marshal_in D ?m = Inr body" for body
    using wire_ok [OF ok m that, of "lane_of ?m"] by (simp add: request_message_def)
  have "held_ok D x" if "x \<in> set (new_sent b b') \<union> set (new_confirmed b b')" for x
    using that sent [of x] confirmed held by (cases r) auto
  moreover have "message_ok D m \<and> (\<exists>body. unmarshal_in D body = Inr m \<and> (lane_of m, body) \<in> set (new_confirmed b b'))"
    if "m \<in> set (accepted_message D uuid now req res)" for m
  proof -
    have "m = ?m" "r = None"
      using that published(2,4) by (auto simp: accepted_message_def split: option.splits)
    with confirmed held wire [OF ok m(1)] show ?thesis by auto
  qed
  ultimately show ?thesis by blast
qed (simp_all add: accepted_message_def)

lemma waits_mono: "waits D held key m \<Longrightarrow> held \<subseteq># held' \<Longrightarrow> waits D held' key m"
  by (meson mset_subset_eqD waits_def)

definition sys_inv :: "('x, 'h, 'w, 'o, 'd) deployment \<Rightarrow> ('w, 'o, 'd) system \<Rightarrow> bool" where
  "sys_inv D s \<longleftrightarrow> (\<forall>x \<in># sy_held s. held_ok D x) \<and> (\<forall>m \<in> set (sy_accepted s). message_ok D m \<and> accounted D s m)"

lemma held_on_lane:
  assumes "held_ok D (RoutingKey t pr, body)" "Type_IsValid t" "Priority_IsValid pr"
  obtains m where "unmarshal_in D body = Inr m" "message_ok D m" "m_Type m = t" "m_Priority m = pr" "lane_of m = RoutingKey t pr"
    "0 \<le> sint (m_RetryCount m)"
proof -
  obtain m where m: "unmarshal_in D body = Inr m" "message_ok D m" "RoutingKey t pr \<in> {lane_of m, DeadLetterRoutingKey}"
      "0 \<le> sint (m_RetryCount m)"
    using assms(1) by (auto simp: held_ok_def)
  then have "Type_IsValid (m_Type m)" "Priority_IsValid (m_Priority m)"
    by (simp_all add: message_ok_def valid_message_def)
  with m RoutingKey_not_dead assms(2,3) RoutingKey_inject [of t pr "m_Type m" "m_Priority m"] show ?thesis
    by (intro that [OF m(1,2)]) auto
qed


lemma settled_for_mono:
  assumes "settled_for D s m"
    and "\<And>k. \<exists>new. ob_calls (wk_out (sy_workers s' k)) = ob_calls (wk_out (sy_workers s k)) @ new"
  shows "settled_for D s' m"
proof (cases "rejects_in D m")
  case None
  with assms(1) obtain i where i: "delivered_in D (ob_calls (wk_out (sy_workers s (lane_of m, i)))) m
      \<or> refused_in D (ob_calls (wk_out (sy_workers s (lane_of m, i)))) m"
    by (auto simp: settled_for_def)
  obtain new where "ob_calls (wk_out (sy_workers s' (lane_of m, i))) = ob_calls (wk_out (sy_workers s (lane_of m, i))) @ new"
    using assms(2) by blast
  with i show ?thesis
    unfolding settled_for_def using delivered_in_mono refused_in_mono by metis
qed (simp add: settled_for_def)

lemma settled_for_copy: "copy_of m m' \<Longrightarrow> settled_for D s m' \<Longrightarrow> settled_for D s m"
  by (simp add: settled_for_def delivered_in_def refused_in_def copy_of_fields prepare_copy rejects_copy)

lemma deliver_settles:
  assumes ok: "floats_ok (dp_floats D)" and lane: "lane_of m = key" and parsed: "unmarshal_in D body = Inr m" "message_ok D m"
    and run: "worker_handle D (m_Type m) c tag body (sy_workers s (key, i)) = w"
    and acked: "last (settled (wk_con w)) = (tag, Acked)"
    and s': "sy_workers s' = (sy_workers s)((key, i) := w)"
      "mset (new_confirmed (wk_pub (sy_workers s (key, i))) (wk_pub w)) \<subseteq># sy_held s'"
    and "copy_of m0 m"
  shows "accounted D s' m0"
proof -
  let ?w = "sy_workers s (key, i)"
  have held: "x \<in># sy_held s'" if "new_confirmed (wk_pub ?w) (wk_pub w) = [x]" for x
    using s'(2) that by simp
  have fields: "lane_of m0 = key"
    using lane copy_of_fields [OF assms(9)] by simp
  consider "settled_for D s' m" | b where "marshal_in D (IncrementRetry m) = Inr b" "(key, b) \<in># sy_held s'"
    | b where "marshal_in D m = Inr b" "(DeadLetterRoutingKey, b) \<in># sy_held s'"
  proof -
    have "settled_for D s' m" if "delivered_in D (ob_calls (wk_out w)) m \<or> refused_in D (ob_calls (wk_out w)) m \<or> rejects_in D m \<noteq> None"
    proof -
      have "sy_workers s' (lane_of m, i) = w" using s'(1) lane by simp
      then show ?thesis unfolding settled_for_def using that by blast
    qed
    with worker_fate [OF run parsed(1) refl, of tag] acked held lane that show thesis by blast
  qed
  then show ?thesis
  proof cases
    case 1
    from settled_for_copy [OF assms(9) this] show ?thesis by (simp add: accounted_def)
  next
    case (2 b)
    have "transportable (IncrementRetry m)"
      using parsed(2) by (simp add: message_ok_def transportable_def)
    from wire [OF ok this 2(1)] 2(2) have "waits D (sy_held s') key m0"
      unfolding waits_def using copy_of_IncrementRetry [OF assms(9)] by blast
    with fields show ?thesis by (simp add: accounted_def)
  next
    case (3 b)
    have "transportable m" using parsed(2) by (simp add: message_ok_def)
    from wire [OF ok this 3(1)] 3(2) have "waits D (sy_held s') DeadLetterRoutingKey m0"
      unfolding waits_def using assms(9) by blast
    then show ?thesis by (simp add: accounted_def)
  qed
qed

lemma in_minus_single: "x \<in># M \<Longrightarrow> x \<notin># M - {#y#} \<Longrightarrow> x = y"
  by (simp add: in_diff_count count_greater_zero_iff [symmetric] del: count_greater_zero_iff split: if_splits)

text \<open>A step that takes nothing away from the held messages and nothing back of the calls.\<close>

lemma sys_inv_more:
  assumes inv: "sys_inv D s" and acc: "sy_accepted s' = sy_accepted s" and more: "sy_held s \<subseteq># sy_held s'"
    and held: "\<And>x. x \<in># sy_held s' \<Longrightarrow> x \<in># sy_held s \<or> held_ok D x"
    and grow: "\<And>k. \<exists>new. ob_calls (wk_out (sy_workers s' k)) = ob_calls (wk_out (sy_workers s k)) @ new"
  shows "sys_inv D s'"
proof -
  have "accounted D s' m" if "accounted D s m" for m
    using that waits_mono [OF _ more] settled_for_mono [OF _ grow] unfolding accounted_def by blast
  with inv acc held show ?thesis by (auto simp: sys_inv_def)
qed

text \<open>What a worker sends for a delivery it can read.\<close>

lemma worker_sends_ok:
  assumes ok: "floats_ok (dp_floats D)" and inv: "sys_inv D s"
    and lane: "Type_IsValid t" "Priority_IsValid pr" "(RoutingKey t pr, body) \<in># sy_held s"
    and run: "worker_handle D t c tag body w = w'"
    and x: "x \<in> set (new_sent (wk_pub w) (wk_pub w')) \<union> set (new_confirmed (wk_pub w) (wk_pub w'))"
  shows "held_ok D x"
proof -
  have "held_ok D (RoutingKey t pr, body)" using inv lane(3) by (simp add: sys_inv_def)
  then obtain m where m: "unmarshal_in D body = Inr m" "message_ok D m" "0 \<le> sint (m_RetryCount m)"
    using lane(1,2) by (rule held_on_lane)
  from x worker_sends [OF run] worker_confirms [OF run] m(1) republished_ok [OF ok m(2,3)] show ?thesis by fastforce
qed

lemma sys_step_inv:
  assumes ok: "floats_ok (dp_floats D)" and "sys_step D s s'" and inv: "sys_inv D s"
  shows "sys_inv D s'"
  using assms(2)
proof cases
  case (send uuid now c req i res b extra)
  note effect = api_send_effect [OF ok send(2,3)]
  let ?s = "s\<lparr>sy_apis := (sy_apis s)(i := b),
      sy_held := sy_held s + mset (new_confirmed (sy_apis s i) b) + extra,
      sy_accepted := sy_accepted s @ accepted_message D uuid now req res\<rparr>"
  have held: "held_ok D x" if "x \<in># sy_held ?s" for x
    using that effect send(4) inv by (auto simp: sys_inv_def)
  have old: "accounted D ?s m" if "accounted D s m" for m
  proof -
    have "waits D (sy_held ?s) key m" if "waits D (sy_held s) key m" for key
      using waits_mono [OF that, of "sy_held ?s"] by (simp add: subset_mset.add_increasing2)
    moreover have "settled_for D ?s m" if "settled_for D s m"
      using settled_for_mono [OF that, of ?s] by simp
    ultimately show ?thesis
      using that unfolding accounted_def by blast
  qed
  have new: "accounted D ?s m" if new: "m \<in> set (accepted_message D uuid now req res)" for m
  proof -
    obtain body where "unmarshal_in D body = Inr m" "(lane_of m, body) \<in> set (new_confirmed (sy_apis s i) b)"
      using effect new by blast
    then have "waits D (sy_held ?s) (lane_of m) m"
      unfolding waits_def by (intro exI [of _ body] exI [of _ m]) simp
    then show ?thesis unfolding accounted_def ..
  qed
  have "sys_inv D ?s"
    unfolding sys_inv_def using held old new inv effect by (auto simp: sys_inv_def)
  then show ?thesis using send(1) by simp
next
  case (deliver t pr body c tag i w held extra)
  let ?key = "RoutingKey t pr"
  let ?w = "sy_workers s (?key, i)"
  let ?s = "s\<lparr>sy_workers := (sy_workers s)((?key, i) := w),
      sy_held := held + mset (new_confirmed (wk_pub ?w) (wk_pub w)) + extra\<rparr>"
  have "held_ok D (?key, body)" using inv deliver(4) by (simp add: sys_inv_def)
  then obtain m where m: "unmarshal_in D body = Inr m" "message_ok D m" "m_Type m = t" "lane_of m = ?key"
    using deliver(2,3) by (rule held_on_lane)
  note sent = worker_sends_ok [OF ok inv deliver(2,3,4,5)]
  have "held \<subseteq># sy_held s" using deliver(6) by auto
  then have held: "held_ok D x" if "x \<in># sy_held ?s" for x
    using that sent [of x] deliver(7) inv by (auto simp: sys_inv_def dest: mset_subset_eqD)
  have grow: "\<exists>new. ob_calls (wk_out (sy_workers ?s k)) = ob_calls (wk_out (sy_workers s k)) @ new" for k
    using worker_calls_grow [OF deliver(5)] by simp
  have "accounted D ?s m0" if acc: "accounted D s m0" for m0
  proof (cases "settled_for D s m0")
    case True
    with settled_for_mono [OF True grow] show ?thesis by (simp add: accounted_def)
  next
    case False
    with acc obtain key b m' where b: "(key, b) \<in># sy_held s" "unmarshal_in D b = Inr m'" "copy_of m0 m'"
        "key \<in> {lane_of m0, DeadLetterRoutingKey}"
      by (auto simp: accounted_def waits_def)
    show ?thesis
    proof (cases "(key, b) \<in># held")
      case True
      with b have "waits D (sy_held ?s) key m0" by (auto simp: waits_def)
      with b(4) show ?thesis by (auto simp: accounted_def)
    next
      case False
      with deliver(6) b(1) have acked: "last (settled (wk_con w)) = (tag, Acked)"
          and out: "(key, b) \<notin># sy_held s - {#(?key, body)#}" by auto
      have "(key, b) = (?key, body)"
        by (rule in_minus_single [OF b(1) out])
      then have "copy_of m0 m" using b(2,3) m(1) by simp
      moreover have "sy_workers ?s = (sy_workers s)((?key, i) := w)"
        "mset (new_confirmed (wk_pub ?w) (wk_pub w)) \<subseteq># sy_held ?s"
        by (simp_all add: add.commute [of held] subset_mset.add_increasing2)
      moreover have "worker_handle D (m_Type m) c tag body ?w = w"
        using m(3) deliver(5) by simp
      ultimately show ?thesis
        by (intro deliver_settles [OF ok m(4,1,2) _ acked])
    qed
  qed
  with held inv have "sys_inv D ?s" by (auto simp: sys_inv_def)
  then show ?thesis using deliver(1) by simp
next
  case (api_crash uuid now c req i res b extra b')
  show ?thesis
    unfolding api_crash(1)
    by (rule sys_inv_more [OF inv]) (use api_crash(4) api_send_effect [OF ok api_crash(2,3)] in auto)
next
  case (worker_crash t pr body c tag i w extra k w')
  let ?w = "sy_workers s (RoutingKey t pr, i)"
  obtain new where new: "ob_calls (wk_out w) = ob_calls (wk_out ?w) @ new"
    using worker_calls_grow [OF worker_crash(5)] by blast
  have "ob_calls (wk_out w') = ob_calls (wk_out ?w) @ take (k - length (ob_calls (wk_out ?w))) new"
    using worker_crash(7,8) new by simp
  then show ?thesis
    unfolding worker_crash(1)
    by (intro sys_inv_more [OF inv]) (use worker_crash(6) worker_sends_ok [OF ok inv worker_crash(2,3,4,5)] in auto)
next
  case (restart workers apis)
  show ?thesis
    unfolding restart(1) by (rule sys_inv_more [OF inv]) (use restart(2) in auto)
qed

lemma reachable_inv: "reachable D s \<Longrightarrow> floats_ok (dp_floats D) \<Longrightarrow> sys_inv D s"
proof (induction rule: reachable.induct)
  case (step s s')
  then show ?case using sys_step_inv by blast
qed (simp add: sys_inv_def)


subsection \<open>Draining the lanes\<close>

text \<open>A delivery that goes well: it is acknowledged and the acknowledgement arrives. The work a held
  message stands for is the number of deliveries it can still lead to.\<close>

inductive drain_step ::
  "('x, 'h, 'w, 'o, 'd) deployment \<Rightarrow> ('w, 'o, 'd) system \<Rightarrow> ('w, 'o, 'd) system \<Rightarrow> bool" for D where
  drain: "Type_IsValid t \<Longrightarrow> Priority_IsValid pr \<Longrightarrow> (RoutingKey t pr, body) \<in># sy_held s \<Longrightarrow>
    worker_handle D t c tag body (sy_workers s (RoutingKey t pr, i)) = w \<Longrightarrow>
    last (settled (wk_con w)) = (tag, Acked) \<Longrightarrow>
    drain_step D s (s\<lparr>sy_workers := (sy_workers s)((RoutingKey t pr, i) := w),
      sy_held := sy_held s - {#(RoutingKey t pr, body)#}
        + mset (new_confirmed (wk_pub (sy_workers s (RoutingKey t pr, i))) (wk_pub w))\<rparr>)"

definition weight :: "('x, 'h, 'w, 'o, 'd) deployment \<Rightarrow> string \<times> string \<Rightarrow> nat" where
  "weight D x =
    (if fst x = DeadLetterRoutingKey then 0
     else case unmarshal_in D (snd x) of
            Inl _ \<Rightarrow> 1
          | Inr m \<Rightarrow> Suc (nat (sint (dp_maxRetries D) - sint (m_RetryCount m))))"

definition work :: "('x, 'h, 'w, 'o, 'd) deployment \<Rightarrow> ('w, 'o, 'd) system \<Rightarrow> nat" where
  "work D s = (\<Sum>x \<in># sy_held s. weight D x)"

lemma drain_sys_step:
  assumes "drain_step D s s'"
  shows "sys_step D s s' \<and> sy_accepted s' = sy_accepted s"
  using assms
proof cases
  case (drain t pr body c tag i w)
  have "sys_step D s (s\<lparr>sy_workers := (sy_workers s)((RoutingKey t pr, i) := w),
      sy_held := sy_held s - {#(RoutingKey t pr, body)#}
        + mset (new_confirmed (wk_pub (sy_workers s (RoutingKey t pr, i))) (wk_pub w)) + {#}\<rparr>)"
    using drain(6) by (intro sys_step.deliver [OF drain(2-5)]) simp_all
  then show ?thesis using drain(1) by simp
qed

lemma worker_work:
  assumes ok: "floats_ok (dp_floats D)" and run: "worker_handle D t c tag body w = w'" and key: "key \<noteq> DeadLetterRoutingKey"
  shows "(\<Sum>x \<in># mset (new_confirmed (wk_pub w) (wk_pub w')). weight D x) < weight D (key, body)"
  using run
proof (cases rule: worker_handle_run)
  case (1 res out)
  show ?thesis
  proof (cases "unmarshal_in D body")
    case (Inl e)
    with 1(2) key show ?thesis by (simp add: verdict_of_def weight_def)
  next
    case (Inr m)
    have again: "weight D (lane_of m, b) < weight D (key, body)"
      if retry: "CanRetry m (dp_maxRetries D)" "marshal_in D (IncrementRetry m) = Inr b" for b
    proof -
      have "m_RetryCount m' = m_RetryCount (IncrementRetry m)" if "unmarshal_in D b = Inr m'" for m'
        using Unmarshal_Marshal_some [OF ok retry(2) that] by (simp add: stored_Message_def)
      with CanRetry_IncrementRetry [OF retry(1)] key Inr show ?thesis
        by (auto simp: weight_def split: sum.split)
    qed
    have "weight D (DeadLetterRoutingKey, b) < weight D (key, body)" for b
      using key Inr by (simp add: weight_def)
    with 1(2) Inr key again show ?thesis
      by (auto simp: verdict_of_def new_confirmed_append weight_def split: option.splits if_splits)
  qed
qed

lemma drain_work:
  assumes ok: "floats_ok (dp_floats D)" and "drain_step D s s'"
  shows "work D s' < work D s"
  using assms(2)
proof cases
  case (drain t pr body c tag i w)
  obtain rest where "sy_held s = add_mset (RoutingKey t pr, body) rest"
    using drain(4) by (metis insert_DiffM)
  with worker_work [OF ok drain(5) RoutingKey_not_dead [OF drain(2), of pr]] drain(1) show ?thesis
    by (simp add: work_def)
qed

interpretation draining: ending "drain_step D" "\<lambda>s. floats_ok (dp_floats D) \<and> reachable D s" "work D"
  for D :: "('x, 'h, 'w, 'o, 'd) deployment"
  by unfold_locales (auto dest: drain_work drain_sys_step intro: reachable.step)

text \<open>A deployment whose broker takes and confirms every message.\<close>

definition steady :: "('x, 'h, 'w, 'o, 'd) deployment \<Rightarrow> bool" where
  "steady D \<longleftrightarrow>
    (\<forall>c e key m i pub w. fst (amqp_invoke (dp_amqp D) (PublishDeferred c e key m i pub) w) = ROk)
    \<and> (\<forall>c w. fst (amqp_invoke (dp_amqp D) (WaitConfirm c) w) = RAcked True)"

lemma steady_publish:
  assumes "steady D" "marshal_in D m = Inr b"
  shows "\<exists>s'. Publisher_publish (dp_amqp D) (marshal_in D) p c key m s = (None, s')"
proof -
  let ?amqp = "dp_amqp D"
  have fst_invoke: "fst (invoke ?amqp call s) = fst (amqp_invoke ?amqp call (bk_env s))" for call s
    by (simp add: invoke_def split: prod.split)
  define c' where "c' = WithTimeout c (amqp_now ?amqp (bk_env s)) (pb_timeout p)"
  define call where "call = PublishDeferred c' Exchange key False False
    \<lparr>pub_ContentType = ''application/json'', pub_Persistent = True, pub_MessageId = m_ID m,
     pub_Timestamp = m_CreatedAt m, pub_Body = b\<rparr>"
  obtain s1 where s1: "invoke ?amqp call s = (ROk, s1)"
    using assms(1) fst_invoke [of call s] by (cases "invoke ?amqp call s") (simp add: steady_def call_def)
  obtain s2 where s2: "invoke ?amqp (WaitConfirm c') s1 = (RAcked True, s2)"
    using assms(1) fst_invoke [of "WaitConfirm c'" s1] by (cases "invoke ?amqp (WaitConfirm c') s1") (simp add: steady_def)
  show ?thesis
    unfolding Publisher_publish_def Let_def assms(2) c'_def [symmetric] sum.case call_def [symmetric]
    by (simp add: s1 s2)
qed


lemma worker_acks:
  assumes "steady D" "unmarshal_in D body = Inr m" "message_ok D m" "worker_handle D t c tag body w = w'"
  shows "last (settled (wk_con w')) = (tag, Acked)"
proof -
  let ?co = "worker_consumer (dp_outside D) (dp_parse D) (dp_engines D) (dp_repo D) t (dp_amqp D)
        (marshal_in D) (dp_publisher D) (dp_maxRetries D)"
  let ?d = "as_delivery (dp_con D) \<lparr>dl_Body = body, dl_Tag = tag\<rparr>"
  obtain res out where run: "process_result (unmarshal_in D) ?co c ?d (wk_out w) = (res, out)"
    by (cases "process_result (unmarshal_in D) ?co c ?d (wk_out w)")
  have published: "\<exists>pub. Publisher_publish (dp_amqp D) (marshal_in D) p c key m' s = (None, pub)"
    if "m' \<in> {m, IncrementRetry m}" for p c key m' s
  proof -
    have "\<exists>b. marshal_in D m' = Inr b"
      using that assms(3) Marshal_Some [of "dp_floats D" m'] by (auto simp: message_ok_def)
    then show ?thesis using steady_publish [OF assms(1)] by blast
  qed
  have acked: "last (settled (wk_con (ignore (qd_Ack ?d) s))) = (tag, Acked)" for s :: "('d outbound, 'c broker, 'e broker) worker"
    by (simp add: ignore_def rabbit_delivery.Ack_settles)
  have body: "qd_Body ?d = body" by (simp add: as_delivery_def)
  have co: "co_maxRetries ?co = dp_maxRetries D" "co_Publish ?co = Publisher_Publish (dp_amqp D) (marshal_in D) (dp_publisher D)"
    "co_PublishDeadLetter ?co = Publisher_PublishDeadLetter (dp_amqp D) (marshal_in D) (dp_publisher D)"
    by (simp_all add: worker_consumer_def NewConsumer_def)
  obtain pub where pub: "Publisher_Publish (dp_amqp D) (marshal_in D) (dp_publisher D) c (IncrementRetry m) (wk_pub w) = (None, pub)"
    using published [of "IncrementRetry m"] unfolding Publisher_Publish_def by blast
  obtain pub' where pub': "Publisher_PublishDeadLetter (dp_amqp D) (marshal_in D) (dp_publisher D) c m (wk_pub w) = (None, pub')"
    using published [of m] unfolding Publisher_PublishDeadLetter_def by blast
  show ?thesis
    unfolding assms(4) [symmetric, unfolded worker_handle_def] handle_verdict [OF run] body assms(2) co
    using acked by (simp add: verdict_of_def pub pub' split: option.split)
qed

definition drained :: "('w, 'o, 'd) system \<Rightarrow> bool" where
  "drained s \<longleftrightarrow> (\<forall>x \<in># sy_held s. fst x = DeadLetterRoutingKey)"

lemma held_lane_valid:
  assumes "held_ok D x" "fst x \<noteq> DeadLetterRoutingKey"
  obtains t pr body m where "x = (RoutingKey t pr, body)" "Type_IsValid t" "Priority_IsValid pr"
    "unmarshal_in D body = Inr m" "message_ok D m"
  using assms by (cases x) (fastforce simp: held_ok_def message_ok_def valid_message_def)

lemma drain_progress:
  assumes "steady D" "sys_inv D s" "\<not> drained s"
  shows "\<exists>s'. drain_step D s s'"
proof -
  obtain x where "x \<in># sy_held s" "held_ok D x" "fst x \<noteq> DeadLetterRoutingKey"
    using assms(2,3) by (auto simp: drained_def sys_inv_def)
  then obtain t pr body m where x: "(RoutingKey t pr, body) \<in># sy_held s" "Type_IsValid t" "Priority_IsValid pr"
      "unmarshal_in D body = Inr m" "message_ok D m"
    using held_lane_valid by metis
  from drain_step.drain [OF x(2,3,1) refl worker_acks [OF assms(1) x(4,5) refl]] show ?thesis by blast
qed

lemma drain_reachable:
  "(drain_step D)\<^sup>*\<^sup>* s s' \<Longrightarrow> reachable D s \<Longrightarrow> reachable D s' \<and> sy_accepted s' = sy_accepted s"
proof (induction rule: rtranclp_induct)
  case (step s1 s2)
  with drain_sys_step [of D s1 s2] reachable.step [of D s1 s2] show ?case by auto
qed simp

lemma drained_accounted:
  assumes "sys_inv D s" "drained s" "m \<in> set (sy_accepted s)"
  shows "settled_for D s m \<or> waits D (sy_held s) DeadLetterRoutingKey m"
proof -
  have "message_ok D m" "accounted D s m" using assms(1,3) by (auto simp: sys_inv_def)
  moreover have "\<not> waits D (sy_held s) (lane_of m) m"
    using assms(2) RoutingKey_not_dead [of "m_Type m" "m_Priority m"] \<open>message_ok D m\<close>
    by (auto simp: drained_def waits_def message_ok_def valid_message_def)
  ultimately show ?thesis by (auto simp: accounted_def)
qed

lemma work_bound:
  assumes "sys_inv D s"
  shows "work D s \<le> size (sy_held s) * Suc (nat (sint (dp_maxRetries D)))"
proof -
  have "weight D x \<le> Suc (nat (sint (dp_maxRetries D)))" if "x \<in># sy_held s" for x
    using assms that by (fastforce simp: sys_inv_def held_ok_def weight_def)
  then have "(\<Sum>x \<in># sy_held s. weight D x) \<le> (\<Sum>x \<in># sy_held s. Suc (nat (sint (dp_maxRetries D))))"
    by (rule sum_mset_mono)
  then show ?thesis by (simp add: work_def)
qed


subsection \<open>A concrete deployment\<close>

definition steady_amqp :: "unit amqp" where
  "steady_amqp =
    \<lparr>amqp_invoke = (\<lambda>call w. (case call of WaitConfirm c \<Rightarrow> RAcked True | _ \<Rightarrow> ROk, w)), amqp_now = (\<lambda>w. 0)\<rparr>"

definition sample_deployment :: "(string, string, unit, unit, unit) deployment" where
  "sample_deployment =
    \<lparr>dp_floats = sample_floats, dp_parse = Some, dp_engines = verbatim_engines,
     dp_repo = file_Repository sample_iteration sample_repository, dp_amqp = steady_amqp, dp_publisher = sample_publisher,
     dp_con = steady_amqp, dp_outside = sample_outside, dp_maxRetries = 3\<rparr>"

definition idle_broker :: "unit broker" where
  "idle_broker = \<lparr>bk_env = (), bk_calls = []\<rparr>"

definition sample_system :: "(unit, unit, unit) system" where
  "sample_system =
    \<lparr>sy_apis = (\<lambda>i. idle_broker),
     sy_workers = (\<lambda>k. \<lparr>wk_out = sample_outbound, wk_pub = idle_broker, wk_con = idle_broker\<rparr>),
     sy_held = {#}, sy_accepted = []\<rparr>"

lemma sample_steady: "steady sample_deployment"
  by (simp add: steady_def sample_deployment_def steady_amqp_def)

lemma sample_deployment_floats: "floats_ok (dp_floats sample_deployment)"
  by (simp add: sample_deployment_def sample_floats_ok)

lemma sample_transportable: "transportable (request_message ''n1'' 7 sample_request sample_default)"
  by (simp add: transportable_def clean_Message_def clean_Recipient_def storable_def data_nests_def clean_data_def
      clean_metadata_def request_message_def sample_request_def request_priority_def NewEmailRecipient_def
      sample_default_def Template_New_def utf8_valid_ascii)

text \<open>One request has been accepted.\<close>

lemma sample_accepted:
  "\<exists>s m. reachable sample_deployment s \<and> sy_accepted s = [m] \<and> m_ID m = ''n1'' \<and> m_Type m = TypeEmail
    \<and> size (sy_held s) = 1 \<and> \<not> drained s \<and> (\<exists>body. (''email.transactional'', body) \<in># sy_held s)"
proof -
  let ?D = sample_deployment
  let ?m = "request_message ''n1'' 7 sample_request sample_default"
  have resolves: "Service_Resolve (dp_repo ?D) (sr_TemplateID sample_request) (sr_Type sample_request) = Inr sample_default"
    using sample_resolves by (simp add: sample_deployment_def sample_request_def)
  then have req: "json_request ?D ''n1'' 7 sample_request"
    using sample_transportable by (simp add: json_request_def)
  obtain body where body: "marshal_in ?D ?m = Inr body"
    using Marshal_Some [of "dp_floats ?D" ?m]
    by (auto simp: request_message_def sample_request_def finite_data_def writable_time_def)
  obtain res b where run: "api_send ?D ''n1'' 7 Background sample_request (sy_apis sample_system 0) = (res, b)"
    by fastforce
  have "accepted_message ?D ''n1'' 7 sample_request res = [?m]
      \<and> (\<exists>x. new_confirmed (sy_apis sample_system 0) b = [(lane_of ?m, x)])"
    using run [unfolded api_send_def]
  proof (cases rule: Service_Send_cases)
    case (published tmpl r)
    have "tmpl = sample_default" using published(2) resolves by simp
    moreover obtain s' where "Publisher_Publish (dp_amqp ?D) (marshal_in ?D) (dp_publisher ?D) Background ?m
        (sy_apis sample_system 0) = (None, s')"
      unfolding Publisher_Publish_def using steady_publish [OF sample_steady body] by blast
    ultimately have "r = None" using published(3) by simp
    with \<open>tmpl = sample_default\<close> published resolves
      rabbit_pub.Publish_nil [of "dp_amqp ?D" "marshal_in ?D" "dp_publisher ?D" Background ?m "sy_apis sample_system 0" b]
    show ?thesis by (auto simp: accepted_message_def new_confirmed_def)
  qed (use sample_valid resolves in \<open>simp_all add: sample_deployment_def\<close>)
  then obtain x where sent: "accepted_message ?D ''n1'' 7 sample_request res = [?m]"
      "new_confirmed (sy_apis sample_system 0) b = [(lane_of ?m, x)]"
    by blast
  let ?s = "sample_system\<lparr>sy_apis := (sy_apis sample_system)(0 := b),
      sy_held := sy_held sample_system + mset (new_confirmed (sy_apis sample_system 0) b) + {#},
      sy_accepted := sy_accepted sample_system @ accepted_message ?D ''n1'' 7 sample_request res\<rparr>"
  have "reachable ?D sample_system"
    by (rule reachable.start) (simp_all add: sample_system_def)
  then have "reachable ?D ?s"
    by (rule reachable.step) (rule sys_step.send [OF run req], simp)
  moreover have "sy_accepted ?s = [?m]" "size (sy_held ?s) = 1" "m_ID ?m = ''n1''" "m_Type ?m = TypeEmail"
    using sent by (simp_all add: sample_system_def request_message_def sample_request_def)
  moreover have "\<not> drained ?s"
    using sent RoutingKey_not_dead [of TypeEmail "m_Priority ?m"]
    by (simp add: drained_def sample_system_def request_message_def sample_request_def Type_IsValid_def)
  moreover have "(''email.transactional'', x) \<in># sy_held ?s"
    using sent by (simp add: sample_system_def request_message_def sample_request_def request_priority_def RoutingKey_def)
  ultimately show ?thesis by blast
qed

subsection \<open>Properties\<close>

text \<open>C2. No accepted notification is lost, whatever the brokers, connections, senders and requests do, and
  whenever processes die and are started again. In every reachable state of the system a message the
  API has accepted is valid, and a copy of it waits in its lane or in the dead-letter queue, or it can
  never be processed under the deployed templates, or a worker of its lane has handed it to the sender
  with success or has been told that it will never succeed. Only its retry count can differ from what
  was accepted.\<close>

theorem accepted_accounted:
  assumes "floats_ok (dp_floats D)" "reachable D s" "m \<in> set (sy_accepted s)"
  shows "valid_message (dp_parse D) m
    \<and> (waits D (sy_held s) (lane_of m) m \<or> waits D (sy_held s) DeadLetterRoutingKey m \<or> rejects_in D m \<noteq> None
       \<or> (\<exists>i. delivered_in D (ob_calls (wk_out (sy_workers s (lane_of m, i)))) m
             \<or> refused_in D (ob_calls (wk_out (sy_workers s (lane_of m, i)))) m))"
  using reachable_inv [OF assms(2,1)] assms(3)
  unfolding sys_inv_def accounted_def settled_for_def message_ok_def by blast

theorem accepted_accounted_witness:
  "\<exists>s m. reachable sample_deployment s \<and> sy_accepted s = [m] \<and> m_ID m = ''n1'' \<and> valid_message Some m"
proof -
  obtain s m where s: "reachable sample_deployment s" "sy_accepted s = [m]" "m_ID m = ''n1''"
    using sample_accepted by blast
  from accepted_accounted [OF sample_deployment_floats s(1), of m] s show ?thesis
    by (auto simp: sample_deployment_def)
qed

text \<open>C8. What the queues hold is readable: every message body decodes to a valid message that belongs to
  the queue it is in, or is in the dead-letter queue, and that can be encoded again for a retry. No
  worker drops a delivery because it cannot be parsed.\<close>

theorem held_readable:
  assumes "floats_ok (dp_floats D)" "reachable D s" "(key, body) \<in># sy_held s"
  shows "\<exists>m. unmarshal_in D body = Inr m \<and> valid_message (dp_parse D) m \<and> key \<in> {lane_of m, DeadLetterRoutingKey}
    \<and> 0 \<le> sint (m_RetryCount m) \<and> (\<exists>b. marshal_in D (IncrementRetry m) = Inr b)"
proof -
  obtain m where m: "unmarshal_in D body = Inr m" "message_ok D m" "0 \<le> sint (m_RetryCount m)"
      "key \<in> {lane_of m, DeadLetterRoutingKey}"
    using reachable_inv [OF assms(2,1)] assms(3) by (force simp: sys_inv_def held_ok_def)
  then show ?thesis
    using Marshal_Some [of "dp_floats D" "IncrementRetry m"] by (auto simp: message_ok_def)
qed

theorem held_readable_witness:
  "\<exists>s key body m. reachable sample_deployment s \<and> (key, body) \<in># sy_held s
    \<and> unmarshal_in sample_deployment body = Inr m \<and> valid_message Some m"
proof -
  obtain s where s: "reachable sample_deployment s" "size (sy_held s) = 1"
    using sample_accepted by blast
  then obtain key body where held: "(key, body) \<in># sy_held s"
    by (metis size_1_singleton_mset prod.collapse union_single_eq_member add_mset_eq_single multi_member_this)
  from held_readable [OF sample_deployment_floats s(1) held] s(1) held show ?thesis
    by (auto simp: sample_deployment_def)
qed

text \<open>C7. Retrying ends: from a reachable state, in whatever order the workers go on, at most the retry
  limit plus one acknowledged deliveries per message held can follow one another before new
  requests come in.\<close>

theorem drain_terminates:
  assumes "floats_ok (dp_floats D)" "reachable D s" "(drain_step D ^^ k) s s'"
  shows "k \<le> size (sy_held s) * Suc (nat (sint (dp_maxRetries D)))"
  using draining.run_bound [OF assms(3)] assms(1,2) work_bound [OF reachable_inv [OF assms(2,1)]] by fastforce

theorem drain_terminates_witness:
  "\<exists>s s'. reachable sample_deployment s \<and> (drain_step sample_deployment ^^ 1) s s' \<and> 1 \<le> size (sy_held s) * 4"
proof -
  obtain s where s: "reachable sample_deployment s" "\<not> drained s"
    using sample_accepted by blast
  then obtain s' where "drain_step sample_deployment s s'"
    using drain_progress [OF sample_steady reachable_inv [OF s(1) sample_deployment_floats]] by blast
  then have run: "(drain_step sample_deployment ^^ 1) s s'" by (simp only: relpowp_1)
  from drain_terminates [OF sample_deployment_floats s(1) run] s run show ?thesis
    by (intro exI [of _ s] exI [of _ s']) (simp add: sample_deployment_def)
qed

text \<open>C5. Every notification gets an outcome: when the broker takes and confirms what it is sent, the workers
  can go on until no lane holds a message; and wherever they cannot go on, the lanes are empty and
  every accepted message has been handed to its sender or refused for good, or is in the dead-letter
  queue.\<close>

theorem drain_delivers:
  assumes "steady D" "floats_ok (dp_floats D)" "reachable D s"
  shows "(\<exists>s'. (drain_step D)\<^sup>*\<^sup>* s s' \<and> (\<nexists>s''. drain_step D s' s''))
    \<and> (\<forall>s'. (drain_step D)\<^sup>*\<^sup>* s s' \<and> (\<nexists>s''. drain_step D s' s'') \<longrightarrow>
         drained s' \<and> (\<forall>m \<in> set (sy_accepted s). settled_for D s' m \<or> waits D (sy_held s') DeadLetterRoutingKey m))"
proof (intro conjI allI impI)
  show "\<exists>s'. (drain_step D)\<^sup>*\<^sup>* s s' \<and> (\<nexists>s''. drain_step D s' s'')"
    using draining.comes_to_rest assms(2,3) by blast
next
  fix s' assume run: "(drain_step D)\<^sup>*\<^sup>* s s' \<and> (\<nexists>s''. drain_step D s' s'')"
  then have s': "reachable D s'" "sy_accepted s' = sy_accepted s"
    using drain_reachable assms(3) by blast+
  note inv = reachable_inv [OF s'(1) assms(2)]
  from run drain_progress [OF assms(1) inv] show "drained s'" by blast
  with drained_accounted [OF inv] s'(2)
  show "\<forall>m \<in> set (sy_accepted s). settled_for D s' m \<or> waits D (sy_held s') DeadLetterRoutingKey m" by simp
qed

theorem drain_delivers_witness:
  "\<exists>s s' m. sy_accepted s = [m] \<and> (drain_step sample_deployment)\<^sup>*\<^sup>* s s' \<and> drained s'
    \<and> (settled_for sample_deployment s' m \<or> waits sample_deployment (sy_held s') DeadLetterRoutingKey m)"
proof -
  obtain s m where s: "reachable sample_deployment s" "sy_accepted s = [m]"
    using sample_accepted by blast
  from drain_delivers [OF sample_steady sample_deployment_floats s(1)] s(2) show ?thesis
    by (metis list.set_intros(1))
qed


end
