(* ===== verification/Rest.thy ===== *)
theory Rest
  imports Send_Service
begin

text \<open>
  internal/transport/rest: the API types of api/server.gen.go, the handlers
  (handler/handler.go, handler/health.go), the mapping from errors to responses
  (handler/errors.go), the error handler of server.go and the log level of
  middleware/logging.go. A Go pointer field is an option. \<open>q\<close> is
  \<open>strconv.Quote\<close>, as in \<open>GoErrors\<close>; what \<open>New\<close> draws for an item, its ID
  and its time, is an argument. Echo's routing, binding and writing are outside.
\<close>

subsection \<open>API types\<close>

record ErrorResponse =
  er_Code :: string
  er_Message :: string
  er_Field :: "string option"

record NotificationAccepted =
  na_Id :: string
  na_Status :: string
  na_CreatedAt :: int

abbreviation Pending :: string where "Pending \<equiv> ''pending''"

record BatchItemResult =
  bi_Index :: nat
  bi_Error :: "ErrorResponse option"
  bi_Notification :: "NotificationAccepted option"

record api_Recipient =
  ar_DeviceToken :: "string option"
  ar_Email :: "string option"
  ar_PhoneNumber :: "string option"
  ar_UserId :: "string option"

record SendNotificationRequest =
  nr_Metadata :: "string_map option"
  nr_Priority :: "string option"
  nr_Recipient :: api_Recipient
  nr_TemplateData :: "any_map option"
  nr_TemplateId :: "string option"
  nr_Type :: string

record TemplateSummary =
  ts_Id :: string
  ts_IsDefault :: bool
  ts_Name :: string
  ts_Type :: string

record api_Template =
  at_Body :: string
  at_Id :: string
  at_IsDefault :: bool
  at_Name :: string
  at_Subject :: string
  at_Type :: string

subsection \<open>handler/errors.go\<close>

abbreviation CodeValidationError :: string where "CodeValidationError \<equiv> ''validation_error''"
abbreviation CodeTemplateNotFound :: string where "CodeTemplateNotFound \<equiv> ''template_not_found''"
abbreviation CodeInternalError :: string where "CodeInternalError \<equiv> ''internal_error''"

text \<open>\<open>http.StatusText\<close>.\<close>

definition status_texts :: "(int \<times> string) list" where
  "status_texts =
    [(100, ''Continue''), (101, ''Switching Protocols''), (102, ''Processing''), (103, ''Early Hints''),
     (200, ''OK''), (201, ''Created''), (202, ''Accepted''), (203, ''Non-Authoritative Information''),
     (204, ''No Content''), (205, ''Reset Content''), (206, ''Partial Content''), (207, ''Multi-Status''),
     (208, ''Already Reported''), (226, ''IM Used''),
     (300, ''Multiple Choices''), (301, ''Moved Permanently''), (302, ''Found''), (303, ''See Other''),
     (304, ''Not Modified''), (305, ''Use Proxy''), (307, ''Temporary Redirect''), (308, ''Permanent Redirect''),
     (400, ''Bad Request''), (401, ''Unauthorized''), (402, ''Payment Required''), (403, ''Forbidden''),
     (404, ''Not Found''), (405, ''Method Not Allowed''), (406, ''Not Acceptable''),
     (407, ''Proxy Authentication Required''), (408, ''Request Timeout''), (409, ''Conflict''), (410, ''Gone''),
     (411, ''Length Required''), (412, ''Precondition Failed''), (413, ''Request Entity Too Large''),
     (414, ''Request URI Too Long''), (415, ''Unsupported Media Type''), (416, ''Requested Range Not Satisfiable''),
     (417, ''Expectation Failed''), (418, ''I'' @ [CHR 0x27] @ ''m a teapot''), (421, ''Misdirected Request''),
     (422, ''Unprocessable Entity''), (423, ''Locked''), (424, ''Failed Dependency''), (425, ''Too Early''),
     (426, ''Upgrade Required''), (428, ''Precondition Required''), (429, ''Too Many Requests''),
     (431, ''Request Header Fields Too Large''), (451, ''Unavailable For Legal Reasons''),
     (500, ''Internal Server Error''), (501, ''Not Implemented''), (502, ''Bad Gateway''),
     (503, ''Service Unavailable''), (504, ''Gateway Timeout''), (505, ''HTTP Version Not Supported''),
     (506, ''Variant Also Negotiates''), (507, ''Insufficient Storage''), (508, ''Loop Detected''),
     (510, ''Not Extended''), (511, ''Network Authentication Required'')]"

definition StatusText :: "int \<Rightarrow> string" where
  "StatusText status = (case map_of status_texts status of Some t \<Rightarrow> t | None \<Rightarrow> [])"

text \<open>\<open>strings.ToLower\<close> on ASCII text, which the status texts are.\<close>

definition ToLower :: "string \<Rightarrow> string" where
  "ToLower s = map (\<lambda>c. if 65 \<le> byte c \<and> byte c \<le> 90 then char_of (byte c + 32) else c) s"

definition codeForStatus :: "int \<Rightarrow> string" where
  "codeForStatus status =
    (if 500 \<le> status then CodeInternalError
     else ToLower (map (\<lambda>c. if c = CHR '' '' then CHR ''_'' else c) (StatusText status)))"

definition MapError :: "(string \<Rightarrow> string) \<Rightarrow> go_error \<Rightarrow> int \<times> ErrorResponse" where
  "MapError q err =
    (case errors_As is_ValidationError err of
       Some (ValidationError field cause) \<Rightarrow>
         (400, \<lparr>er_Code = CodeValidationError, er_Message = error_text q (ValidationError field cause),
                er_Field = Some field\<rparr>)
     | _ \<Rightarrow>
        if errors_Is err ErrTemplateNotFound \<or> errors_Is err ErrNoDefaultTemplate then
          (400, \<lparr>er_Code = CodeTemplateNotFound, er_Message = error_text q err, er_Field = None\<rparr>)
        else
          (case errors_As is_HTTPError err of
             Some (HTTPError code message _ _) \<Rightarrow>
               (code, \<lparr>er_Code = codeForStatus code, er_Message = message, er_Field = None\<rparr>)
           | _ \<Rightarrow>
               (500, \<lparr>er_Code = CodeInternalError, er_Message = ''internal server error'', er_Field = None\<rparr>)))"

subsection \<open>server.go, handler/health.go and middleware/logging.go\<close>

text \<open>The response the error handler writes, if none has been committed; \<open>path\<close> is the
  matched route's path. What \<open>c.JSON\<close> returns is only logged.\<close>

definition httpErrorHandler ::
  "(string \<Rightarrow> string) \<Rightarrow> bool \<Rightarrow> string \<Rightarrow> go_error \<Rightarrow> (int \<times> ErrorResponse) option" where
  "httpErrorHandler q committed path err =
    (if committed then None
     else
       (let (status, resp) = MapError q err;
            status = (if er_Code resp = CodeTemplateNotFound \<and> HasPrefix path ''/api/v1/templates'' then 404 else status)
        in Some (status, resp)))"

definition HealthCheck :: "int \<times> (string \<times> string) list" where
  "HealthCheck = (200, [(''status'', ''healthy'')])"

datatype log_level = InfoLevel | WarnLevel | ErrorLevel

definition RequestLogger_level :: "int \<Rightarrow> log_level" where
  "RequestLogger_level status =
    (if 500 \<le> status then ErrorLevel else if 400 \<le> status then WarnLevel else InfoLevel)"

subsection \<open>handler/handler.go\<close>

definition deref :: "'a \<Rightarrow> 'a option \<Rightarrow> 'a" where
  "deref zero p = (case p of None \<Rightarrow> zero | Some x \<Rightarrow> x)"

definition toSendRequest :: "SendNotificationRequest \<Rightarrow> SendRequest" where
  "toSendRequest req =
    \<lparr>sr_Type = nr_Type req,
     sr_Priority = (case nr_Priority req of Some p \<Rightarrow> p | None \<Rightarrow> []),
     sr_Recipient =
       \<lparr>rc_Email = deref [] (ar_Email (nr_Recipient req)),
        rc_PhoneNumber = deref [] (ar_PhoneNumber (nr_Recipient req)),
        rc_DeviceToken = deref [] (ar_DeviceToken (nr_Recipient req)),
        rc_UserID = deref [] (ar_UserId (nr_Recipient req))\<rparr>,
     sr_TemplateID = deref [] (nr_TemplateId req),
     sr_TemplateData = deref None (nr_TemplateData req),
     sr_Metadata = deref None (nr_Metadata req)\<rparr>"

record 'w Handler =
  hd_notifSvc :: "'w NotificationService"
  hd_tmplSvc :: TemplateService

definition Handler_New :: "'w NotificationService \<Rightarrow> TemplateService \<Rightarrow> 'w Handler" where
  "Handler_New notifSvc tmplSvc = \<lparr>hd_notifSvc = notifSvc, hd_tmplSvc = tmplSvc\<rparr>"

text \<open>The methods, as functions of the repository and the publisher of the two services.\<close>

definition Handler_send ::
  "(string \<Rightarrow> string option) \<Rightarrow> Repository \<Rightarrow> 'w publish \<Rightarrow> string \<Rightarrow> int \<Rightarrow> ctx
    \<Rightarrow> SendNotificationRequest \<Rightarrow> 'w \<Rightarrow> NotificationAccepted result \<times> 'w" where
  "Handler_send parse repo publish uuid now c req w =
    (case Service_Send parse repo publish uuid now c (toSendRequest req) w of
       (Inl err, w') \<Rightarrow> (Inl err, w')
     | (Inr resp, w') \<Rightarrow>
         (Inr \<lparr>na_Id = sp_ID resp, na_Status = Pending, na_CreatedAt = sp_CreatedAt resp\<rparr>, w'))"

text \<open>The 202 response, or the error for the error handler.\<close>

definition Handler_SendNotification ::
  "(string \<Rightarrow> string option) \<Rightarrow> Repository \<Rightarrow> 'w publish \<Rightarrow> string \<Rightarrow> int \<Rightarrow> ctx
    \<Rightarrow> SendNotificationRequest \<Rightarrow> 'w \<Rightarrow> NotificationAccepted result \<times> 'w" where
  "Handler_SendNotification parse repo publish uuid now c body w =
    (case Handler_send parse repo publish uuid now c body w of
       (Inl err, w') \<Rightarrow> (Inl err, w')
     | (Inr accepted, w') \<Rightarrow> (Inr accepted, w'))"

text \<open>The loop of the batch from position \<open>i\<close> on; \<open>draw i\<close> is what \<open>New\<close> draws for
  item \<open>i\<close>.\<close>

fun batch_loop ::
  "(string \<Rightarrow> string) \<Rightarrow> (string \<Rightarrow> string option) \<Rightarrow> Repository \<Rightarrow> 'w publish \<Rightarrow> (nat \<Rightarrow> string \<times> int) \<Rightarrow> ctx
    \<Rightarrow> nat \<Rightarrow> SendNotificationRequest list \<Rightarrow> 'w \<Rightarrow> BatchItemResult list \<times> 'w" where
  "batch_loop q parse repo publish draw c i [] w = ([], w)"
| "batch_loop q parse repo publish draw c i (req # reqs) w =
    (let (res, w1) = Handler_send parse repo publish (fst (draw i)) (snd (draw i)) c req w;
         result = (case res of
             Inl err \<Rightarrow> \<lparr>bi_Index = i, bi_Error = Some (snd (MapError q err)), bi_Notification = None\<rparr>
           | Inr accepted \<Rightarrow> \<lparr>bi_Index = i, bi_Error = None, bi_Notification = Some accepted\<rparr>);
         (results, w2) = batch_loop q parse repo publish draw c (Suc i) reqs w1
     in (result # results, w2))"

definition Handler_SendNotificationBatch ::
  "(string \<Rightarrow> string) \<Rightarrow> (string \<Rightarrow> string option) \<Rightarrow> Repository \<Rightarrow> 'w publish \<Rightarrow> (nat \<Rightarrow> string \<times> int) \<Rightarrow> ctx
    \<Rightarrow> SendNotificationRequest list \<Rightarrow> 'w \<Rightarrow> BatchItemResult list \<times> 'w" where
  "Handler_SendNotificationBatch q parse repo publish draw c reqs w =
    batch_loop q parse repo publish draw c 0 reqs w"

definition Handler_ListTemplates :: "Repository \<Rightarrow> string option \<Rightarrow> TemplateSummary list result" where
  "Handler_ListTemplates repo type_param =
    (let typeFilter = (case type_param of Some t \<Rightarrow> t | None \<Rightarrow> [])
     in case Service_List repo typeFilter of
          Inl err \<Rightarrow> Inl err
        | Inr templates \<Rightarrow>
            Inr (map (\<lambda>tmpl. \<lparr>ts_Id = t_ID tmpl, ts_IsDefault = t_IsDefault tmpl, ts_Name = t_Name tmpl,
                              ts_Type = t_Type tmpl\<rparr>) templates))"

definition Handler_GetTemplate :: "Repository \<Rightarrow> string \<Rightarrow> string \<Rightarrow> api_Template result" where
  "Handler_GetTemplate repo type_param id_param =
    (case Service_Resolve repo id_param type_param of
       Inl err \<Rightarrow> Inl err
     | Inr tmpl \<Rightarrow>
         Inr \<lparr>at_Body = t_Body tmpl, at_Id = t_ID tmpl, at_IsDefault = t_IsDefault tmpl, at_Name = t_Name tmpl,
              at_Subject = t_Subject tmpl, at_Type = t_Type tmpl\<rparr>)"

subsection \<open>Batches\<close>

text \<open>An accepted item and the message the broker confirmed for it.\<close>

definition item_message ::
  "(string \<Rightarrow> string option) \<Rightarrow> (Message \<Rightarrow> string result) \<Rightarrow> (Message \<Rightarrow> string) \<Rightarrow> (nat \<Rightarrow> string \<times> int)
    \<Rightarrow> string \<times> string \<Rightarrow> BatchItemResult \<Rightarrow> bool" where
  "item_message parse marshal lane draw conf x \<longleftrightarrow>
    (\<exists>m. valid_message parse m \<and> m_RetryCount m = 0 \<and> fst conf = lane m \<and> marshal m = Inr (snd conf)
       \<and> m_ID m = fst (draw (bi_Index x)) \<and> m_CreatedAt m = snd (draw (bi_Index x))
       \<and> bi_Notification x = Some \<lparr>na_Id = m_ID m, na_Status = Pending, na_CreatedAt = m_CreatedAt m\<rparr>)"

definition accepted :: "BatchItemResult \<Rightarrow> bool" where
  "accepted x \<longleftrightarrow> bi_Notification x \<noteq> None"

lemma accepted_iff [simp]: "accepted \<lparr>bi_Index = i, bi_Error = e, bi_Notification = n\<rparr> \<longleftrightarrow> n \<noteq> None"
  by (simp add: accepted_def)

context send_service
begin

lemma Handler_send_Inr:
  assumes "Handler_send parse (repository r) Publish uuid now c req w = (Inr a, w')"
  shows "\<exists>m body. valid_message parse m \<and> m_RetryCount m = 0 \<and> m_ID m = uuid \<and> m_CreatedAt m = now
    \<and> marshal m = Inr body \<and> confirmed w' = confirmed w @ [(lane m, body)]
    \<and> a = \<lparr>na_Id = uuid, na_Status = Pending, na_CreatedAt = now\<rparr>"
proof -
  from assms obtain resp where "Service_Send parse (repository r) Publish uuid now c (toSendRequest req) w = (Inr resp, w')"
      and a: "a = \<lparr>na_Id = sp_ID resp, na_Status = Pending, na_CreatedAt = sp_CreatedAt resp\<rparr>"
    by (auto simp: Handler_send_def split: prod.splits sum.splits)
  from Send_Inr [OF this(1)] a show ?thesis
    using valid_request_message by (fastforce simp: request_message_def)
qed

lemma Handler_send_Inl:
  assumes "Handler_send parse (repository r) Publish uuid now c req w = (Inl e, w')"
  shows "confirmed w' = confirmed w"
  using assms Send_Inl_confirmed by (fastforce simp: Handler_send_def split: prod.splits sum.splits)

lemma batch_loop_confirmed:
  assumes "batch_loop q parse (repository r) Publish draw c i reqs w = (results, w')"
  shows "map bi_Index results = [i..<i + length reqs]
    \<and> (\<forall>x \<in> set results. (bi_Error x = None) \<longleftrightarrow> accepted x)
    \<and> (\<exists>new. confirmed w' = confirmed w @ new
         \<and> list_all2 (item_message parse marshal lane draw) new (filter accepted results))"
  using assms
proof (induction reqs arbitrary: i w w' results)
  case Nil
  then show ?case by simp
next
  case (Cons req reqs)
  obtain res w1 where item: "Handler_send parse (repository r) Publish (fst (draw i)) (snd (draw i)) c req w = (res, w1)"
    by (cases "Handler_send parse (repository r) Publish (fst (draw i)) (snd (draw i)) c req w")
  obtain rs w2 where rest: "batch_loop q parse (repository r) Publish draw c (Suc i) reqs w1 = (rs, w2)"
    by (cases "batch_loop q parse (repository r) Publish draw c (Suc i) reqs w1")
  from Cons.IH [OF rest] obtain new where idx: "map bi_Index rs = [Suc i..<Suc i + length reqs]"
    and one: "\<forall>x \<in> set rs. (bi_Error x = None) \<longleftrightarrow> accepted x"
    and new: "confirmed w2 = confirmed w1 @ new" "list_all2 (item_message parse marshal lane draw) new (filter accepted rs)"
    by blast
  have upt: "[i..<i + length (req # reqs)] = i # [Suc i..<Suc i + length reqs]"
    by (subst upt_conv_Cons) simp_all
  show ?case
  proof (cases res)
    case (Inl err)
    with Cons.prems item rest have "w' = w2"
      "results = \<lparr>bi_Index = i, bi_Error = Some (snd (MapError q err)), bi_Notification = None\<rparr> # rs"
      by (simp_all add: Let_def)
    with idx one new upt Handler_send_Inl [OF item [unfolded Inl]] show ?thesis
      by auto
  next
    case (Inr a)
    with Cons.prems item rest have "w' = w2"
      "results = \<lparr>bi_Index = i, bi_Error = None, bi_Notification = Some a\<rparr> # rs"
      by (simp_all add: Let_def)
    moreover from Handler_send_Inr [OF item [unfolded Inr]] obtain m body where m: "valid_message parse m"
      "m_RetryCount m = 0" "m_ID m = fst (draw i)" "m_CreatedAt m = snd (draw i)" "marshal m = Inr body"
      "a = \<lparr>na_Id = fst (draw i), na_Status = Pending, na_CreatedAt = snd (draw i)\<rparr>"
      and conf: "confirmed w1 = confirmed w @ [(lane m, body)]"
      by blast
    moreover from m have "item_message parse marshal lane draw (lane m, body)
        \<lparr>bi_Index = i, bi_Error = None, bi_Notification = Some a\<rparr>"
      by (auto simp: item_message_def)
    ultimately show ?thesis
      using idx one new upt by (auto intro!: exI [of _ "(lane m, body) # new"])
  qed
qed

end

subsection \<open>Error codes\<close>

lemma ToLower_codes:
  "list_all (\<lambda>(s, t). ToLower (map (\<lambda>c. if c = CHR '' '' then CHR ''_'' else c) t)
      \<notin> {CodeValidationError, CodeTemplateNotFound}) ((0, []) # status_texts)"
  by (simp add: status_texts_def ToLower_def)

lemma codeForStatus_codes: "codeForStatus s \<notin> {CodeValidationError, CodeTemplateNotFound}"
proof (cases "500 \<le> s")
  case False
  have "\<exists>s'. (s', StatusText s) \<in> set ((0, []) # status_texts)"
    by (auto simp: StatusText_def split: option.split dest: map_of_SomeD)
  with False ToLower_codes show ?thesis
    by (fastforce simp: codeForStatus_def list_all_iff)
qed (simp add: codeForStatus_def)

lemma MapError_cases:
  obtains
    (validation) field cause where "errors_As is_ValidationError err = Some (ValidationError field cause)"
      "MapError q err = (400, \<lparr>er_Code = CodeValidationError, er_Message = error_text q (ValidationError field cause),
                              er_Field = Some field\<rparr>)"
  | (template) "errors_As is_ValidationError err = None"
      "errors_Is err ErrTemplateNotFound \<or> errors_Is err ErrNoDefaultTemplate"
      "MapError q err = (400, \<lparr>er_Code = CodeTemplateNotFound, er_Message = error_text q err, er_Field = None\<rparr>)"
  | (http) code message t i where "errors_As is_ValidationError err = None"
      "\<not> errors_Is err ErrTemplateNotFound" "\<not> errors_Is err ErrNoDefaultTemplate"
      "errors_As is_HTTPError err = Some (HTTPError code message t i)"
      "MapError q err = (code, \<lparr>er_Code = codeForStatus code, er_Message = message, er_Field = None\<rparr>)"
  | (internal) "errors_As is_ValidationError err = None"
      "\<not> errors_Is err ErrTemplateNotFound" "\<not> errors_Is err ErrNoDefaultTemplate"
      "errors_As is_HTTPError err = None"
      "MapError q err = (500, \<lparr>er_Code = CodeInternalError, er_Message = ''internal server error'', er_Field = None\<rparr>)"
proof (cases "errors_As is_ValidationError err")
  case (Some v)
  then have "is_ValidationError v" by (rule errors_As_Some_is)
  then obtain f c where "v = ValidationError f c" by (cases v) auto
  with Some show ?thesis by (intro validation) (simp_all add: MapError_def)
next
  case None
  show ?thesis
  proof (cases "errors_Is err ErrTemplateNotFound \<or> errors_Is err ErrNoDefaultTemplate")
    case True
    with None show ?thesis by (intro template) (simp_all add: MapError_def)
  next
    case unknown: False
    show ?thesis
    proof (cases "errors_As is_HTTPError err")
      case (Some h)
      then have "is_HTTPError h" by (rule errors_As_Some_is)
      then obtain code m t i where "h = HTTPError code m t i" by (cases h) auto
      with None unknown Some show ?thesis by (intro http) (simp_all add: MapError_def)
    next
      case h: None
      with None unknown show ?thesis by (intro internal) (simp_all add: MapError_def)
    qed
  qed
qed

lemma errors_Is_Errorf: "errors_Is (Errorf ps e) = errors_Is e"
  by (simp add: fun_eq_iff)

text \<open>A concrete API request.\<close>

definition sample_api_request :: SendNotificationRequest where
  "sample_api_request =
    \<lparr>nr_Metadata = None, nr_Priority = None,
     nr_Recipient = \<lparr>ar_DeviceToken = None, ar_Email = Some ''user@example.com'', ar_PhoneNumber = None, ar_UserId = None\<rparr>,
     nr_TemplateData = None, nr_TemplateId = None, nr_Type = ''email''\<rparr>"

lemma sample_toSendRequest: "toSendRequest sample_api_request = sample_request"
  by (simp add: toSendRequest_def sample_api_request_def sample_request_def deref_def NewEmailRecipient_def)

text \<open>What the items of a batch come to when each is sent by a request of its own, one after another.\<close>

definition item_result :: "(string \<Rightarrow> string) \<Rightarrow> nat \<Rightarrow> NotificationAccepted result \<Rightarrow> BatchItemResult" where
  "item_result q i res =
    \<lparr>bi_Index = i, bi_Error = (case res of Inl err \<Rightarrow> Some (snd (MapError q err)) | Inr _ \<Rightarrow> None),
     bi_Notification = (case res of Inl _ \<Rightarrow> None | Inr a \<Rightarrow> Some a)\<rparr>"

definition send_one ::
  "(string \<Rightarrow> string) \<Rightarrow> (string \<Rightarrow> string option) \<Rightarrow> Repository \<Rightarrow> 'w publish \<Rightarrow> (nat \<Rightarrow> string \<times> int) \<Rightarrow> ctx
    \<Rightarrow> BatchItemResult list \<times> 'w \<Rightarrow> nat \<times> SendNotificationRequest \<Rightarrow> BatchItemResult list \<times> 'w" where
  "send_one q parse repo publish draw c s x =
    (let (res, w') = Handler_SendNotification parse repo publish (fst (draw (fst x))) (snd (draw (fst x))) c (snd x) (snd s)
     in (fst s @ [item_result q (fst x) res], w'))"

definition send_each ::
  "(string \<Rightarrow> string) \<Rightarrow> (string \<Rightarrow> string option) \<Rightarrow> Repository \<Rightarrow> 'w publish \<Rightarrow> (nat \<Rightarrow> string \<times> int) \<Rightarrow> ctx
    \<Rightarrow> SendNotificationRequest list \<Rightarrow> 'w \<Rightarrow> BatchItemResult list \<times> 'w" where
  "send_each q parse repo publish draw c reqs w = foldl (send_one q parse repo publish draw c) ([], w) (enumerate 0 reqs)"

lemma foldl_batch_loop:
  "foldl (send_one q parse repo publish draw c) (results, w) (enumerate i reqs)
    = (let (rs, w') = batch_loop q parse repo publish draw c i reqs w in (results @ rs, w'))"
proof (induction reqs arbitrary: i results w)
  case (Cons req reqs)
  obtain res w1 where run: "Handler_send parse repo publish (fst (draw i)) (snd (draw i)) c req w = (res, w1)"
    by (cases "Handler_send parse repo publish (fst (draw i)) (snd (draw i)) c req w")
  then have "send_one q parse repo publish draw c (results, w) (i, req) = (results @ [item_result q i res], w1)"
    by (cases res) (simp_all add: send_one_def Handler_SendNotification_def)
  moreover have "item_result q i res = (case res of
             Inl err \<Rightarrow> \<lparr>bi_Index = i, bi_Error = Some (snd (MapError q err)), bi_Notification = None\<rparr>
           | Inr a \<Rightarrow> \<lparr>bi_Index = i, bi_Error = None, bi_Notification = Some a\<rparr>)"
    by (cases res) (simp_all add: item_result_def)
  ultimately show ?case
    by (simp add: Cons.IH run Let_def split: prod.split)
qed simp

subsection \<open>Properties\<close>

text \<open>A batch answers its items one by one and in order, each with exactly one of a
  notification and an error, and the items accepted are exactly the messages the broker
  has confirmed: valid, fresh, in the same order, with the IDs and the times of the
  answers. A failed item confirms nothing and does not stop the batch.\<close>

theorem Batch_partial:
  assumes "Handler_SendNotificationBatch q parse (file_Repository it repo) (Publisher_Publish amqp marshal p)
      draw c reqs s = (results, s')"
  shows "map bi_Index results = [0..<length reqs]
    \<and> (\<forall>x \<in> set results. (bi_Error x = None) \<longleftrightarrow> accepted x)
    \<and> (\<exists>new. confirmed s' = confirmed s @ new
         \<and> list_all2 (item_message parse marshal (\<lambda>m. RoutingKey (m_Type m) (m_Priority m)) draw) new
             (filter accepted results))"
  using rabbit_send.batch_loop_confirmed [OF assms [unfolded Handler_SendNotificationBatch_def]] by simp

theorem Batch_partial_witness:
  "map bi_Index (fst (Handler_SendNotificationBatch (\<lambda>s. s) Some (file_Repository sample_iteration sample_repository)
      (Publisher_Publish sample_amqp sample_marshal sample_publisher) (\<lambda>i. (replicate i (CHR ''x''), 0)) Background
      [sample_api_request, sample_api_request\<lparr>nr_Type := ''fax''\<rparr>] (sample_broker True))) = [0, 1]"
  using Batch_partial [OF surjective_pairing, of "\<lambda>s. s" Some sample_iteration sample_repository sample_amqp sample_marshal
      sample_publisher "\<lambda>i. (replicate i (CHR ''x''), 0)" Background
      "[sample_api_request, sample_api_request\<lparr>nr_Type := ''fax''\<rparr>]" "sample_broker True"]
  by simp

text \<open>C36. The response to a refused send request: an invalid request gives 400 with the field
  at fault, a template that does not exist 400, and when the broker did not confirm, 500 with a
  fixed text, unless the cause is itself one of the errors with a response of its own.\<close>

theorem SendNotification_error_response:
  assumes "Handler_SendNotification parse (file_Repository it repo) (Publisher_Publish amqp marshal p) uuid now c req s
      = (Inl e, s')"
    and "httpErrorHandler q False ''/api/v1/notifications'' e = Some (status, resp)"
  shows "if \<not> valid_request parse (toSendRequest req)
      then status = 400 \<and> er_Code resp = ''validation_error'' \<and> (\<exists>field. er_Field resp = Some field)
    else if \<nexists>tmpl. Service_Resolve (file_Repository it repo) (sr_TemplateID (toSendRequest req)) (nr_Type req) = Inr tmpl
      then status = 400 \<and> er_Code resp = ''template_not_found''
    else \<exists>cause w. Publisher_Publish amqp marshal p c w s = (Some cause, s')
      \<and> (errors_As is_ValidationError cause = None \<and> errors_As is_HTTPError cause = None
           \<and> \<not> errors_Is cause ErrTemplateNotFound \<and> \<not> errors_Is cause ErrNoDefaultTemplate
         \<longrightarrow> status = 500 \<and> resp = \<lparr>er_Code = ''internal_error'', er_Message = ''internal server error'', er_Field = None\<rparr>)"
proof -
  have run: "Service_Send parse (file_Repository it repo) (Publisher_Publish amqp marshal p) uuid now c (toSendRequest req) s
      = (Inl e, s')"
    using assms(1) by (auto simp: Handler_SendNotification_def Handler_send_def split: prod.splits sum.splits)
  have type: "sr_Type (toSendRequest req) = nr_Type req"
    by (simp add: toSendRequest_def)
  have "\<not> HasPrefix ''/api/v1/notifications'' ''/api/v1/templates''"
    by (simp add: HasPrefix_def)
  with assms(2) have resp: "MapError q e = (status, resp)"
    by (simp add: httpErrorHandler_def Let_def split: prod.splits)
  from run show ?thesis
  proof (cases rule: Service_Send_cases)
    case (invalid e')
    then obtain f cause where "e = ValidationError f cause" by (auto dest: Notification_New_Inl)
    with resp invalid(1) show ?thesis by (auto simp: MapError_def)
  next
    case (unresolved e')
    then have "errors_Is e ErrTemplateNotFound \<or> errors_Is e ErrNoDefaultTemplate" "errors_As is_ValidationError e = None"
      using file_repo.Resolve_Inl [OF unresolved(3)] by (auto simp: errors_Is_Errorf split: if_splits)
    with resp unresolved show ?thesis by (auto simp: MapError_def type)
  next
    case (published tmpl r)
    then obtain cause where "r = Some cause"
        "e = Errorf [Lit ''failed to publish notification '', Lit uuid, Lit '': '', Cause] cause"
      by (cases r) auto
    with resp published show ?thesis by (auto simp: MapError_def type)
  qed
qed

theorem SendNotification_error_response_witness:
  "\<exists>e s' status resp. Handler_SendNotification Some (file_Repository sample_iteration sample_repository)
      (Publisher_Publish sample_amqp sample_marshal sample_publisher) ''notif_1'' 7 Background
      (sample_api_request\<lparr>nr_Type := ''fax''\<rparr>) (sample_broker True) = (Inl e, s')
    \<and> httpErrorHandler (\<lambda>s. s) False ''/api/v1/notifications'' e = Some (status, resp) \<and> status = 400
    \<and> er_Code resp = ''validation_error''"
proof -
  let ?req = "sample_api_request\<lparr>nr_Type := ''fax''\<rparr>"
  have type: "sr_Type (toSendRequest ?req) = ''fax''"
    by (simp add: toSendRequest_def)
  have invalid: "\<not> valid_request Some (toSendRequest ?req)"
    by (simp add: valid_request_def channel_ok_def type)
  obtain e where send: "Handler_SendNotification Some (file_Repository sample_iteration sample_repository)
      (Publisher_Publish sample_amqp sample_marshal sample_publisher) ''notif_1'' 7 Background ?req (sample_broker True)
      = (Inl e, sample_broker True)"
    by (simp add: Handler_SendNotification_def Handler_send_def Service_Send_def Let_def Notification_New_def
        Type_IsValid_def type)
  obtain status resp where handled: "httpErrorHandler (\<lambda>s. s) False ''/api/v1/notifications'' e = Some (status, resp)"
    by (simp add: httpErrorHandler_def split: prod.split) fastforce
  from SendNotification_error_response [OF send handled] invalid send handled show ?thesis by auto
qed

text \<open>The codes tell the errors apart: \<open>validation_error\<close> and a field are sent exactly for
  validation errors, \<open>template_not_found\<close> exactly for the other errors about templates, and an error that
  is neither, nor an HTTP error of the framework, gives the same opaque 500 whatever its text.\<close>

theorem MapError_codes:
  "(er_Code (snd (MapError q e)) = ''validation_error'' \<longleftrightarrow> errors_As is_ValidationError e \<noteq> None)
    \<and> (er_Field (snd (MapError q e)) = None \<longleftrightarrow> errors_As is_ValidationError e = None)
    \<and> (er_Code (snd (MapError q e)) = ''template_not_found'' \<longleftrightarrow> errors_As is_ValidationError e = None
         \<and> (errors_Is e ErrTemplateNotFound \<or> errors_Is e ErrNoDefaultTemplate))
    \<and> (errors_As is_ValidationError e = None \<and> \<not> errors_Is e ErrTemplateNotFound
           \<and> \<not> errors_Is e ErrNoDefaultTemplate \<and> errors_As is_HTTPError e = None
         \<longrightarrow> MapError q e = (500, \<lparr>er_Code = ''internal_error'', er_Message = ''internal server error'', er_Field = None\<rparr>))"
proof (cases rule: MapError_cases [of e q])
  case (http code message t i)
  then show ?thesis using codeForStatus_codes [of code] by simp
qed auto

theorem MapError_codes_witness:
  "MapError (\<lambda>s. s) (Errorf [Lit ''failed to publish notification '', Cause] (External ''dial tcp 10.0.0.7:5672''))
    = (500, \<lparr>er_Code = ''internal_error'', er_Message = ''internal server error'', er_Field = None\<rparr>)"
  using MapError_codes [of "\<lambda>s. s" "Errorf [Lit ''failed to publish notification '', Cause] (External ''dial tcp 10.0.0.7:5672'')"]
  by (simp add: errors_As_def)

text \<open>A template that was asked for itself and does not exist is a 404, with the code
  \<open>template_not_found\<close>; otherwise the template asked for is returned.\<close>

theorem GetTemplate_response:
  assumes "filesystem_ok fs" "NewFileRepository fs yaml rootDir = Inr repo" "id_param \<noteq> []"
  shows "case Handler_GetTemplate (file_Repository it repo) t id_param of
      Inr tmpl \<Rightarrow> at_Type tmpl = t \<and> at_Id tmpl = id_param
    | Inl e \<Rightarrow> FileRepository_Get repo t id_param = Inl e
        \<and> (\<exists>resp. httpErrorHandler q False ''/api/v1/templates/:type/:id'' e = Some (404, resp)
             \<and> er_Code resp = ''template_not_found'')"
proof (cases "Service_Resolve (file_Repository it repo) id_param t")
  case (Inl e)
  have prefix: "HasPrefix ''/api/v1/templates/:type/:id'' ''/api/v1/templates''"
    by (simp add: HasPrefix_def)
  from file_repo.Resolve_Inl [OF Inl] assms(3) have "errors_Is e ErrTemplateNotFound" "errors_As is_ValidationError e = None"
    by simp_all
  then have "MapError q e = (400, \<lparr>er_Code = CodeTemplateNotFound, er_Message = error_text q e, er_Field = None\<rparr>)"
    by (simp add: MapError_def)
  with prefix Inl assms(3) show ?thesis
    by (simp add: Handler_GetTemplate_def httpErrorHandler_def Service_Resolve_def file_Repository_def)
next
  case (Inr tmpl)
  with file_repo.Resolve_Inr [OF NewFileRepository_repo_inv [OF assms(1,2)] Inr] assms(3) show ?thesis
    by (simp add: Handler_GetTemplate_def)
qed

theorem GetTemplate_response_witness:
  "\<exists>e resp. Handler_GetTemplate (file_Repository sample_iteration sample_repository) TypeEmail ''missing'' = Inl e
    \<and> httpErrorHandler (\<lambda>s. s) False ''/api/v1/templates/:type/:id'' e = Some (404, resp)"
proof -
  obtain e where "Handler_GetTemplate (file_Repository sample_iteration sample_repository) TypeEmail ''missing'' = Inl e"
    by (simp add: Handler_GetTemplate_def Service_Resolve_def file_Repository_def FileRepository_Get_def type_map_def
        sample_repository_def)
  with GetTemplate_response [OF sample_fs_ok sample_repository_loads,
      where id_param = "''missing''" and it = sample_iteration and t = TypeEmail and q = "\<lambda>s. s"]
  show ?thesis by auto
qed


text \<open>A batch is its requests sent one by one: the same results, with each error mapped as for a single
  request, and the same state of the outside world.\<close>

theorem Batch_sends_each:
  "Handler_SendNotificationBatch q parse repo publish draw c reqs w = send_each q parse repo publish draw c reqs w"
proof -
  have "foldl (send_one q parse repo publish draw c) ([], w) (enumerate 0 reqs) = batch_loop q parse repo publish draw c 0 reqs w"
    unfolding foldl_batch_loop by (simp split: prod.split)
  then show ?thesis
    by (simp only: Handler_SendNotificationBatch_def send_each_def)
qed

end
