(* ===== verification/Strict_Server.thy ===== *)
theory Strict_Server
  imports Rest
begin

text \<open>
  The strict server of internal/transport/rest/api/server.gen.go, between Echo
  and the handlers: it binds the request, calls the handler, and either writes
  the response or returns the error, which Echo passes to the error handler of
  server.go. What Echo's binding gives is an argument. The response writer is
  the response committed so far, status and body; writing the body may
  report an error after the status has been committed. \<open>encoders\<close> has
  \<open>encoding/json\<close>'s encoder at the types of the responses, the error a write
  reports, and the text of an Echo error. The server is built without strict
  middlewares.
\<close>

record encoders =
  enc_Accepted :: "NotificationAccepted \<Rightarrow> string result"
  enc_Batch :: "BatchItemResult list \<Rightarrow> string result"
  enc_List :: "TemplateSummary list \<Rightarrow> string result"
  enc_Template :: "api_Template \<Rightarrow> string result"
  enc_Error :: "ErrorResponse \<Rightarrow> string result"
  write_error :: "string \<Rightarrow> go_error option"
  http_text :: "int \<Rightarrow> string \<Rightarrow> string"

type_synonym writer = "(int \<times> string) option"

text \<open>The four \<open>Visit\<close> methods of the responses the handlers give: the body is encoded
  into a buffer first, and only then the status and the buffer are written.\<close>

definition visit :: "encoders \<Rightarrow> int \<Rightarrow> string result \<Rightarrow> writer \<Rightarrow> go_error option \<times> writer" where
  "visit enc status body rw =
    (case body of
       Inl err \<Rightarrow> (Some err, rw)
     | Inr buf \<Rightarrow> (write_error enc buf, Some (status, buf)))"

definition VisitSendNotificationResponse :: "encoders \<Rightarrow> NotificationAccepted \<Rightarrow> writer \<Rightarrow> go_error option \<times> writer" where
  "VisitSendNotificationResponse enc response = visit enc 202 (enc_Accepted enc response)"

definition VisitSendNotificationBatchResponse :: "encoders \<Rightarrow> BatchItemResult list \<Rightarrow> writer \<Rightarrow> go_error option \<times> writer" where
  "VisitSendNotificationBatchResponse enc response = visit enc 202 (enc_Batch enc response)"

definition VisitListTemplatesResponse :: "encoders \<Rightarrow> TemplateSummary list \<Rightarrow> writer \<Rightarrow> go_error option \<times> writer" where
  "VisitListTemplatesResponse enc response = visit enc 200 (enc_List enc response)"

definition VisitGetTemplateResponse :: "encoders \<Rightarrow> api_Template \<Rightarrow> writer \<Rightarrow> go_error option \<times> writer" where
  "VisitGetTemplateResponse enc response = visit enc 200 (enc_Template enc response)"

definition strict_SendNotification ::
  "encoders \<Rightarrow> (string \<Rightarrow> string option) \<Rightarrow> Repository \<Rightarrow> 'w publish \<Rightarrow> string \<Rightarrow> int \<Rightarrow> ctx
    \<Rightarrow> SendNotificationRequest result \<Rightarrow> writer \<Rightarrow> 'w \<Rightarrow> (go_error option \<times> writer) \<times> 'w" where
  "strict_SendNotification enc parse repo publish uuid now c bound rw w =
    (case bound of
       Inl err \<Rightarrow> ((Some err, rw), w)
     | Inr body \<Rightarrow>
        (case Handler_SendNotification parse repo publish uuid now c body w of
           (Inl err, w') \<Rightarrow> ((Some err, rw), w')
         | (Inr response, w') \<Rightarrow> (VisitSendNotificationResponse enc response rw, w')))"

definition strict_SendNotificationBatch ::
  "encoders \<Rightarrow> (string \<Rightarrow> string) \<Rightarrow> (string \<Rightarrow> string option) \<Rightarrow> Repository \<Rightarrow> 'w publish
    \<Rightarrow> (nat \<Rightarrow> string \<times> int) \<Rightarrow> ctx \<Rightarrow> SendNotificationRequest list result \<Rightarrow> writer \<Rightarrow> 'w
    \<Rightarrow> (go_error option \<times> writer) \<times> 'w" where
  "strict_SendNotificationBatch enc q parse repo publish draw c bound rw w =
    (case bound of
       Inl err \<Rightarrow> ((Some err, rw), w)
     | Inr body \<Rightarrow>
        (let (response, w') = Handler_SendNotificationBatch q parse repo publish draw c body w
         in (VisitSendNotificationBatchResponse enc response rw, w')))"

text \<open>The wrapper binds the parameters of the two template routes; a parameter that does not
  bind is a 400 of Echo.\<close>

definition NewHTTPError :: "encoders \<Rightarrow> int \<Rightarrow> string \<Rightarrow> go_error" where
  "NewHTTPError enc code message = HTTPError code message (http_text enc code message) None"

definition strict_ListTemplates :: "encoders \<Rightarrow> Repository \<Rightarrow> string option \<Rightarrow> writer \<Rightarrow> go_error option \<times> writer" where
  "strict_ListTemplates enc repo type_param rw =
    (case Handler_ListTemplates repo type_param of
       Inl err \<Rightarrow> (Some err, rw)
     | Inr response \<Rightarrow> VisitListTemplatesResponse enc response rw)"

definition strict_GetTemplate :: "encoders \<Rightarrow> Repository \<Rightarrow> string \<Rightarrow> string \<Rightarrow> writer \<Rightarrow> go_error option \<times> writer" where
  "strict_GetTemplate enc repo type_param id_param rw =
    (case Handler_GetTemplate repo type_param id_param of
       Inl err \<Rightarrow> (Some err, rw)
     | Inr response \<Rightarrow> VisitGetTemplateResponse enc response rw)"

definition wrapper_ListTemplates ::
  "encoders \<Rightarrow> Repository \<Rightarrow> (string + string option) \<Rightarrow> writer \<Rightarrow> go_error option \<times> writer" where
  "wrapper_ListTemplates enc repo bound rw =
    (case bound of
       Inl text \<Rightarrow> (Some (NewHTTPError enc 400 (''Invalid format for parameter type: '' @ text)), rw)
     | Inr type_param \<Rightarrow> strict_ListTemplates enc repo type_param rw)"

definition wrapper_GetTemplate ::
  "encoders \<Rightarrow> Repository \<Rightarrow> (string + string) \<Rightarrow> (string + string) \<Rightarrow> writer \<Rightarrow> go_error option \<times> writer" where
  "wrapper_GetTemplate enc repo bound_type bound_id rw =
    (case bound_type of
       Inl text \<Rightarrow> (Some (NewHTTPError enc 400 (''Invalid format for parameter type: '' @ text)), rw)
     | Inr type_param \<Rightarrow>
        (case bound_id of
           Inl text \<Rightarrow> (Some (NewHTTPError enc 400 (''Invalid format for parameter id: '' @ text)), rw)
         | Inr id_param \<Rightarrow> strict_GetTemplate enc repo type_param id_param rw))"

text \<open>An error of a route goes to the error handler, which writes its response unless one has
  been committed.\<close>

definition handle_error ::
  "encoders \<Rightarrow> (string \<Rightarrow> string) \<Rightarrow> string \<Rightarrow> go_error option \<times> writer \<Rightarrow> writer" where
  "handle_error enc q path result =
    (case result of
       (None, rw) \<Rightarrow> rw
     | (Some err, rw) \<Rightarrow>
        (case httpErrorHandler q (rw \<noteq> None) path err of
           None \<Rightarrow> rw
         | Some (status, resp) \<Rightarrow>
            (case enc_Error enc resp of
               Inl _ \<Rightarrow> rw
             | Inr buf \<Rightarrow> Some (status, buf))))"

subsection \<open>One response per request\<close>

lemma visit_None:
  "visit enc status body None = (case body of Inl e \<Rightarrow> (Some e, None) | Inr buf \<Rightarrow> (write_error enc buf, Some (status, buf)))"
  by (simp add: visit_def)

lemma handle_error_committed [simp]: "handle_error enc q path (err, Some x) = Some x"
  by (simp add: handle_error_def httpErrorHandler_def split: option.split)

lemma handle_error_Some:
  assumes "handle_error enc q path (Some err, None) = Some (status, buf)"
  shows "\<exists>resp. httpErrorHandler q False path err = Some (status, resp)"
  using assms by (auto simp: handle_error_def split: option.splits prod.splits sum.splits)

text \<open>The errors the error handler does not answer with a success: all but an Echo error that
  carries one.\<close>

definition plain_error :: "go_error \<Rightarrow> bool" where
  "plain_error e \<longleftrightarrow> (case errors_As is_HTTPError e of Some (HTTPError code m t i) \<Rightarrow> 400 \<le> code | _ \<Rightarrow> True)"

lemma httpErrorHandler_status:
  assumes "plain_error e" "httpErrorHandler q False path e = Some (status, resp)"
  shows "400 \<le> status"
proof -
  have "400 \<le> fst (MapError q e)"
    by (cases rule: MapError_cases [of e q]) (use assms(1) in \<open>auto simp: plain_error_def\<close>)
  with assms(2) show ?thesis
    by (auto simp: httpErrorHandler_def Let_def split: prod.splits if_splits)
qed

lemma handle_error_status:
  "plain_error err \<Longrightarrow> handle_error enc q path (Some err, None) = Some (status, buf) \<Longrightarrow> 400 \<le> status"
  using handle_error_Some httpErrorHandler_status by blast

lemma plain_error_Errorf [simp]: "plain_error (Errorf ps e) = plain_error e"
  by (simp add: plain_error_def)

lemma plain_error_own [simp]: "plain_error (Sentinel s)"
  by (simp add: plain_error_def)

lemma validation_status:
  "handle_error enc q path (Some (ValidationError f e), None) = Some (status, buf) \<Longrightarrow> 400 \<le> status"
  by (auto simp: httpErrorHandler_def MapError_def Let_def dest!: handle_error_Some split: if_splits)

text \<open>What the environment is relied on for: the errors of Echo's binding are client errors, and no
  error of a publish is an Echo error with a success code.\<close>

definition plain_environment :: "'w publish \<Rightarrow> SendNotificationRequest result \<Rightarrow> bool" where
  "plain_environment publish bound \<longleftrightarrow>
    (\<forall>err. bound = Inl err \<longrightarrow> plain_error err)
    \<and> (\<forall>c m w err w'. publish c m w = (Some err, w') \<longrightarrow> plain_error err)"

lemma SendNotification_error_status:
  assumes "Handler_SendNotification parse (file_Repository it repo) publish uuid now c req w = (Inl e, w')"
    and "plain_environment publish bound"
    and "handle_error enc q path (Some e, None) = Some (status, buf)"
  shows "400 \<le> status"
proof -
  have run: "Service_Send parse (file_Repository it repo) publish uuid now c (toSendRequest req) w = (Inl e, w')"
    using assms(1) by (auto simp: Handler_SendNotification_def Handler_send_def split: prod.splits sum.splits)
  from run show ?thesis
  proof (cases rule: Service_Send_cases)
    case (invalid e')
    with assms(3) show ?thesis by (auto dest!: Notification_New_Inl validation_status)
  next
    case (unresolved e')
    then have "plain_error e"
      by (auto simp: Service_Resolve_def file_Repository_def FileRepository_Get_def FileRepository_GetDefault_def
          split: if_splits option.splits)
    with assms(3) show ?thesis by (rule handle_error_status [rotated])
  next
    case (published tmpl r)
    then obtain err where "r = Some err" and e: "e = Errorf [Lit ''failed to publish notification '', Lit uuid, Lit '': '', Cause] err"
      by (cases r) auto
    with assms(2) published(3) have "plain_error err"
      unfolding plain_environment_def by blast
    with e have "plain_error e" by simp
    with assms(3) show ?thesis by (rule handle_error_status [rotated])
  qed
qed

text \<open>The two ways a send request goes: refused with an error, or accepted with its message confirmed.\<close>

lemma strict_SendNotification_cases:
  assumes "strict_SendNotification enc parse (file_Repository it repo) (Publisher_Publish amqp marshal p) uuid now c
        bound None s = (result, s')"
    and "plain_environment (Publisher_Publish amqp marshal p) bound"
  obtains
    (refused) e where "result = (Some e, None)" "confirmed s' = confirmed s"
      "\<And>q path status buf. handle_error enc q path (Some e, None) = Some (status, buf) \<Longrightarrow> 400 \<le> status"
  | (accepted) m msg where "valid_message parse m" "m_ID m = uuid" "m_CreatedAt m = now" "marshal m = Inr msg"
      "confirmed s' = confirmed s @ [(RoutingKey (m_Type m) (m_Priority m), msg)]"
      "result = visit enc 202 (enc_Accepted enc \<lparr>na_Id = uuid, na_Status = Pending, na_CreatedAt = now\<rparr>) None"
proof (cases bound)
  case (Inl err)
  then have "plain_error err" using assms(2) by (simp add: plain_environment_def)
  with Inl assms(1) show ?thesis
    by (intro refused [of err]) (auto simp: strict_SendNotification_def dest: handle_error_status)
next
  case (Inr req)
  obtain res w where run: "Handler_SendNotification parse (file_Repository it repo) (Publisher_Publish amqp marshal p)
      uuid now c req s = (res, w)" by fastforce
  have send: "Handler_send parse (file_Repository it repo) (Publisher_Publish amqp marshal p) uuid now c req s = (res, w)"
    using run by (auto simp: Handler_SendNotification_def split: prod.splits sum.splits)
  show ?thesis
  proof (cases res)
    case (Inl e)
    with Inr run assms(1) have result: "result = (Some e, None)" "s' = w"
      by (simp_all add: strict_SendNotification_def)
    show ?thesis
      by (rule refused [OF result(1)])
        (use SendNotification_error_status [OF run [unfolded Inl] assms(2)] rabbit_send.Handler_send_Inl [OF send [unfolded Inl]]
          result in auto)
  next
    case acc: (Inr a)
    from rabbit_send.Handler_send_Inr [OF send [unfolded acc]] obtain m msg where
        a: "a = \<lparr>na_Id = uuid, na_Status = Pending, na_CreatedAt = now\<rparr>"
      and m: "valid_message parse m" "m_ID m = uuid" "m_CreatedAt m = now" "marshal m = Inr msg"
        "confirmed w = confirmed s @ [(RoutingKey (m_Type m) (m_Priority m), msg)]"
      by blast
    from Inr run acc assms(1) a have "result = visit enc 202 (enc_Accepted enc a) None" "s' = w"
      by (simp_all add: strict_SendNotification_def VisitSendNotificationResponse_def)
    with m a show ?thesis by (intro accepted) simp_all
  qed
qed

subsection \<open>Properties\<close>

text \<open>Over HTTP: a send request is answered with 202 exactly when its message has been
  confirmed by the broker, unless the answer itself could not be encoded; every other
  answer is a client or server error, and then nothing was confirmed.\<close>

theorem SendNotification_202:
  assumes "strict_SendNotification enc parse (file_Repository it repo) (Publisher_Publish amqp marshal p) uuid now c
        bound None s = (result, s')"
    and "handle_error enc q path result = Some (status, buf)"
    and "plain_environment (Publisher_Publish amqp marshal p) bound"
    and "enc_Accepted enc \<lparr>na_Id = uuid, na_Status = Pending, na_CreatedAt = now\<rparr> = Inr body"
  shows "status = 202 \<and> buf = body
      \<and> (\<exists>m msg. valid_message parse m \<and> m_ID m = uuid \<and> marshal m = Inr msg
           \<and> confirmed s' = confirmed s @ [(RoutingKey (m_Type m) (m_Priority m), msg)])
    \<or> 400 \<le> status \<and> confirmed s' = confirmed s"
  using assms(1,3)
proof (cases rule: strict_SendNotification_cases)
  case (refused e)
  with assms(2) show ?thesis by blast
next
  case (accepted m msg)
  with assms(2,4) show ?thesis by (auto simp: visit_None)
qed

definition sample_encoders :: encoders where
  "sample_encoders =
    \<lparr>enc_Accepted = (\<lambda>a. Inr (na_Id a)), enc_Batch = (\<lambda>_. Inr []), enc_List = (\<lambda>_. Inr []),
     enc_Template = (\<lambda>t. Inr (at_Id t)), enc_Error = (\<lambda>e. Inr (er_Code e)),
     write_error = (\<lambda>_. None), http_text = (\<lambda>_ m. m)\<rparr>"

lemma sample_plain: "plain_environment (Publisher_Publish sample_amqp sample_marshal sample_publisher) (Inr req)"
  by (auto simp: plain_environment_def Publisher_Publish_def Publisher_publish_def sample_amqp_def invoke_def Let_def
      sample_marshal_def split: if_splits)

theorem SendNotification_202_witness:
  "\<exists>result s'. strict_SendNotification sample_encoders Some (file_Repository sample_iteration sample_repository)
      (Publisher_Publish sample_amqp sample_marshal sample_publisher) ''notif_1'' 7 Background
      (Inr sample_api_request) None (sample_broker True) = (result, s')
    \<and> handle_error sample_encoders (\<lambda>s. s) ''/api/v1/notifications'' result = Some (202, ''notif_1'')
    \<and> confirmed s' \<noteq> confirmed (sample_broker True)"
proof -
  obtain s' where send: "Service_Send Some (file_Repository sample_iteration sample_repository)
      (Publisher_Publish sample_amqp sample_marshal sample_publisher) ''notif_1'' 7 Background sample_request
      (sample_broker True) = (Inr \<lparr>sp_ID = ''notif_1'', sp_Status = StatusPending, sp_CreatedAt = 7\<rparr>, s')"
    using sample_send by blast
  have run: "strict_SendNotification sample_encoders Some (file_Repository sample_iteration sample_repository)
      (Publisher_Publish sample_amqp sample_marshal sample_publisher) ''notif_1'' 7 Background
      (Inr sample_api_request) None (sample_broker True) = ((None, Some (202, ''notif_1'')), s')"
    by (simp add: strict_SendNotification_def Handler_SendNotification_def Handler_send_def sample_toSendRequest send
        VisitSendNotificationResponse_def visit_def sample_encoders_def)
  have handled: "handle_error sample_encoders (\<lambda>s. s) ''/api/v1/notifications'' (None, Some (202, ''notif_1''))
      = Some (202, ''notif_1'')"
    by simp
  have "enc_Accepted sample_encoders \<lparr>na_Id = ''notif_1'', na_Status = Pending, na_CreatedAt = 7\<rparr> = Inr ''notif_1''"
    by (simp add: sample_encoders_def)
  from SendNotification_202 [OF run handled sample_plain this] run handled show ?thesis by auto
qed

end
