(* ===== verification/Startup.thy ===== *)
theory Startup
  imports Consumer Config
begin

text \<open>
  The start-up of the worker, cmd/worker/main.go, up to the point where it
  consumes: the steps of \<open>main\<close> in their order, each of
  which ends the process on an error (\<open>Inl\<close>, \<open>logger.Fatal\<close>). Both connections
  of the worker are to the same broker, so one state keeps the calls of both in
  the order they are made. What runs afterwards is \<open>Run\<close> of \<open>Consumer\<close> and the goroutines of
  \<open>Pipeline\<close>, which also has the end of \<open>main\<close>. The limiter of a rate is \<open>limiter\<close>. The calls of a start
  are shared with the API process, whose \<open>main\<close> is in \<open>Api_Main\<close>.
\<close>

record ('p, 'w) worker_process =
  wp_Consumer :: "('p, 'w broker) Consumer"
  wp_consumerConn :: Connection
  wp_publisherConn :: Connection

definition worker_start ::
  "(string \<Rightarrow> string) \<Rightarrow> filesystem \<Rightarrow> (string \<Rightarrow> frontMatter result) \<Rightarrow> iteration
    \<Rightarrow> (string \<Rightarrow> string option) \<Rightarrow> ('x, 'h) engines \<Rightarrow> (go_int \<Rightarrow> ctx \<Rightarrow> 'o \<Rightarrow> go_error option \<times> 'o)
    \<Rightarrow> 'w amqp \<Rightarrow> (Message \<Rightarrow> string result) \<Rightarrow> 'w broker
    \<Rightarrow> ('o outbound, 'w) worker_process result \<times> 'w broker" where
  "worker_start getenv fs yaml it parse eng limiter amqp marshal s =
    (case LoadWorker getenv of
       Inl err \<Rightarrow> (Inl err, s)
     | Inr cfg \<Rightarrow>
    (case NewFileRepository fs yaml (wc_TemplatesDir cfg) of
       Inl err \<Rightarrow> (Inl err, s)
     | Inr templateRepo \<Rightarrow>
    (let renderer = NewRenderer (NewTemplateService (file_Repository it templateRepo)) in
     case buildProcessor parse eng (wc_Type cfg) renderer (limiter (wc_RateLimit cfg)) of
       Inl err \<Rightarrow> (Inl err, s)
     | Inr process \<Rightarrow>
    (case Dial amqp (wc_RabbitURL cfg) s of
       (Inl err, s) \<Rightarrow> (Inl err, s)
     | (Inr consumerConn, s) \<Rightarrow>
    (case Dial amqp (wc_RabbitURL cfg) s of
       (Inl err, s) \<Rightarrow> (Inl err, s)
     | (Inr publisherConn, s) \<Rightarrow>
    (case NewPublisher amqp [] s of
       (Inl err, s) \<Rightarrow> (Inl err, s)
     | (Inr pub, s) \<Rightarrow>
    (case Connection_Consume amqp (QueueName (wc_Type cfg) (wc_Priority cfg)) (sint (wc_Prefetch cfg)) s of
       (Some err, s) \<Rightarrow> (Inl err, s)
     | (None, s) \<Rightarrow>
        (Inr \<lparr>wp_Consumer = NewConsumer process (Publisher_Publish amqp marshal pub)
                (Publisher_PublishDeadLetter amqp marshal pub) (wc_MaxRetries cfg),
              wp_consumerConn = consumerConn, wp_publisherConn = publisherConn\<rparr>, s))))))))"

subsection \<open>The calls of a start\<close>

text \<open>All calls of a list succeeded, in this order.\<close>

definition made :: "amqp_call list \<Rightarrow> (amqp_call \<times> amqp_reply) list \<Rightarrow> bool" where
  "made calls h \<longleftrightarrow> map fst h = calls \<and> (\<forall>x \<in> set h. \<not> failed (snd x))"

text \<open>No consumer has been registered.\<close>

definition consumes :: "(amqp_call \<times> amqp_reply) list \<Rightarrow> bool" where
  "consumes h \<longleftrightarrow> (\<exists>x \<in> set h. (\<exists>q tag a e l w. fst x = Consume_queue q tag a e l w) \<and> \<not> failed (snd x))"

lemma made_append: "made cs h \<Longrightarrow> made cs' h' \<Longrightarrow> made (cs @ cs') (h @ h')"
  by (auto simp: made_def)

lemma consumes_append [simp]: "consumes (h @ h') \<longleftrightarrow> consumes h \<or> consumes h'"
  by (simp add: consumes_def bex_Un)

lemma set_zip_fst: "fst ` set (zip xs ys) \<subseteq> set xs"
  by (auto dest: set_zip_leftD)

lemma Dial_made:
  assumes "Dial amqp url s = (res, s')"
  shows "\<exists>h. bk_calls s' = bk_calls s @ h \<and> \<not> consumes h
    \<and> (\<forall>conn. res = Inr conn \<longrightarrow> made [Dial_conn url, Open_channel] h)"
proof -
  obtain r1 s1 where dial: "invoke amqp (Dial_conn url) s = (r1, s1)" by (cases "invoke amqp (Dial_conn url) s")
  obtain r2 s2 where chan: "invoke amqp Open_channel s1 = (r2, s2)" by (cases "invoke amqp Open_channel s1")
  obtain r3 s3 where close: "invoke amqp Close_conn s2 = (r3, s3)" by (cases "invoke amqp Close_conn s2")
  from assms show ?thesis
    using invoke_calls [OF dial] invoke_calls [OF chan] invoke_calls [OF close]
    by (cases r1; cases r2) (auto simp: Dial_def try_call_def dial chan close consumes_def made_def)
qed

lemma topology_no_consume: "x \<in> set topology_calls \<Longrightarrow> \<not> (\<exists>q tag a e l w. x = Consume_queue q tag a e l w)"
  by (auto simp: topology_calls_def lane_calls_def)

lemma not_consumes: "fst ` set h \<subseteq> set topology_calls \<Longrightarrow> \<not> consumes h"
  using topology_no_consume by (fastforce simp: consumes_def)

lemma DeclareTopology_made:
  assumes "DeclareTopology amqp s = (res, s')"
  shows "\<exists>h. bk_calls s' = bk_calls s @ h \<and> \<not> consumes h \<and> (res = None \<longrightarrow> made topology_calls h)"
proof (cases res)
  case None
  with DeclareTopology_calls assms obtain rs where rs: "length rs = length topology_calls"
      "\<forall>r \<in> set rs. \<not> failed r" "bk_calls s' = bk_calls s @ zip topology_calls rs"
    by blast
  then have "made topology_calls (zip topology_calls rs)" "fst ` set (zip topology_calls rs) \<subseteq> set topology_calls"
    by (auto simp: made_def dest: set_zip_leftD set_zip_rightD)
  with rs not_consumes show ?thesis by blast
next
  case (Some e)
  obtain steps where steps: "DeclareTopology amqp = run_calls amqp steps" "map fst steps = topology_calls"
    using DeclareTopology_run by blast
  with assms Some have "run_calls amqp steps s = (Some e, s')" by simp
  from run_calls_Some [OF this] obtain k rs err where k: "k < length steps"
      "bk_calls s' = bk_calls s @ zip (map fst (take k steps)) rs @ [(fst (steps ! k), RErr err)]"
    by blast
  have "set (map fst (take k steps)) \<subseteq> set topology_calls" "fst (steps ! k) \<in> set topology_calls"
    using k(1) by (auto simp: steps(2) [symmetric] dest: in_set_takeD)
  then have "fst ` set (zip (map fst (take k steps)) rs @ [(fst (steps ! k), RErr err)]) \<subseteq> set topology_calls"
    using set_zip_fst [of "map fst (take k steps)" rs] by auto
  from not_consumes [OF this] k(2) Some show ?thesis by auto
qed

lemma NewPublisher_made:
  assumes "NewPublisher amqp opts s = (res, s')"
  shows "\<exists>h. bk_calls s' = bk_calls s @ h \<and> \<not> consumes h
    \<and> (\<forall>p. res = Inr p \<longrightarrow> made (Confirm False # topology_calls) h)"
proof -
  obtain r s1 where first: "invoke amqp (Confirm False) s = (r, s1)" by (cases "invoke amqp (Confirm False) s")
  show ?thesis
  proof (cases "failed r")
    case True
    then obtain err where "r = RErr err" by (cases r) auto
    with assms first invoke_calls [OF first] show ?thesis
      by (auto simp: NewPublisher_def try_call_def consumes_def)
  next
    case False
    obtain e s2 where rest: "DeclareTopology amqp s1 = (e, s2)" by (cases "DeclareTopology amqp s1")
    from DeclareTopology_made [OF rest] obtain h where h: "bk_calls s2 = bk_calls s1 @ h" "\<not> consumes h"
        "e = None \<longrightarrow> made topology_calls h"
      by blast
    have "try_call amqp (\<lambda>e. Errorf [Lit ''put channel in confirm mode: '', Cause] e) (Confirm False) s = (None, s1)"
      using first False by (simp add: try_call_None)
    with assms rest have "s' = s2" "\<forall>p. res = Inr p \<longrightarrow> e = None"
      by (auto simp: NewPublisher_def split: option.splits)
    with h False invoke_calls [OF first] show ?thesis
      by (auto simp: made_def consumes_def)
  qed
qed

lemma Connection_Consume_made:
  assumes "Connection_Consume amqp queue prefetch s = (res, s')"
  shows "\<exists>h. bk_calls s' = bk_calls s @ h \<and> (res \<noteq> None \<longrightarrow> \<not> consumes h)
    \<and> (res = None \<longrightarrow> made [Qos prefetch 0 False, Consume_queue queue [] False False False False] h)"
proof -
  obtain r1 s1 where qos: "invoke amqp (Qos prefetch 0 False) s = (r1, s1)" by (cases "invoke amqp (Qos prefetch 0 False) s")
  obtain r2 s2 where con: "invoke amqp (Consume_queue queue [] False False False False) s1 = (r2, s2)"
    by (cases "invoke amqp (Consume_queue queue [] False False False False) s1")
  from assms show ?thesis
    using invoke_calls [OF qos] invoke_calls [OF con]
    by (cases r1; cases r2) (auto simp: Connection_Consume_def seqE_def try_call_def qos con consumes_def made_def)
qed

lemma made_zip: "made cs h \<Longrightarrow> h = zip cs (map snd h)"
  using zip_map_fst_snd [of h] by (simp add: made_def)

lemma made_topology_bound:
  assumes "made topology_calls h"
  shows "bound_queues h key =
    (if key \<in> set lane_keys then [key] else if key = DeadLetterRoutingKey then [DeadLetterQueue] else [])"
proof -
  have "length (map snd h) = length topology_calls"
    using assms by (auto simp: made_def dest: arg_cong [of _ _ length])
  moreover have "\<forall>r \<in> set (map snd h). \<not> failed r"
    using assms by (auto simp: made_def)
  ultimately have "bound_queues (zip topology_calls (map snd h)) key =
      (if key \<in> set lane_keys then [key] else if key = DeadLetterRoutingKey then [DeadLetterQueue] else [])"
    by (simp only: bound_queues_replies bound_queues_topology)
  then show ?thesis
    using made_zip [OF assms] by simp
qed

lemma no_bind: "(\<And>x q k e w. x \<in> set h \<Longrightarrow> fst x \<noteq> QueueBind q k e w) \<Longrightarrow> bound_queues h key = []"
proof (induction h)
  case (Cons x h)
  obtain c r where x: "x = (c, r)" by (cases x)
  have "bound_queues h key = []"
    by (rule Cons.IH) (simp add: Cons.prems)
  moreover have "binding x = None"
  proof (cases c)
    case (QueueBind q k e w)
    with x Cons.prems [of x q k e w] show ?thesis by simp
  qed (simp_all add: x binding_def)
  ultimately show ?case by (simp add: bound_queues_def)
qed (simp add: bound_queues_def)

lemma made_no_bind:
  assumes "made cs h" "\<And>c q k e w. c \<in> set cs \<Longrightarrow> c \<noteq> QueueBind q k e w"
  shows "bound_queues h key = []"
proof (rule no_bind)
  fix x q k e w assume "x \<in> set h"
  then have "fst x \<in> set cs" using assms(1) by (auto simp: made_def)
  then show "fst x \<noteq> QueueBind q k e w" by (rule assms(2))
qed

text \<open>The broker calls of a worker's start, for a configuration.\<close>

definition worker_calls :: "Worker \<Rightarrow> amqp_call list" where
  "worker_calls cfg =
    [Dial_conn (wc_RabbitURL cfg), Open_channel, Dial_conn (wc_RabbitURL cfg), Open_channel]
    @ (Confirm False # topology_calls)
    @ [Qos (sint (wc_Prefetch cfg)) 0 False,
       Consume_queue (QueueName (wc_Type cfg) (wc_Priority cfg)) [] False False False False]"

lemma worker_calls_bound:
  assumes "made [Dial_conn url, Open_channel] h1" "made [Dial_conn url, Open_channel] h2"
    and "made (Confirm False # topology_calls) h3" "made [Qos n 0 False, Consume_queue q [] False False False False] h4"
  shows "bound_queues (h1 @ h2 @ h3 @ h4) key =
    (if key \<in> set lane_keys then [key] else if key = DeadLetterRoutingKey then [DeadLetterQueue] else [])"
proof -
  have parts: "bound_queues h1 key = []" "bound_queues h2 key = []" "bound_queues h4 key = []"
    using made_no_bind [OF assms(1)] made_no_bind [OF assms(2)] made_no_bind [OF assms(4)] by auto
  obtain r topo where h3: "h3 = (Confirm False, r) # topo"
    using assms(3) by (cases h3) (auto simp: made_def)
  with assms(3) have "made topology_calls topo"
    by (simp add: made_def)
  with parts h3 show ?thesis
    by (simp add: made_topology_bound)
qed

text \<open>How a start ends: before the lane is consumed, or with all its calls made.\<close>

lemma worker_connect_cases:
  assumes run: "worker_start getenv fs yaml it parse eng limiter amqp marshal s = (res, s')"
    and ready: "LoadWorker getenv = Inr cfg" "NewFileRepository fs yaml (wc_TemplatesDir cfg) = Inr r"
      "buildProcessor parse eng (wc_Type cfg) (NewRenderer (NewTemplateService (file_Repository it r))) (limiter (wc_RateLimit cfg)) = Inr process"
  obtains (failed) h err where "res = Inl err" "bk_calls s' = bk_calls s @ h" "\<not> consumes h"
  | (started) h1 h2 h3 h4 where
      "res = Inr \<lparr>wp_Consumer = NewConsumer process (Publisher_Publish amqp marshal \<lparr>pb_timeout = DefaultPublishTimeout\<rparr>)
           (Publisher_PublishDeadLetter amqp marshal \<lparr>pb_timeout = DefaultPublishTimeout\<rparr>) (wc_MaxRetries cfg),
         wp_consumerConn = \<lparr>cn_conn = True, cn_ch = True\<rparr>, wp_publisherConn = \<lparr>cn_conn = True, cn_ch = True\<rparr>\<rparr>"
      "bk_calls s' = bk_calls s @ h1 @ h2 @ h3 @ h4"
      "made [Dial_conn (wc_RabbitURL cfg), Open_channel] h1" "made [Dial_conn (wc_RabbitURL cfg), Open_channel] h2"
      "made (Confirm False # topology_calls) h3"
      "made [Qos (sint (wc_Prefetch cfg)) 0 False,
         Consume_queue (QueueName (wc_Type cfg) (wc_Priority cfg)) [] False False False False] h4"
proof -
  obtain d1 s1 where dial1: "Dial amqp (wc_RabbitURL cfg) s = (d1, s1)" by fastforce
  obtain d2 s2 where dial2: "Dial amqp (wc_RabbitURL cfg) s1 = (d2, s2)" by fastforce
  obtain p s3 where pub: "NewPublisher amqp [] s2 = (p, s3)" by fastforce
  obtain e s4 where con: "Connection_Consume amqp (QueueName (wc_Type cfg) (wc_Priority cfg))
      (sint (wc_Prefetch cfg)) s3 = (e, s4)" by fastforce
  obtain h1 where h1: "bk_calls s1 = bk_calls s @ h1" "\<not> consumes h1"
      "\<And>conn. d1 = Inr conn \<Longrightarrow> made [Dial_conn (wc_RabbitURL cfg), Open_channel] h1"
    using Dial_made [OF dial1] by blast
  obtain h2 where h2: "bk_calls s2 = bk_calls s1 @ h2" "\<not> consumes h2"
      "\<And>conn. d2 = Inr conn \<Longrightarrow> made [Dial_conn (wc_RabbitURL cfg), Open_channel] h2"
    using Dial_made [OF dial2] by blast
  obtain h3 where h3: "bk_calls s3 = bk_calls s2 @ h3" "\<not> consumes h3"
      "\<And>x. p = Inr x \<Longrightarrow> made (Confirm False # topology_calls) h3"
    using NewPublisher_made [OF pub] by blast
  obtain h4 where h4: "bk_calls s4 = bk_calls s3 @ h4" "e \<noteq> None \<Longrightarrow> \<not> consumes h4"
      "e = None \<Longrightarrow> made [Qos (sint (wc_Prefetch cfg)) 0 False,
         Consume_queue (QueueName (wc_Type cfg) (wc_Priority cfg)) [] False False False False] h4"
    using Connection_Consume_made [OF con] by blast
  note run = run [unfolded worker_start_def Let_def ready sum.case dial1 prod.case]
  note fail = failed [of _ h1] failed [of _ "h1 @ h2"] failed [of _ "h1 @ h2 @ h3"] failed [of _ "h1 @ h2 @ h3 @ h4"]
  show thesis
  proof (cases "(\<exists>err. d1 = Inl err) \<or> (\<exists>err. d2 = Inl err) \<or> (\<exists>err. p = Inl err) \<or> e \<noteq> None")
    case True
    then show thesis
      using run fail h1(1,2) h2(1,2) h3(1,2) h4(1,2)
      by (cases d1; cases d2; cases p; cases e) (auto simp: dial2 pub con)
  next
    case False
    then obtain c1 c2 pub' where all: "d1 = Inr c1" "d2 = Inr c2" "p = Inr pub'" "e = None"
      by (cases d1; cases d2; cases p) auto
    have "c1 = \<lparr>cn_conn = True, cn_ch = True\<rparr>" "c2 = \<lparr>cn_conn = True, cn_ch = True\<rparr>"
      "pub' = \<lparr>pb_timeout = DefaultPublishTimeout\<rparr>"
      using dial1 dial2 pub all(1-3) by (auto simp: NewPublisher_def Dial_def split: prod.splits option.splits)
    then show thesis
      using run all h1(1,3) h2(1,3) h3(1,3) h4(1,3)
      by (intro started [of h1 h2 h3 h4]) (simp_all add: dial2 pub con)
  qed
qed

subsection \<open>Properties\<close>

text \<open>C27. A worker consumes its lane only after everything it needs is there: the
  configuration is valid, both connections are open, the publishing channel confirms, and
  the whole topology has been declared, so that the lane's key is bound to the lane's queue; then the
  prefetch is set and the lane's queue consumed. A start that fails never consumes.\<close>

theorem worker_start_order:
  assumes "worker_start getenv fs yaml it parse eng limiter amqp marshal s = (res, s')"
  shows "\<exists>h. bk_calls s' = bk_calls s @ h \<and>
    (case res of
       Inl err \<Rightarrow> \<not> consumes h
     | Inr process \<Rightarrow> \<exists>cfg. LoadWorker getenv = Inr cfg \<and> co_maxRetries (wp_Consumer process) = wc_MaxRetries cfg
         \<and> made (worker_calls cfg) h
         \<and> bound_queues h (RoutingKey (wc_Type cfg) (wc_Priority cfg)) = [QueueName (wc_Type cfg) (wc_Priority cfg)])"
proof (cases "\<exists>cfg r. LoadWorker getenv = Inr cfg \<and> NewFileRepository fs yaml (wc_TemplatesDir cfg) = Inr r")
  case False
  then have "\<exists>err. res = Inl err" "s' = s"
    using assms by (auto simp: worker_start_def split: sum.splits)
  then show ?thesis by (auto simp: consumes_def)
next
  case True
  then obtain cfg r where ready: "LoadWorker getenv = Inr cfg" "NewFileRepository fs yaml (wc_TemplatesDir cfg) = Inr r" by blast
  have valid: "Type_IsValid (wc_Type cfg)" "Priority_IsValid (wc_Priority cfg)"
    using ready by (simp_all add: LoadWorker_Inr)
  obtain process where "buildProcessor parse eng (wc_Type cfg) (NewRenderer (NewTemplateService (file_Repository it r))) (limiter (wc_RateLimit cfg)) = Inr process"
    using valid by (simp add: buildProcessor_eq)
  from assms ready this show ?thesis
  proof (cases rule: worker_connect_cases)
    case (started h1 h2 h3 h4)
    have "RoutingKey (wc_Type cfg) (wc_Priority cfg) \<in> set lane_keys"
      using valid by (auto simp: set_lane_keys)
    then have "bound_queues (h1 @ h2 @ h3 @ h4) (RoutingKey (wc_Type cfg) (wc_Priority cfg)) = [QueueName (wc_Type cfg) (wc_Priority cfg)]"
      using worker_calls_bound [OF started(3-6)] by (simp add: QueueName_def)
    moreover have "made (worker_calls cfg) (h1 @ h2 @ h3 @ h4)"
      using made_append [OF made_append [OF started(3,4)] made_append [OF started(5,6)]] by (simp add: worker_calls_def)
    ultimately show ?thesis
      using started(1,2) ready by (intro exI [of _ "h1 @ h2 @ h3 @ h4"]) (auto simp: NewConsumer_def)
  qed auto
qed

definition sample_worker_env :: "string \<Rightarrow> string" where
  "sample_worker_env key =
    (if key = ''WORKER_TYPE'' then ''email'' else if key = ''WORKER_PRIORITY'' then ''bulk''
     else if key = ''TEMPLATES_DIR'' then ''templates'' else [])"

lemma sample_accepts:
  "\<exists>s'. Dial sample_amqp url s = (Inr \<lparr>cn_conn = True, cn_ch = True\<rparr>, s')"
  "\<exists>s'. NewPublisher sample_amqp [] s = (Inr sample_publisher, s')"
  "\<exists>s'. Connection_Consume sample_amqp q n s = (None, s')"
  by (simp_all add: Dial_def NewPublisher_def Connection_Consume_def DeclareTopology_def declareLane_def allTypes_def
      allPriorities_def try_call_def invoke_def seqE_def sample_amqp_def Let_def sample_publisher_def)

theorem worker_start_order_witness:
  "\<exists>process s'. worker_start sample_worker_env sample_fs no_yaml sample_iteration Some verbatim_engines
      (\<lambda>_ _ w. (None, w :: unit)) sample_amqp sample_marshal (sample_broker True) = (Inr process, s')
    \<and> sint (co_maxRetries (wp_Consumer process)) = 3 \<and> bound_queues (bk_calls s') ''email.bulk'' = [''email.bulk'']"
proof -
  have cfg: "LoadWorker sample_worker_env = Inr \<lparr>wc_Type = TypeEmail, wc_Priority = PriorityBulk,
      wc_TemplatesDir = ''templates'', wc_RabbitURL = defaultRabbitURL, wc_Prefetch = 1, wc_MaxRetries = 3,
      wc_RateLimit = 50\<rparr>"
    by (simp add: LoadWorker_def sample_worker_env_def envOr_def envInt_def Type_IsValid_def Priority_IsValid_def)
  obtain s1 where s1: "Dial sample_amqp defaultRabbitURL (sample_broker True) = (Inr \<lparr>cn_conn = True, cn_ch = True\<rparr>, s1)"
    using sample_accepts(1) by blast
  obtain s2 where s2: "Dial sample_amqp defaultRabbitURL s1 = (Inr \<lparr>cn_conn = True, cn_ch = True\<rparr>, s2)"
    using sample_accepts(1) by blast
  obtain s3 where s3: "NewPublisher sample_amqp [] s2 = (Inr sample_publisher, s3)"
    using sample_accepts(2) by blast
  obtain s4 where s4: "Connection_Consume sample_amqp (QueueName TypeEmail PriorityBulk) 1 s3 = (None, s4)"
    using sample_accepts(3) by blast
  have "\<exists>process. worker_start sample_worker_env sample_fs no_yaml sample_iteration Some verbatim_engines
      (\<lambda>_ _ w. (None, w :: unit)) sample_amqp sample_marshal (sample_broker True) = (Inr process, s4)"
    by (simp add: worker_start_def Let_def cfg sample_repository_loads buildProcessor_def s1 s2 s3 s4)
  then obtain process where run: "worker_start sample_worker_env sample_fs no_yaml sample_iteration Some verbatim_engines
      (\<lambda>_ _ w. (None, w :: unit)) sample_amqp sample_marshal (sample_broker True) = (Inr process, s4)"
    by blast
  from worker_start_order [OF run] run show ?thesis
    by (auto simp: cfg RoutingKey_def QueueName_def sample_broker_def)
qed

end
