(* ===== verification/Api_Json.thy ===== *)
theory Api_Json
  imports Strict_Server System
begin

text \<open>
  The JSON of the HTTP API, by the tags of the struct types in
  internal/transport/rest/api/server.gen.go: what the responses write and what the decoder
  of the request bodies reads. A field with \<open>omitempty\<close> is a pointer in every one of
  these types and is left out when it is nil. \<open>Encode\<close> is the method of a \<open>json.Encoder\<close>, which
  ends the text with a newline; \<open>Decode\<close> is the method of a \<open>json.Decoder\<close>, which reads the
  first value of the text.
\<close>

subsection \<open>Responses\<close>

definition omitempty :: "string \<Rightarrow> json option \<Rightarrow> (string \<times> json) list" where
  "omitempty key field = (case field of None \<Rightarrow> [] | Some j \<Rightarrow> [(key, j)])"

definition json_ErrorResponse :: "ErrorResponse \<Rightarrow> json" where
  "json_ErrorResponse e =
    JObj ([(''code'', json_string (er_Code e))]
      @ omitempty ''field'' (map_option json_string (er_Field e))
      @ [(''message'', json_string (er_Message e))])"

definition json_NotificationAccepted :: "NotificationAccepted \<Rightarrow> json option" where
  "json_NotificationAccepted a =
    (case FormatTime (na_CreatedAt a) of
       None \<Rightarrow> None
     | Some time \<Rightarrow>
        Some (JObj [(''created_at'', JStr time), (''id'', json_string (na_Id a)), (''status'', json_string (na_Status a))]))"

definition json_BatchItemResult :: "BatchItemResult \<Rightarrow> json option" where
  "json_BatchItemResult x =
    (case (case bi_Notification x of None \<Rightarrow> Some None | Some a \<Rightarrow> map_option Some (json_NotificationAccepted a)) of
       None \<Rightarrow> None
     | Some notification \<Rightarrow>
        Some (JObj (omitempty ''error'' (map_option json_ErrorResponse (bi_Error x))
          @ [(''index'', JNum (FormatInt (int (bi_Index x))))]
          @ omitempty ''notification'' notification)))"

definition json_SendNotificationBatchResponse :: "BatchItemResult list \<Rightarrow> json option" where
  "json_SendNotificationBatchResponse results =
    map_option (\<lambda>xs. JObj [(''results'', JArr xs)]) (those_list (map json_BatchItemResult results))"

definition json_TemplateSummary :: "TemplateSummary \<Rightarrow> json" where
  "json_TemplateSummary t =
    JObj [(''id'', json_string (ts_Id t)), (''is_default'', JBool (ts_IsDefault t)), (''name'', json_string (ts_Name t)),
          (''type'', json_string (ts_Type t))]"

definition json_TemplateList :: "TemplateSummary list \<Rightarrow> json" where
  "json_TemplateList templates = JObj [(''templates'', JArr (map json_TemplateSummary templates))]"

definition json_Template :: "api_Template \<Rightarrow> json" where
  "json_Template t =
    JObj [(''body'', json_string (at_Body t)), (''id'', json_string (at_Id t)), (''is_default'', JBool (at_IsDefault t)),
          (''name'', json_string (at_Name t)), (''subject'', json_string (at_Subject t)), (''type'', json_string (at_Type t))]"

definition Encode :: "json option \<Rightarrow> string result" where
  "Encode j = (case j of None \<Rightarrow> Inl codec_error | Some j \<Rightarrow> Inr (print j @ [CHR 0x0A]))"

text \<open>The encoders of the strict server. \<open>c.JSON\<close> of the error handler uses the same encoder.\<close>

definition api_encoders :: "(string \<Rightarrow> go_error option) \<Rightarrow> (int \<Rightarrow> string \<Rightarrow> string) \<Rightarrow> encoders" where
  "api_encoders write text =
    \<lparr>enc_Accepted = (\<lambda>a. Encode (json_NotificationAccepted a)),
     enc_Batch = (\<lambda>xs. Encode (json_SendNotificationBatchResponse xs)),
     enc_List = (\<lambda>ts. Encode (Some (json_TemplateList ts))),
     enc_Template = (\<lambda>t. Encode (Some (json_Template t))),
     enc_Error = (\<lambda>e. Encode (Some (json_ErrorResponse e))),
     write_error = write, http_text = text\<rparr>"

subsection \<open>Requests\<close>

text \<open>A pointer: null makes it nil; any other value is decoded into what it points to, or into a new
  zero value.\<close>

definition decode_ptr :: "'a \<Rightarrow> ('a \<Rightarrow> json \<Rightarrow> 'a option) \<Rightarrow> 'a option \<Rightarrow> json \<Rightarrow> 'a option option" where
  "decode_ptr zero dec cur j =
    (if j = JNull then Some None else map_option Some (dec (case cur of None \<Rightarrow> zero | Some x \<Rightarrow> x) j))"

definition store_api_Recipient :: "string \<Rightarrow> json \<Rightarrow> api_Recipient \<Rightarrow> api_Recipient option" where
  "store_api_Recipient n j r =
    (if n = ''device_token'' then map_option (\<lambda>v. r\<lparr>ar_DeviceToken := v\<rparr>) (decode_ptr [] decode_string (ar_DeviceToken r) j)
     else if n = ''email'' then map_option (\<lambda>v. r\<lparr>ar_Email := v\<rparr>) (decode_ptr [] decode_string (ar_Email r) j)
     else if n = ''phone_number'' then map_option (\<lambda>v. r\<lparr>ar_PhoneNumber := v\<rparr>) (decode_ptr [] decode_string (ar_PhoneNumber r) j)
     else map_option (\<lambda>v. r\<lparr>ar_UserId := v\<rparr>) (decode_ptr [] decode_string (ar_UserId r) j))"

definition decode_api_Recipient :: "api_Recipient \<Rightarrow> json \<Rightarrow> api_Recipient option" where
  "decode_api_Recipient cur j =
    (case j of
       JNull \<Rightarrow> Some cur
     | JObj kvs \<Rightarrow> decode_fields [''device_token'', ''email'', ''phone_number'', ''user_id''] store_api_Recipient kvs cur
     | _ \<Rightarrow> None)"

definition store_SendNotificationRequest ::
  "floats \<Rightarrow> string \<Rightarrow> json \<Rightarrow> SendNotificationRequest \<Rightarrow> SendNotificationRequest option" where
  "store_SendNotificationRequest fl n j r =
    (if n = ''metadata'' then map_option (\<lambda>v. r\<lparr>nr_Metadata := v\<rparr>) (decode_ptr None decode_string_map (nr_Metadata r) j)
     else if n = ''priority'' then map_option (\<lambda>v. r\<lparr>nr_Priority := v\<rparr>) (decode_ptr [] decode_string (nr_Priority r) j)
     else if n = ''recipient'' then map_option (\<lambda>v. r\<lparr>nr_Recipient := v\<rparr>) (decode_api_Recipient (nr_Recipient r) j)
     else if n = ''template_data'' then
       map_option (\<lambda>v. r\<lparr>nr_TemplateData := v\<rparr>) (decode_ptr None (decode_any_map fl) (nr_TemplateData r) j)
     else if n = ''template_id'' then map_option (\<lambda>v. r\<lparr>nr_TemplateId := v\<rparr>) (decode_ptr [] decode_string (nr_TemplateId r) j)
     else map_option (\<lambda>v. r\<lparr>nr_Type := v\<rparr>) (decode_string (nr_Type r) j))"

definition zero_SendNotificationRequest :: SendNotificationRequest where
  "zero_SendNotificationRequest =
    \<lparr>nr_Metadata = None, nr_Priority = None,
     nr_Recipient = \<lparr>ar_DeviceToken = None, ar_Email = None, ar_PhoneNumber = None, ar_UserId = None\<rparr>,
     nr_TemplateData = None, nr_TemplateId = None, nr_Type = []\<rparr>"

definition decode_SendNotificationRequest ::
  "floats \<Rightarrow> SendNotificationRequest \<Rightarrow> json \<Rightarrow> SendNotificationRequest option" where
  "decode_SendNotificationRequest fl cur j =
    (case j of
       JNull \<Rightarrow> Some cur
     | JObj kvs \<Rightarrow>
         decode_fields [''metadata'', ''priority'', ''recipient'', ''template_data'', ''template_id'', ''type'']
           (store_SendNotificationRequest fl) kvs cur
     | _ \<Rightarrow> None)"

text \<open>A slice that is decoded into again, when the text repeats its key, keeps its memory: an element is
  decoded into what its place held before. The slice is that memory and its length.\<close>

fun decode_elements :: "'a \<Rightarrow> ('a \<Rightarrow> json \<Rightarrow> 'a option) \<Rightarrow> json list \<Rightarrow> 'a list \<Rightarrow> 'a list option" where
  "decode_elements zero dec [] old = Some old"
| "decode_elements zero dec (j # js) old =
    (case dec (case old of [] \<Rightarrow> zero | x # _ \<Rightarrow> x) j of
       None \<Rightarrow> None
     | Some y \<Rightarrow> map_option ((#) y) (decode_elements zero dec js (tl old)))"

definition decode_slice :: "'a \<Rightarrow> ('a \<Rightarrow> json \<Rightarrow> 'a option) \<Rightarrow> 'a list \<times> nat \<Rightarrow> json \<Rightarrow> ('a list \<times> nat) option" where
  "decode_slice zero dec cur j =
    (case j of
       JNull \<Rightarrow> Some ([], 0)
     | JArr js \<Rightarrow>
         if js = [] then Some ([], 0)
         else map_option (\<lambda>ys. (ys, length js)) (decode_elements zero dec js (fst cur))
     | _ \<Rightarrow> None)"

definition decode_SendNotificationBatchRequest :: "floats \<Rightarrow> json \<Rightarrow> SendNotificationRequest list option" where
  "decode_SendNotificationBatchRequest fl j =
    map_option (\<lambda>(ys, n). take n ys)
      (case j of
         JNull \<Rightarrow> Some ([], 0)
       | JObj kvs \<Rightarrow>
           decode_fields [''notifications'']
             (\<lambda>_ j cur. decode_slice zero_SendNotificationRequest (decode_SendNotificationRequest fl) cur j) kvs ([], 0)
       | _ \<Rightarrow> None)"

definition Decode :: "(json \<Rightarrow> 'r option) \<Rightarrow> string \<Rightarrow> 'r option" where
  "Decode dec text =
    (case parse_value (2 * length text + 2) maxNestingDepth text of None \<Rightarrow> None | Some (j, _) \<Rightarrow> dec j)"

definition Decode_SendNotification :: "floats \<Rightarrow> string \<Rightarrow> SendNotificationRequest option" where
  "Decode_SendNotification fl = Decode (decode_SendNotificationRequest fl zero_SendNotificationRequest)"

definition Decode_SendNotificationBatch :: "floats \<Rightarrow> string \<Rightarrow> SendNotificationRequest list option" where
  "Decode_SendNotificationBatch fl = Decode (decode_SendNotificationBatchRequest fl)"

subsection \<open>What a request body decodes to\<close>

lemma decode_fields_entries:
  assumes "decode_fields names store kvs r = Some r'" "P r"
    and "\<And>n k j r r'. (k, j) \<in> set kvs \<Longrightarrow> store n j r = Some r' \<Longrightarrow> P r \<Longrightarrow> P r'"
  shows "P r'"
  using assms
proof (induction kvs arbitrary: r)
  case (Cons kv kvs)
  obtain k j where kv: "kv = (k, j)" by (cases kv)
  have step: "store n j' r0 = Some r1 \<Longrightarrow> P r0 \<Longrightarrow> P r1" if "(k', j') \<in> set kvs" for n k' j' r0 r1
    using Cons.prems(3) [of k' j'] that by auto
  show ?case
  proof (cases "field_name names (unquote k)")
    case None
    with Cons.IH [of r] Cons.prems(1,2) step show ?thesis by (auto simp: kv)
  next
    case (Some n)
    with Cons.prems(1) obtain r1 where r1: "store n j r = Some r1" "decode_fields names store kvs r1 = Some r'"
      by (auto simp: kv split: option.splits)
    have "P r1" using Cons.prems(3) [of k j n r r1] Cons.prems(2) r1(1) by (simp add: kv)
    with Cons.IH [of r1] r1(2) step show ?thesis by blast
  qed
qed simp

definition opt_all :: "('a \<Rightarrow> bool) \<Rightarrow> 'a option \<Rightarrow> bool" where
  "opt_all P x \<longleftrightarrow> (case x of None \<Rightarrow> True | Some y \<Rightarrow> P y)"

lemma opt_all_simps [simp]: "opt_all P None" "opt_all P (Some y) = P y"
  by (simp_all add: opt_all_def)

lemma decode_ptr_all:
  assumes "decode_ptr zero dec cur j = Some x" "opt_all P cur" "P zero"
    and "\<And>y z. dec y j = Some z \<Longrightarrow> P y \<Longrightarrow> P z"
  shows "opt_all P x"
  using assms by (cases cur) (auto simp: decode_ptr_def split: if_splits)

lemma decode_any_map_nests:
  assumes "wf_json d j" "decode_any_map fl cur j = Some data" "data_nests d cur"
  shows "data_nests d data"
proof (cases j)
  case (JObj kvs)
  with assms(1) obtain e where d: "d = Suc e" "\<forall>(k, x) \<in> set kvs. string_literal k \<and> wf_json e x" by (cases d) auto
  from assms(2) JObj obtain es where data: "data = Some (map_of_entries (map_entries cur @ es))"
    and es: "map (\<lambda>(k, x). map_option (Pair (unquote k)) (decode_any fl x)) kvs = map Some es"
    by (auto simp: decode_any_map_def those_list_Some)
  have "nests e y" if y: "(k, y) \<in> set es" for k y
  proof -
    obtain k0 x where x: "(k0, x) \<in> set kvs" "decode_any fl x = Some y"
      using map_eq_map_Some [OF es y] by auto
    with d(2) have "wf_json e x" by auto
    with decode_any_nests x(2) show ?thesis by blast
  qed
  moreover have "nests e y" if y: "(k, y) \<in> set (map_entries cur)" for k y
    using assms(3) y d(1) by (auto simp: data_nests_def map_entries_def split: option.splits)
  ultimately show ?thesis
    using map_of_entries_set [of "map_entries cur @ es"] by (auto simp: data data_nests_def d(1))
qed (use assms in \<open>auto simp: decode_any_map_def data_nests_def\<close>)

definition recipient_ok :: "api_Recipient \<Rightarrow> bool" where
  "recipient_ok r \<longleftrightarrow>
    opt_all utf8_valid (ar_DeviceToken r) \<and> opt_all utf8_valid (ar_Email r) \<and> opt_all utf8_valid (ar_PhoneNumber r)
    \<and> opt_all utf8_valid (ar_UserId r)"

definition data_ok :: "nat \<Rightarrow> any_map \<Rightarrow> bool" where
  "data_ok d data \<longleftrightarrow> clean_data data \<and> finite_data data \<and> data_nests d data"

definition request_ok :: "nat \<Rightarrow> SendNotificationRequest \<Rightarrow> bool" where
  "request_ok d r \<longleftrightarrow>
    opt_all clean_metadata (nr_Metadata r) \<and> opt_all utf8_valid (nr_Priority r) \<and> recipient_ok (nr_Recipient r)
    \<and> opt_all (data_ok d) (nr_TemplateData r)
    \<and> opt_all utf8_valid (nr_TemplateId r) \<and> utf8_valid (nr_Type r)"

lemma decode_string_ptr: "decode_ptr [] decode_string cur j = Some x \<Longrightarrow> opt_all utf8_valid cur \<Longrightarrow> opt_all utf8_valid x"
  by (erule decode_ptr_all) (auto dest: decode_string_valid)

lemma store_api_Recipient_ok: "store_api_Recipient n j r = Some r' \<Longrightarrow> recipient_ok r \<Longrightarrow> recipient_ok r'"
  by (auto simp: store_api_Recipient_def recipient_ok_def dest: decode_string_ptr split: if_splits)

lemma decode_api_Recipient_ok: "decode_api_Recipient cur j = Some r \<Longrightarrow> recipient_ok cur \<Longrightarrow> recipient_ok r"
  using decode_fields_invariant [of _ store_api_Recipient _ cur r recipient_ok] store_api_Recipient_ok
  by (auto simp: decode_api_Recipient_def split: json.splits)

lemma decode_data_ptr:
  assumes "floats_ok fl" "wf_json d j" "decode_ptr None (decode_any_map fl) cur j = Some x"
    and "opt_all (data_ok d) cur"
  shows "opt_all (data_ok d) x"
  using assms(3,4)
proof (rule decode_ptr_all)
  show "data_ok d None"
    by (simp add: data_ok_def clean_data_def finite_data_def data_nests_def)
  show "data_ok d z" if "decode_any_map fl y j = Some z" "data_ok d y" for y z
    using decode_any_map_clean [OF assms(1) that(1)] decode_any_map_nests [OF assms(2) that(1)] that(2)
    unfolding data_ok_def by blast
qed

lemma decode_metadata_ptr:
  "decode_ptr None decode_string_map cur j = Some x \<Longrightarrow> opt_all clean_metadata cur \<Longrightarrow> opt_all clean_metadata x"
  by (erule decode_ptr_all) (auto simp: clean_metadata_def [of None] dest: decode_string_map_clean)

lemma store_SendNotificationRequest_ok:
  assumes "floats_ok fl" "wf_json d j" "store_SendNotificationRequest fl n j r = Some r'" "request_ok d r"
  shows "request_ok d r'"
proof -
  note ok = assms(4) [unfolded request_ok_def]
  from assms(3) consider
      v where "decode_ptr None decode_string_map (nr_Metadata r) j = Some v" "r' = r\<lparr>nr_Metadata := v\<rparr>"
    | v where "decode_ptr [] decode_string (nr_Priority r) j = Some v" "r' = r\<lparr>nr_Priority := v\<rparr>"
    | v where "decode_api_Recipient (nr_Recipient r) j = Some v" "r' = r\<lparr>nr_Recipient := v\<rparr>"
    | v where "decode_ptr None (decode_any_map fl) (nr_TemplateData r) j = Some v" "r' = r\<lparr>nr_TemplateData := v\<rparr>"
    | v where "decode_ptr [] decode_string (nr_TemplateId r) j = Some v" "r' = r\<lparr>nr_TemplateId := v\<rparr>"
    | v where "decode_string (nr_Type r) j = Some v" "r' = r\<lparr>nr_Type := v\<rparr>"
    by (auto simp: store_SendNotificationRequest_def split: if_splits)
  then show ?thesis
  proof cases
    case 1
    with decode_metadata_ptr [OF 1(1)] ok show ?thesis by (simp add: request_ok_def)
  next
    case 2
    with decode_string_ptr [OF 2(1)] ok show ?thesis by (simp add: request_ok_def)
  next
    case 3
    with decode_api_Recipient_ok [OF 3(1)] ok show ?thesis by (simp add: request_ok_def)
  next
    case 4
    with decode_data_ptr [OF assms(1,2) 4(1)] ok show ?thesis by (simp add: request_ok_def)
  next
    case 5
    with decode_string_ptr [OF 5(1)] ok show ?thesis by (simp add: request_ok_def)
  next
    case 6
    with decode_string_valid [OF 6(1)] ok show ?thesis by (simp add: request_ok_def)
  qed
qed

lemma zero_request_ok: "request_ok d zero_SendNotificationRequest"
  by (simp add: request_ok_def zero_SendNotificationRequest_def recipient_ok_def)

lemma decode_SendNotificationRequest_ok:
  assumes "floats_ok fl" "wf_json (Suc d) j" "decode_SendNotificationRequest fl cur j = Some r" "request_ok d cur"
  shows "request_ok d r"
proof (cases j)
  case (JObj kvs)
  with assms(3) have run: "decode_fields [''metadata'', ''priority'', ''recipient'', ''template_data'', ''template_id'', ''type'']
      (store_SendNotificationRequest fl) kvs cur = Some r"
    by (simp add: decode_SendNotificationRequest_def)
  from run assms(4) show ?thesis
  proof (rule decode_fields_entries)
    fix n k j' r0 r1
    assume k: "(k, j') \<in> set kvs" and store: "store_SendNotificationRequest fl n j' r0 = Some r1" "request_ok d r0"
    have "wf_json d j'" using assms(2) JObj k by auto
    from store_SendNotificationRequest_ok [OF assms(1) this store] show "request_ok d r1" .
  qed
qed (use assms in \<open>simp_all add: decode_SendNotificationRequest_def\<close>)

lemma decode_elements_all:
  assumes "decode_elements zero dec js old = Some ys" "\<forall>x \<in> set old. P x" "P zero"
    and "\<And>j x y. j \<in> set js \<Longrightarrow> dec x j = Some y \<Longrightarrow> P x \<Longrightarrow> P y"
  shows "\<forall>y \<in> set ys. P y"
  using assms
proof (induction js arbitrary: old ys)
  case (Cons j js)
  let ?x = "case old of [] \<Rightarrow> zero | x # _ \<Rightarrow> x"
  from Cons.prems(1) obtain y zs where y: "dec ?x j = Some y" "decode_elements zero dec js (tl old) = Some zs" "ys = y # zs"
    by (auto split: option.splits)
  have "\<forall>x \<in> set (tl old). P x" using Cons.prems(2) by (cases old) auto
  then have "\<forall>z \<in> set zs. P z"
  proof (rule Cons.IH [OF y(2) _ Cons.prems(3)])
    show "P z" if "e \<in> set js" "dec x e = Some z" "P x" for e x z
      by (rule Cons.prems(4) [OF _ that(2,3)]) (simp add: that(1))
  qed
  moreover have "P ?x" using Cons.prems(2,3) by (cases old) simp_all
  then have "P y" by (rule Cons.prems(4) [OF _ y(1), rotated]) simp
  ultimately show ?case by (simp add: y(3))
qed simp

lemma decode_slice_all:
  assumes "decode_slice zero dec cur j = Some x" "\<forall>y \<in> set (fst cur). P y" "P zero"
    and "\<And>js e x y. j = JArr js \<Longrightarrow> e \<in> set js \<Longrightarrow> dec x e = Some y \<Longrightarrow> P x \<Longrightarrow> P y"
  shows "\<forall>y \<in> set (fst x). P y"
proof (cases j)
  case (JArr js)
  show ?thesis
  proof (cases "js = []")
    case False
    with assms(1) JArr obtain ys where "decode_elements zero dec js (fst cur) = Some ys" "x = (ys, length js)"
      by (auto simp: decode_slice_def)
    then have "\<forall>y \<in> set ys. P y"
      by (intro decode_elements_all [of zero dec js "fst cur" ys P] assms(2,3)) (auto intro: assms(4) [OF JArr])
    with \<open>x = (ys, length js)\<close> show ?thesis by simp
  qed (use assms(1) JArr in \<open>auto simp: decode_slice_def\<close>)
qed (use assms(1) in \<open>auto simp: decode_slice_def\<close>)

lemma Decode_wf:
  "Decode dec text = Some r \<Longrightarrow> \<exists>j. dec j = Some r \<and> wf_json maxNestingDepth j"
  by (auto simp: Decode_def simp del: parse_value.simps dest!: parse_wf [THEN conjunct1, rule_format]
      split: option.splits)


lemma Decode_SendNotification_ok:
  assumes "floats_ok fl" "Decode_SendNotification fl text = Some r"
  shows "request_ok (maxNestingDepth - 1) r"
proof -
  obtain j where "decode_SendNotificationRequest fl zero_SendNotificationRequest j = Some r" "wf_json maxNestingDepth j"
    using Decode_wf [OF assms(2) [unfolded Decode_SendNotification_def]] by auto
  then show ?thesis
    by (intro decode_SendNotificationRequest_ok [OF assms(1) _ _ zero_request_ok]) (simp_all add: maxNestingDepth_def)
qed

lemma data_nests_mono: "data_nests d data \<Longrightarrow> d \<le> d' \<Longrightarrow> data_nests d' data"
  using nests_mono unfolding data_nests_def by (auto split: option.splits simp del: nests.simps)

lemma request_ok_mono: "request_ok d r \<Longrightarrow> d \<le> d' \<Longrightarrow> request_ok d' r"
  by (auto simp: request_ok_def data_ok_def opt_all_def dest: data_nests_mono split: option.splits)

lemma Decode_SendNotificationBatch_ok:
  assumes ok: "floats_ok fl" and "Decode_SendNotificationBatch fl text = Some rs" "r \<in> set rs"
  shows "request_ok (maxNestingDepth - 1) r"
proof -
  obtain j where j: "decode_SendNotificationBatchRequest fl j = Some rs" "wf_json maxNestingDepth j"
    using Decode_wf [OF assms(2) [unfolded Decode_SendNotificationBatch_def]] by auto
  have depth: "maxNestingDepth = Suc (Suc (Suc (maxNestingDepth - 3)))" by (simp add: maxNestingDepth_def)
  have "request_ok (maxNestingDepth - 3) r"
  proof (cases j)
    case JNull
    with j(1) assms(3) show ?thesis by (simp add: decode_SendNotificationBatchRequest_def)
  next
    case (JObj kvs)
    with j(1) obtain ys n where run: "decode_fields [''notifications'']
        (\<lambda>_ j cur. decode_slice zero_SendNotificationRequest (decode_SendNotificationRequest fl) cur j) kvs ([], 0) = Some (ys, n)"
        "rs = take n ys"
      by (auto simp: decode_SendNotificationBatchRequest_def)
    have "\<forall>y \<in> set (fst (ys, n)). request_ok (maxNestingDepth - 3) y"
    proof (rule decode_fields_entries [OF run(1)])
      fix k j' x x'
      assume k: "(k, j') \<in> set kvs" and dec: "decode_slice zero_SendNotificationRequest (decode_SendNotificationRequest fl) x j' = Some x'"
        and old: "\<forall>y \<in> set (fst x). request_ok (maxNestingDepth - 3) y"
      have "wf_json (Suc (Suc (maxNestingDepth - 3))) j'"
        using j(2) [unfolded JObj] k by (subst (asm) depth) auto
      then have "wf_json (Suc (maxNestingDepth - 3)) e" if "j' = JArr js" "e \<in> set js" for js e
        using that by simp
      then show "\<forall>y \<in> set (fst x'). request_ok (maxNestingDepth - 3) y"
        using decode_slice_all [OF dec old zero_request_ok] decode_SendNotificationRequest_ok [OF ok] by blast
    qed simp
    with run(2) assms(3) show ?thesis by (auto dest: in_set_takeD)
  qed (use j(1) in \<open>simp_all add: decode_SendNotificationBatchRequest_def\<close>)
  then show ?thesis by (rule request_ok_mono) simp
qed

lemma request_ok_transportable:
  assumes "request_ok (maxNestingDepth - 1) r" "utf8_valid uuid" "utf8_valid (t_ID tmpl)"
  shows "transportable (request_message uuid now (toSendRequest r) tmpl)"
proof -
  have deref: "utf8_valid (deref [] x)" if "opt_all utf8_valid x" for x
    using that by (cases x) (simp_all add: deref_def)
  have "data_ok (maxNestingDepth - 1) (deref None (nr_TemplateData r))"
    using assms(1) by (cases "nr_TemplateData r") (simp_all add: deref_def request_ok_def data_ok_def clean_data_def
        finite_data_def data_nests_def)
  moreover have "clean_metadata (deref None (nr_Metadata r))"
    using assms(1) by (cases "nr_Metadata r") (simp_all add: deref_def request_ok_def clean_metadata_def)
  moreover have "utf8_valid (request_priority (toSendRequest r))"
    using assms(1) by (auto simp: request_priority_def toSendRequest_def request_ok_def utf8_valid_ascii split: option.splits)
  ultimately show ?thesis
    using assms deref
    by (simp add: transportable_def clean_Message_def clean_Recipient_def storable_def request_message_def
        toSendRequest_def request_ok_def recipient_ok_def data_ok_def)
qed

subsection \<open>Responses are JSON\<close>

lemma wf_omitempty: "(\<And>j. x = Some j \<Longrightarrow> wf_json d j) \<Longrightarrow> string_literal k \<Longrightarrow> \<forall>(k, v) \<in> set (omitempty k x). string_literal k \<and> wf_json d v"
  by (auto simp: omitempty_def split: option.split)

lemma wf_ErrorResponse: "wf_json (Suc d) (json_ErrorResponse e)"
  by (cases "er_Field e") (simp_all add: json_ErrorResponse_def omitempty_def string_literal_name)

definition accepted_json :: "string \<Rightarrow> string \<Rightarrow> json" where
  "accepted_json time uuid =
    JObj [(''created_at'', JStr time), (''id'', json_string uuid), (''status'', json_string ''pending'')]"

lemma json_NotificationAccepted_Some:
  "FormatTime now = Some time \<Longrightarrow>
    json_NotificationAccepted \<lparr>na_Id = uuid, na_Status = Pending, na_CreatedAt = now\<rparr> = Some (accepted_json time uuid)"
  by (simp add: json_NotificationAccepted_def accepted_json_def)

lemma wf_accepted: "FormatTime now = Some time \<Longrightarrow> wf_json (Suc d) (accepted_json time uuid)"
  by (simp add: accepted_json_def string_literal_name string_literal_time)

lemma Encode_reads: "wf_json maxNestingDepth j \<Longrightarrow> Encode (Some j) = Inr buf \<Longrightarrow> parse buf = Some j"
  by (auto simp: Encode_def parse_print_line)

lemma depth_Suc: "maxNestingDepth = Suc (Suc (Suc (Suc (maxNestingDepth - 4))))"
  by (simp add: maxNestingDepth_def)

lemma error_body:
  assumes "handle_error (api_encoders write text) q path (Some e, None) = Some (status, buf)"
  shows "\<exists>resp. httpErrorHandler q False path e = Some (status, resp) \<and> parse buf = Some (json_ErrorResponse resp)"
proof -
  from assms obtain resp where "httpErrorHandler q False path e = Some (status, resp)"
      "Encode (Some (json_ErrorResponse resp)) = Inr buf"
    by (auto simp: handle_error_def api_encoders_def split: option.splits sum.splits)
  moreover have "wf_json maxNestingDepth (json_ErrorResponse resp)"
    by (subst depth_Suc) (rule wf_ErrorResponse)
  ultimately show ?thesis using Encode_reads by blast
qed

text \<open>An item of a batch response: its position, and either an error or a notification.\<close>

definition item_json :: "nat \<Rightarrow> json \<Rightarrow> bool" where
  "item_json i j \<longleftrightarrow>
    (\<exists>e. j = JObj [(''error'', json_ErrorResponse e), (''index'', JNum (FormatInt (int i)))])
    \<or> (\<exists>time uuid. j = JObj [(''index'', JNum (FormatInt (int i))), (''notification'', accepted_json time uuid)])"

lemma json_BatchItemResult_ok:
  assumes "(bi_Error x = None) \<longleftrightarrow> accepted x"
    and "\<And>a. bi_Notification x = Some a \<Longrightarrow> \<exists>time uuid. FormatTime (na_CreatedAt a) = Some time
      \<and> a = \<lparr>na_Id = uuid, na_Status = Pending, na_CreatedAt = na_CreatedAt a\<rparr>"
  shows "\<exists>j. json_BatchItemResult x = Some j \<and> item_json (bi_Index x) j \<and> wf_json (Suc (Suc d)) j
    \<and> ((\<exists>i n. j = JObj [(''index'', i), (''notification'', n)]) \<longleftrightarrow> accepted x)"
proof (cases "bi_Notification x")
  case None
  with assms(1) obtain e where "bi_Error x = Some e" by (auto simp: accepted_def)
  with None show ?thesis
    by (auto simp: json_BatchItemResult_def omitempty_def item_json_def string_literal_name number_literal_FormatInt wf_ErrorResponse
        accepted_def)
next
  case (Some a)
  with assms(2) obtain time uuid where a: "FormatTime (na_CreatedAt a) = Some time"
      "a = \<lparr>na_Id = uuid, na_Status = Pending, na_CreatedAt = na_CreatedAt a\<rparr>"
    by blast
  have "json_NotificationAccepted a = Some (accepted_json time uuid)"
    using json_NotificationAccepted_Some [OF a(1), of uuid] a(2) by simp
  moreover have "bi_Error x = None" using assms(1) Some by (simp add: accepted_def)
  ultimately show ?thesis
    using Some wf_accepted [OF a(1)]
    by (simp add: json_BatchItemResult_def omitempty_def item_json_def string_literal_name number_literal_FormatInt accepted_def)
       blast
qed


subsection \<open>Properties\<close>

text \<open>A request that was read from JSON, alone or in a batch, gives a message that can travel: its
  strings are UTF-8, its maps are in order, and its data nests no deeper than the decoder of the worker
  allows. The limit of the request decoder is the same, and a batch nests deeper than a single request.\<close>

theorem decoded_request_transportable:
  assumes "floats_ok (dp_floats D)"
    and "Decode_SendNotification (dp_floats D) text = Some r
      \<or> (\<exists>rs. Decode_SendNotificationBatch (dp_floats D) text = Some rs \<and> r \<in> set rs)"
    and "utf8_valid uuid" "\<forall>tid t tmpl. Service_Resolve (dp_repo D) tid t = Inr tmpl \<longrightarrow> utf8_valid (t_ID tmpl)"
  shows "json_request D uuid now (toSendRequest r)"
proof -
  have "request_ok (maxNestingDepth - 1) r"
    using assms(2) Decode_SendNotification_ok [OF assms(1)] Decode_SendNotificationBatch_ok [OF assms(1)] by blast
  then show ?thesis
    unfolding json_request_def using request_ok_transportable [OF _ assms(3)] assms(4) by blast
qed

text \<open>\<open>{"type":"sms"}\<close>\<close>

definition sample_body :: string where
  "sample_body = ''{'' @ [dquote] @ ''type'' @ [dquote] @ '':'' @ [dquote] @ ''sms'' @ [dquote] @ ''}''"

theorem decoded_request_transportable_witness:
  "\<exists>r. Decode_SendNotification sample_floats sample_body = Some r \<and> nr_Type r = TypeSMS
    \<and> json_request sample_deployment ''n1'' 0 (toSendRequest r)"
proof -
  have "fst (the (parse_value (2 * length sample_body + 2) maxNestingDepth sample_body)) = JObj [(''type'', JStr ''sms'')]
      \<and> parse_value (2 * length sample_body + 2) maxNestingDepth sample_body \<noteq> None"
    by code_simp
  then have "\<exists>rest. parse_value (2 * length sample_body + 2) maxNestingDepth sample_body = Some (JObj [(''type'', JStr ''sms'')], rest)"
    by (metis option.collapse prod.collapse)
  moreover have "unquote ''type'' = ''type''" "unquote ''sms'' = ''sms''"
    by (intro unquote_plain; simp)+
  ultimately obtain r where r: "Decode_SendNotification sample_floats sample_body = Some r" "nr_Type r = TypeSMS"
    by (auto simp: Decode_SendNotification_def Decode_def decode_SendNotificationRequest_def field_name_def
        store_SendNotificationRequest_def decode_string_def simp del: parse_value.simps)
  have "\<forall>tid t tmpl. Service_Resolve (dp_repo sample_deployment) tid t = Inr tmpl \<longrightarrow> utf8_valid (t_ID tmpl)"
    by (auto simp: sample_deployment_def Service_Resolve_def file_Repository_def FileRepository_Get_def
        FileRepository_GetDefault_def type_map_def sample_repository_def sample_default_def sample_welcome_def
        Template_New_def utf8_valid_ascii split: if_splits option.splits)
  moreover have "utf8_valid ''n1''" by (simp add: utf8_valid_ascii)
  ultimately have "json_request sample_deployment ''n1'' 0 (toSendRequest r)"
    using decoded_request_transportable [OF sample_deployment_floats, of sample_body r] r(1)
    by (simp add: sample_deployment_def)
  with r show ?thesis by blast
qed

text \<open>C18. The answer to a send request, byte for byte: a 202 whose body is the JSON of the acceptance with the
  notification's ID, its time and the status pending, and then the message with that ID has been
  confirmed on its lane; or a client or server error whose body is the JSON of an error response, and
  then nothing was confirmed. An accepted message can always be reported.\<close>

theorem http_SendNotification:
  assumes "strict_SendNotification (api_encoders write text) addr (file_Repository it repo)
        (Publisher_Publish amqp (Marshal_Message fl) p) uuid now c bound None s = (result, s')"
    and "handle_error (api_encoders write text) q path result = Some (status, buf)"
    and "plain_environment (Publisher_Publish amqp (Marshal_Message fl) p) bound"
  shows "status = 202 \<and> (\<exists>m msg time. valid_message addr m \<and> m_ID m = uuid \<and> Marshal_Message fl m = Inr msg
        \<and> confirmed s' = confirmed s @ [(RoutingKey (m_Type m) (m_Priority m), msg)]
        \<and> FormatTime now = Some time \<and> parse buf = Some (JObj [(''created_at'', JStr time), (''id'', json_string uuid),
            (''status'', json_string ''pending'')]))
    \<or> 400 \<le> status \<and> confirmed s' = confirmed s \<and> (\<exists>resp. parse buf = Some (json_ErrorResponse resp))"
  using assms(1,3)
proof (cases rule: strict_SendNotification_cases)
  case (refused e)
  with assms(2) error_body [OF assms(2) [unfolded refused(1)]] show ?thesis by blast
next
  case (accepted m msg)
  obtain time where time: "FormatTime now = Some time"
    using accepted(3,4) Marshal_Some [of fl m] FormatTime_Some [of now] by blast
  have "enc_Accepted (api_encoders write text) \<lparr>na_Id = uuid, na_Status = Pending, na_CreatedAt = now\<rparr>
      = Encode (Some (accepted_json time uuid))"
    by (simp add: api_encoders_def json_NotificationAccepted_Some [OF time])
  moreover have "wf_json maxNestingDepth (accepted_json time uuid)"
    by (subst depth_Suc) (rule wf_accepted [OF time])
  ultimately have "status = 202" "parse buf = Some (accepted_json time uuid)"
    using accepted(6) assms(2) by (auto simp: visit_None Encode_def parse_print_line)
  with accepted time show ?thesis unfolding accepted_json_def by blast
qed

lemma sample_api_send:
  "\<exists>b. api_send sample_deployment ''n1'' 7 Background sample_request idle_broker
    = (Inr \<lparr>sp_ID = ''n1'', sp_Status = StatusPending, sp_CreatedAt = 7\<rparr>, b)"
proof -
  let ?D = sample_deployment
  let ?m = "request_message ''n1'' 7 sample_request sample_default"
  have resolves: "Service_Resolve (dp_repo ?D) (sr_TemplateID sample_request) (sr_Type sample_request) = Inr sample_default"
    using sample_resolves by (simp add: sample_deployment_def sample_request_def)
  obtain body where body: "marshal_in ?D ?m = Inr body"
    using Marshal_Some [of "dp_floats ?D" ?m]
    by (auto simp: request_message_def sample_request_def finite_data_def writable_time_def)
  obtain s' where published: "Publisher_Publish (dp_amqp ?D) (marshal_in ?D) (dp_publisher ?D) Background ?m idle_broker = (None, s')"
    unfolding Publisher_Publish_def using steady_publish [OF sample_steady body] by blast
  obtain res b where run: "api_send ?D ''n1'' 7 Background sample_request idle_broker = (res, b)" by fastforce
  then have "res = Inr \<lparr>sp_ID = ''n1'', sp_Status = StatusPending, sp_CreatedAt = 7\<rparr>"
    unfolding api_send_def
    by (cases rule: Service_Send_cases)
       (use sample_valid resolves published in \<open>simp_all add: sample_deployment_def\<close>)
  with run show ?thesis by blast
qed

definition sample_api_encoders :: encoders where
  "sample_api_encoders = api_encoders (\<lambda>_. None) (\<lambda>_ m. m)"

lemma sample_plain_json:
  "plain_environment (Publisher_Publish steady_amqp (Marshal_Message sample_floats) sample_publisher) (Inr req)"
proof -
  have "plain_error e" if "Marshal_Message sample_floats m = Inl e" for m e
    using that by (auto simp: Marshal_Message_def codec_error_def plain_error_def errors_As_def split: option.splits)
  then show ?thesis
    by (auto simp: plain_environment_def Publisher_Publish_def Publisher_publish_def steady_amqp_def invoke_def Let_def
        split: if_splits sum.splits)
qed

theorem http_SendNotification_witness:
  "\<exists>result s' buf time. strict_SendNotification sample_api_encoders Some (file_Repository sample_iteration sample_repository)
      (Publisher_Publish steady_amqp (Marshal_Message sample_floats) sample_publisher) ''n1'' 7 Background
      (Inr sample_api_request) None idle_broker = (result, s')
    \<and> handle_error sample_api_encoders (\<lambda>s. s) ''/api/v1/notifications'' result = Some (202, buf)
    \<and> parse buf = Some (accepted_json time ''n1'') \<and> confirmed s' \<noteq> confirmed idle_broker"
proof -
  obtain s' where send: "Service_Send Some (file_Repository sample_iteration sample_repository)
      (Publisher_Publish steady_amqp (Marshal_Message sample_floats) sample_publisher) ''n1'' 7 Background sample_request
      idle_broker = (Inr \<lparr>sp_ID = ''n1'', sp_Status = StatusPending, sp_CreatedAt = 7\<rparr>, s')"
    using sample_api_send by (auto simp: api_send_def sample_deployment_def)
  obtain time where "FormatTime 7 = Some time" using FormatTime_Some [of 7] by (auto simp: writable_time_def)
  then obtain buf where buf: "enc_Accepted sample_api_encoders \<lparr>na_Id = ''n1'', na_Status = Pending, na_CreatedAt = 7\<rparr> = Inr buf"
    by (simp add: sample_api_encoders_def api_encoders_def json_NotificationAccepted_Some Encode_def)
  obtain e where run: "strict_SendNotification sample_api_encoders Some (file_Repository sample_iteration sample_repository)
      (Publisher_Publish steady_amqp (Marshal_Message sample_floats) sample_publisher) ''n1'' 7 Background
      (Inr sample_api_request) None idle_broker = ((e, Some (202, buf)), s')"
    by (simp add: strict_SendNotification_def Handler_SendNotification_def Handler_send_def sample_toSendRequest send
        VisitSendNotificationResponse_def visit_def buf)
  have handled: "handle_error sample_api_encoders (\<lambda>s. s) ''/api/v1/notifications'' (e, Some (202, buf)) = Some (202, buf)"
    by simp
  from http_SendNotification [OF run [unfolded sample_api_encoders_def] handled [unfolded sample_api_encoders_def] sample_plain_json]
  obtain time where "parse buf = Some (accepted_json time ''n1'')" "confirmed s' \<noteq> confirmed idle_broker"
    unfolding accepted_json_def by auto
  with run handled show ?thesis by blast
qed

lemma list_all2_partner: "list_all2 P xs ys \<Longrightarrow> y \<in> set ys \<Longrightarrow> \<exists>x. P x y"
  by (auto simp: list_all2_conv_all_nth in_set_conv_nth)

text \<open>What a batch loop leaves: one item per request, each of which can be written.\<close>

lemma batch_items:
  assumes run: "batch_loop q addr (file_Repository it repo) (Publisher_Publish amqp (Marshal_Message fl) p) draw c 0 reqs s
    = (results, s')"
  obtains new j where "map bi_Index results = [0..<length reqs]" "confirmed s' = confirmed s @ new"
    "length new = length (filter accepted results)"
    "\<And>x d. x \<in> set results \<Longrightarrow> json_BatchItemResult x = Some (j x) \<and> item_json (bi_Index x) (j x) \<and> wf_json (Suc (Suc d)) (j x)
      \<and> ((\<exists>i n. j x = JObj [(''index'', i), (''notification'', n)]) \<longleftrightarrow> accepted x)"
proof -
  from rabbit_send.batch_loop_confirmed [OF run] obtain new where idx: "map bi_Index results = [0..<length reqs]"
    and one: "\<And>x. x \<in> set results \<Longrightarrow> (bi_Error x = None) \<longleftrightarrow> accepted x"
    and new: "confirmed s' = confirmed s @ new"
      "list_all2 (item_message addr (Marshal_Message fl) (\<lambda>m. RoutingKey (m_Type m) (m_Priority m)) draw) new (filter accepted results)"
    by auto
  have acc: "\<exists>time uuid. FormatTime (na_CreatedAt a) = Some time \<and> a = \<lparr>na_Id = uuid, na_Status = Pending, na_CreatedAt = na_CreatedAt a\<rparr>"
    if x: "x \<in> set results" "bi_Notification x = Some a" for x a
  proof -
    have "x \<in> set (filter accepted results)" using x by (simp add: accepted_def)
    from list_all2_partner [OF new(2) this]
    obtain conf where "item_message addr (Marshal_Message fl) (\<lambda>m. RoutingKey (m_Type m) (m_Priority m)) draw conf x" by blast
    then obtain m where m: "Marshal_Message fl m = Inr (snd conf)"
        "Some a = Some \<lparr>na_Id = m_ID m, na_Status = Pending, na_CreatedAt = m_CreatedAt m\<rparr>"
      unfolding item_message_def x(2) by blast
    obtain time where "FormatTime (m_CreatedAt m) = Some time"
      using m(1) Marshal_Some [of fl m] FormatTime_Some [of "m_CreatedAt m"] by blast
    with m(2) show ?thesis by auto
  qed
  show thesis
    using json_BatchItemResult_ok [OF one acc] list_all2_lengthD [OF new(2)]
    by (intro that [OF idx new(1), of "\<lambda>x. the (json_BatchItemResult x)"]) fastforce+
qed

text \<open>C20. The answer to a batch that was read: 202 with one item per request in the order of the requests, each
  with its position and exactly one of an error response and an acceptance; the acceptances are
  as many as the messages confirmed. The body can always be written.\<close>

theorem http_SendNotificationBatch:
  assumes "strict_SendNotificationBatch (api_encoders write text) q addr (file_Repository it repo)
        (Publisher_Publish amqp (Marshal_Message fl) p) draw c (Inr reqs) None s = (result, s')"
  shows "\<exists>buf items. snd result = Some (202, buf) \<and> parse buf = Some (JObj [(''results'', JArr items)])
    \<and> length items = length reqs \<and> (\<forall>i < length reqs. item_json i (items ! i))
    \<and> (\<exists>new. confirmed s' = confirmed s @ new
         \<and> length new = length (filter (\<lambda>j. \<exists>i n. j = JObj [(''index'', i), (''notification'', n)]) items))"
proof -
  obtain results where run: "batch_loop q addr (file_Repository it repo) (Publisher_Publish amqp (Marshal_Message fl) p)
      draw c 0 reqs s = (results, s')" and result: "result = VisitSendNotificationBatchResponse (api_encoders write text) results None"
    using assms by (auto simp: strict_SendNotificationBatch_def Handler_SendNotificationBatch_def split: prod.splits)
  obtain new j where idx: "map bi_Index results = [0..<length reqs]" and new: "confirmed s' = confirmed s @ new"
      "length new = length (filter accepted results)"
    and items: "\<And>x d. x \<in> set results \<Longrightarrow> json_BatchItemResult x = Some (j x) \<and> item_json (bi_Index x) (j x)
      \<and> wf_json (Suc (Suc d)) (j x) \<and> ((\<exists>i n. j x = JObj [(''index'', i), (''notification'', n)]) \<longleftrightarrow> accepted x)"
    using batch_items [OF run] by blast
  have written: "those_list (map json_BatchItemResult results) = Some (map j results)"
    using items by (simp add: those_list_Some)
  have wf: "wf_json maxNestingDepth (JObj [(''results'', JArr (map j results))])"
    by (subst depth_Suc) (use items in \<open>simp add: string_literal_name\<close>)
  obtain buf where enc: "Encode (Some (JObj [(''results'', JArr (map j results))])) = Inr buf"
    by (simp add: Encode_def del: print.simps)
  have "snd result = Some (202, buf)"
    using result enc written
    by (simp add: VisitSendNotificationBatchResponse_def visit_None api_encoders_def json_SendNotificationBatchResponse_def)
  note buf = this Encode_reads [OF wf enc]
  have len: "length results = length reqs" using arg_cong [OF idx, of length] by simp
  have "bi_Index (results ! i) = i" if "i < length reqs" for i
    using arg_cong [OF idx, of "\<lambda>xs. xs ! i"] that len by simp
  with items len have each: "item_json i (map j results ! i)" if "i < length reqs" for i
    using that by (metis nth_map nth_mem)
  have "(\<exists>i n. j x = JObj [(''index'', i), (''notification'', n)]) \<longleftrightarrow> accepted x" if "x \<in> set results" for x
    using items [OF that] by blast
  then have "length (filter (\<lambda>j. \<exists>i n. j = JObj [(''index'', i), (''notification'', n)]) (map j results)) = length (filter accepted results)"
    by (simp add: filter_map comp_def cong: filter_cong)
  with new buf len each show ?thesis
    by (intro exI [of _ buf] exI [of _ "map j results"]) auto
qed

theorem http_SendNotificationBatch_witness:
  "\<exists>result s' buf items. strict_SendNotificationBatch sample_api_encoders (\<lambda>s. s) Some
      (file_Repository sample_iteration sample_repository)
      (Publisher_Publish steady_amqp (Marshal_Message sample_floats) sample_publisher) (\<lambda>i. (''n'', 7)) Background
      (Inr [sample_api_request, zero_SendNotificationRequest]) None idle_broker = (result, s')
    \<and> snd result = Some (202, buf) \<and> parse buf = Some (JObj [(''results'', JArr items)]) \<and> length items = 2
    \<and> item_json 1 (items ! 1)"
proof -
  obtain result s' where run: "strict_SendNotificationBatch sample_api_encoders (\<lambda>s. s) Some
      (file_Repository sample_iteration sample_repository)
      (Publisher_Publish steady_amqp (Marshal_Message sample_floats) sample_publisher) (\<lambda>i. (''n'', 7)) Background
      (Inr [sample_api_request, zero_SendNotificationRequest]) None idle_broker = (result, s')"
    by fastforce
  from http_SendNotificationBatch [OF run [unfolded sample_api_encoders_def]] run show ?thesis
    by auto
qed


end
