(* ===== verification/Openapi.thy ===== *)
theory Openapi
  imports Api_Json
begin

text \<open>
  The rest of internal/transport/rest/api/server.gen.go: the enumerations, all response
  objects with their \<open>Visit\<close> methods, the strict handler with its middlewares, the wrapper, the
  registration of the routes, and the embedded description of the API. With no strict
  middleware, which is how server.go builds it, the strict handler is the one of
  \<open>Strict_Server\<close>.
\<close>

subsection \<open>Enumerations\<close>

abbreviation Bulk :: string where "Bulk \<equiv> ''bulk''"
abbreviation Transactional :: string where "Transactional \<equiv> ''transactional''"
abbreviation Email :: string where "Email \<equiv> ''email''"
abbreviation Push :: string where "Push \<equiv> ''push''"
abbreviation Sms :: string where "Sms \<equiv> ''sms''"

definition NotificationAcceptedStatus_Valid :: "string \<Rightarrow> bool" where
  "NotificationAcceptedStatus_Valid e = (if e = Pending then True else False)"

definition NotificationPriority_Valid :: "string \<Rightarrow> bool" where
  "NotificationPriority_Valid e = (if e = Bulk then True else if e = Transactional then True else False)"

definition NotificationType_Valid :: "string \<Rightarrow> bool" where
  "NotificationType_Valid e = (if e = Email then True else if e = Push then True else if e = Sms then True else False)"

subsection \<open>Request and response objects\<close>

text \<open>The values that go through a strict handler as \<open>any\<close>; a value of some other type is known by the
  name of its type.\<close>

datatype any_request =
    SendNotificationRequestObject SendNotificationRequest
  | SendNotificationBatchRequestObject "SendNotificationRequest list"
  | ListTemplatesRequestObject "string option"
  | GetTemplateRequestObject string string
  | OtherRequest string

datatype any_response =
    SendNotification202JSONResponse NotificationAccepted
  | SendNotification400JSONResponse ErrorResponse
  | SendNotificationdefaultJSONResponse ErrorResponse int
  | SendNotificationBatch202JSONResponse "BatchItemResult list"
  | SendNotificationBatch400JSONResponse ErrorResponse
  | SendNotificationBatchdefaultJSONResponse ErrorResponse int
  | ListTemplates200JSONResponse "TemplateSummary list"
  | ListTemplatesdefaultJSONResponse ErrorResponse int
  | GetTemplate200JSONResponse api_Template
  | GetTemplate404JSONResponse ErrorResponse
  | GetTemplatedefaultJSONResponse ErrorResponse int
  | OtherResponse string

fun type_name :: "any_response \<Rightarrow> string" where
  "type_name (SendNotification202JSONResponse _) = ''api.SendNotification202JSONResponse''"
| "type_name (SendNotification400JSONResponse _) = ''api.SendNotification400JSONResponse''"
| "type_name (SendNotificationdefaultJSONResponse _ _) = ''api.SendNotificationdefaultJSONResponse''"
| "type_name (SendNotificationBatch202JSONResponse _) = ''api.SendNotificationBatch202JSONResponse''"
| "type_name (SendNotificationBatch400JSONResponse _) = ''api.SendNotificationBatch400JSONResponse''"
| "type_name (SendNotificationBatchdefaultJSONResponse _ _) = ''api.SendNotificationBatchdefaultJSONResponse''"
| "type_name (ListTemplates200JSONResponse _) = ''api.ListTemplates200JSONResponse''"
| "type_name (ListTemplatesdefaultJSONResponse _ _) = ''api.ListTemplatesdefaultJSONResponse''"
| "type_name (GetTemplate200JSONResponse _) = ''api.GetTemplate200JSONResponse''"
| "type_name (GetTemplate404JSONResponse _) = ''api.GetTemplate404JSONResponse''"
| "type_name (GetTemplatedefaultJSONResponse _ _) = ''api.GetTemplatedefaultJSONResponse''"
| "type_name (OtherResponse name) = name"

text \<open>The \<open>Visit\<close> method of a response for each operation, if its type has one.\<close>

type_synonym visitor = "writer \<Rightarrow> go_error option \<times> writer"

fun SendNotification_visitor :: "encoders \<Rightarrow> any_response \<Rightarrow> visitor option" where
  "SendNotification_visitor enc (SendNotification202JSONResponse r) = Some (visit enc 202 (enc_Accepted enc r))"
| "SendNotification_visitor enc (SendNotification400JSONResponse r) = Some (visit enc 400 (enc_Error enc r))"
| "SendNotification_visitor enc (SendNotificationdefaultJSONResponse body status) = Some (visit enc status (enc_Error enc body))"
| "SendNotification_visitor enc _ = None"

fun SendNotificationBatch_visitor :: "encoders \<Rightarrow> any_response \<Rightarrow> visitor option" where
  "SendNotificationBatch_visitor enc (SendNotificationBatch202JSONResponse r) = Some (visit enc 202 (enc_Batch enc r))"
| "SendNotificationBatch_visitor enc (SendNotificationBatch400JSONResponse r) = Some (visit enc 400 (enc_Error enc r))"
| "SendNotificationBatch_visitor enc (SendNotificationBatchdefaultJSONResponse body status) =
    Some (visit enc status (enc_Error enc body))"
| "SendNotificationBatch_visitor enc _ = None"

fun ListTemplates_visitor :: "encoders \<Rightarrow> any_response \<Rightarrow> visitor option" where
  "ListTemplates_visitor enc (ListTemplates200JSONResponse r) = Some (visit enc 200 (enc_List enc r))"
| "ListTemplates_visitor enc (ListTemplatesdefaultJSONResponse body status) = Some (visit enc status (enc_Error enc body))"
| "ListTemplates_visitor enc _ = None"

fun GetTemplate_visitor :: "encoders \<Rightarrow> any_response \<Rightarrow> visitor option" where
  "GetTemplate_visitor enc (GetTemplate200JSONResponse r) = Some (visit enc 200 (enc_Template enc r))"
| "GetTemplate_visitor enc (GetTemplate404JSONResponse r) = Some (visit enc 404 (enc_Error enc r))"
| "GetTemplate_visitor enc (GetTemplatedefaultJSONResponse body status) = Some (visit enc status (enc_Error enc body))"
| "GetTemplate_visitor enc _ = None"

subsection \<open>The strict handler\<close>

text \<open>A handler function gives a response and an error, nil being \<open>None\<close>, or it panics, which is
  \<open>None\<close> in place of both. Its state is the response writer and the outside world.\<close>

type_synonym reply = "any_response option \<times> go_error option"
type_synonym 'w StrictHandlerFunc = "any_request \<Rightarrow> writer \<times> 'w \<Rightarrow> reply option \<times> (writer \<times> 'w)"
type_synonym 'w StrictMiddlewareFunc = "'w StrictHandlerFunc \<Rightarrow> string \<Rightarrow> 'w StrictHandlerFunc"

record 'w StrictServerInterface =
  ssi_SendNotification :: "SendNotificationRequest \<Rightarrow> 'w \<Rightarrow> reply \<times> 'w"
  ssi_SendNotificationBatch :: "SendNotificationRequest list \<Rightarrow> 'w \<Rightarrow> reply \<times> 'w"
  ssi_ListTemplates :: "string option \<Rightarrow> 'w \<Rightarrow> reply \<times> 'w"
  ssi_GetTemplate :: "string \<Rightarrow> string \<Rightarrow> 'w \<Rightarrow> reply \<times> 'w"

record 'w strictHandler =
  sh_ssi :: "'w StrictServerInterface"
  sh_middlewares :: "'w StrictMiddlewareFunc list"

definition NewStrictHandler :: "'w StrictServerInterface \<Rightarrow> 'w StrictMiddlewareFunc list \<Rightarrow> 'w strictHandler" where
  "NewStrictHandler ssi middlewares = \<lparr>sh_ssi = ssi, sh_middlewares = middlewares\<rparr>"

text \<open>The innermost function of each operation asserts the type of its request.\<close>

definition lift_ssi :: "(reply \<times> 'w) \<Rightarrow> writer \<Rightarrow> reply option \<times> (writer \<times> 'w)" where
  "lift_ssi r rw = (Some (fst r), (rw, snd r))"

definition SendNotification_func :: "'w strictHandler \<Rightarrow> 'w StrictHandlerFunc" where
  "SendNotification_func sh request s =
    (case request of
       SendNotificationRequestObject body \<Rightarrow> lift_ssi (ssi_SendNotification (sh_ssi sh) body (snd s)) (fst s)
     | _ \<Rightarrow> (None, s))"

definition SendNotificationBatch_func :: "'w strictHandler \<Rightarrow> 'w StrictHandlerFunc" where
  "SendNotificationBatch_func sh request s =
    (case request of
       SendNotificationBatchRequestObject body \<Rightarrow> lift_ssi (ssi_SendNotificationBatch (sh_ssi sh) body (snd s)) (fst s)
     | _ \<Rightarrow> (None, s))"

definition ListTemplates_func :: "'w strictHandler \<Rightarrow> 'w StrictHandlerFunc" where
  "ListTemplates_func sh request s =
    (case request of
       ListTemplatesRequestObject params \<Rightarrow> lift_ssi (ssi_ListTemplates (sh_ssi sh) params (snd s)) (fst s)
     | _ \<Rightarrow> (None, s))"

definition GetTemplate_func :: "'w strictHandler \<Rightarrow> 'w StrictHandlerFunc" where
  "GetTemplate_func sh request s =
    (case request of
       GetTemplateRequestObject pType tid \<Rightarrow> lift_ssi (ssi_GetTemplate (sh_ssi sh) pType tid (snd s)) (fst s)
     | _ \<Rightarrow> (None, s))"

text \<open>\<open>for _, middleware := range sh.middlewares { handler = middleware(handler, operation) }\<close>\<close>

definition with_middlewares :: "'w strictHandler \<Rightarrow> string \<Rightarrow> 'w StrictHandlerFunc \<Rightarrow> 'w StrictHandlerFunc" where
  "with_middlewares sh operation handler = fold (\<lambda>middleware h. middleware h operation) (sh_middlewares sh) handler"

text \<open>What follows the call of the handler in every operation. The error that is returned, or
  \<open>None\<close> for a panic.\<close>

definition respond ::
  "(any_response \<Rightarrow> visitor option) \<Rightarrow> reply option \<times> (writer \<times> 'w) \<Rightarrow> go_error option option \<times> (writer \<times> 'w)" where
  "respond visitor_of result =
    (case result of
       (None, s) \<Rightarrow> (None, s)
     | (Some (response, err), s) \<Rightarrow>
        (case err of
           Some e \<Rightarrow> (Some (Some e), s)
         | None \<Rightarrow>
            (case response of
               None \<Rightarrow> (Some None, s)
             | Some r \<Rightarrow>
                (case visitor_of r of
                   Some v \<Rightarrow> (let (e, rw) = v (fst s) in (Some e, (rw, snd s)))
                 | None \<Rightarrow> (Some (Some (ErrorfNew [Lit ''unexpected response type: '', Lit (type_name r)])), s)))))"

definition strictHandler_SendNotification ::
  "encoders \<Rightarrow> 'w strictHandler \<Rightarrow> SendNotificationRequest result \<Rightarrow> writer \<times> 'w \<Rightarrow> go_error option option \<times> (writer \<times> 'w)" where
  "strictHandler_SendNotification enc sh bound s =
    (case bound of
       Inl err \<Rightarrow> (Some (Some err), s)
     | Inr body \<Rightarrow>
        respond (SendNotification_visitor enc)
          (with_middlewares sh ''SendNotification'' (SendNotification_func sh) (SendNotificationRequestObject body) s))"

definition strictHandler_SendNotificationBatch ::
  "encoders \<Rightarrow> 'w strictHandler \<Rightarrow> SendNotificationRequest list result \<Rightarrow> writer \<times> 'w
    \<Rightarrow> go_error option option \<times> (writer \<times> 'w)" where
  "strictHandler_SendNotificationBatch enc sh bound s =
    (case bound of
       Inl err \<Rightarrow> (Some (Some err), s)
     | Inr body \<Rightarrow>
        respond (SendNotificationBatch_visitor enc)
          (with_middlewares sh ''SendNotificationBatch'' (SendNotificationBatch_func sh) (SendNotificationBatchRequestObject body) s))"

definition strictHandler_ListTemplates ::
  "encoders \<Rightarrow> 'w strictHandler \<Rightarrow> string option \<Rightarrow> writer \<times> 'w \<Rightarrow> go_error option option \<times> (writer \<times> 'w)" where
  "strictHandler_ListTemplates enc sh params s =
    respond (ListTemplates_visitor enc)
      (with_middlewares sh ''ListTemplates'' (ListTemplates_func sh) (ListTemplatesRequestObject params) s)"

definition strictHandler_GetTemplate ::
  "encoders \<Rightarrow> 'w strictHandler \<Rightarrow> string \<Rightarrow> string \<Rightarrow> writer \<times> 'w \<Rightarrow> go_error option option \<times> (writer \<times> 'w)" where
  "strictHandler_GetTemplate enc sh pType tid s =
    respond (GetTemplate_visitor enc)
      (with_middlewares sh ''GetTemplate'' (GetTemplate_func sh) (GetTemplateRequestObject pType tid) s)"

text \<open>The handlers of handler.go as the strict server's interface.\<close>

definition as_reply :: "('a \<Rightarrow> any_response) \<Rightarrow> 'a result \<Rightarrow> reply" where
  "as_reply object res = (case res of Inl err \<Rightarrow> (None, Some err) | Inr r \<Rightarrow> (Some (object r), None))"

definition Handler_interface ::
  "(string \<Rightarrow> string) \<Rightarrow> (string \<Rightarrow> string option) \<Rightarrow> 'w Handler \<Rightarrow> string \<Rightarrow> int \<Rightarrow> (nat \<Rightarrow> string \<times> int)
    \<Rightarrow> ctx \<Rightarrow> 'w StrictServerInterface" where
  "Handler_interface q addr h uuid now draw c =
    (let send_repo = ts_repo (ns_templateSvc (hd_notifSvc h)); publish = ns_publisher (hd_notifSvc h);
         repo = ts_repo (hd_tmplSvc h)
     in \<lparr>ssi_SendNotification = (\<lambda>body w.
       (let (res, w') = Handler_SendNotification addr send_repo publish uuid now c body w
        in (as_reply SendNotification202JSONResponse res, w'))),
     ssi_SendNotificationBatch = (\<lambda>body w.
       (let (results, w') = Handler_SendNotificationBatch q addr send_repo publish draw c body w
        in (as_reply SendNotificationBatch202JSONResponse (Inr results), w'))),
     ssi_ListTemplates = (\<lambda>params w. (as_reply ListTemplates200JSONResponse (Handler_ListTemplates repo params), w)),
     ssi_GetTemplate = (\<lambda>pType tid w. (as_reply GetTemplate200JSONResponse (Handler_GetTemplate repo pType tid), w))\<rparr>)"

text \<open>\<open>api.NewStrictHandler(handler.New(notifSvc, tmplSvc), nil)\<close> of server.go, over the services that cmd/api/main.go
  makes of a repository and a publisher.\<close>

definition strict_server ::
  "(string \<Rightarrow> string) \<Rightarrow> (string \<Rightarrow> string option) \<Rightarrow> Repository \<Rightarrow> 'w publish \<Rightarrow> string \<Rightarrow> int \<Rightarrow> (nat \<Rightarrow> string \<times> int)
    \<Rightarrow> ctx \<Rightarrow> 'w strictHandler" where
  "strict_server q addr repo publish uuid now draw c =
    (let tmplSvc = NewTemplateService repo
     in NewStrictHandler (Handler_interface q addr (Handler_New (NewService publish tmplSvc) tmplSvc) uuid now draw c) [])"

subsection \<open>Wrapper and routes\<close>

definition wrapper_SendNotification ::
  "encoders \<Rightarrow> 'w strictHandler \<Rightarrow> SendNotificationRequest result \<Rightarrow> writer \<times> 'w \<Rightarrow> go_error option option \<times> (writer \<times> 'w)" where
  "wrapper_SendNotification enc handler bound s = (let (err, s') = strictHandler_SendNotification enc handler bound s in (err, s'))"

definition wrapper_SendNotificationBatch ::
  "encoders \<Rightarrow> 'w strictHandler \<Rightarrow> SendNotificationRequest list result \<Rightarrow> writer \<times> 'w
    \<Rightarrow> go_error option option \<times> (writer \<times> 'w)" where
  "wrapper_SendNotificationBatch enc handler bound s =
    (let (err, s') = strictHandler_SendNotificationBatch enc handler bound s in (err, s'))"

text \<open>The method values that are registered, and a router as the routes added to it, in order. \<open>'m\<close>
  stands for Echo's middleware functions.\<close>

datatype endpoint = SendNotification_wrapper | SendNotificationBatch_wrapper | ListTemplates_wrapper | GetTemplate_wrapper
  | HealthCheck_handler

record 'm route =
  rt_Method :: string
  rt_Path :: string
  rt_Handler :: endpoint
  rt_Middlewares :: "'m list"

record 'm RegisterHandlersOptions =
  ro_BaseURL :: string
  ro_OperationMiddlewares :: "(string \<times> 'm list) list"

definition operation_middlewares :: "'m RegisterHandlersOptions \<Rightarrow> string \<Rightarrow> 'm list" where
  "operation_middlewares options operation =
    (case map_of (ro_OperationMiddlewares options) operation of None \<Rightarrow> [] | Some ms \<Rightarrow> ms)"

definition RegisterHandlersWithOptions :: "'m route list \<Rightarrow> 'm RegisterHandlersOptions \<Rightarrow> 'm route list" where
  "RegisterHandlersWithOptions router options =
    router @
    [\<lparr>rt_Method = ''POST'', rt_Path = ro_BaseURL options @ ''/notifications'', rt_Handler = SendNotification_wrapper,
      rt_Middlewares = operation_middlewares options ''sendNotification''\<rparr>,
     \<lparr>rt_Method = ''POST'', rt_Path = ro_BaseURL options @ ''/notifications/batch'', rt_Handler = SendNotificationBatch_wrapper,
      rt_Middlewares = operation_middlewares options ''sendNotificationBatch''\<rparr>,
     \<lparr>rt_Method = ''GET'', rt_Path = ro_BaseURL options @ ''/templates'', rt_Handler = ListTemplates_wrapper,
      rt_Middlewares = operation_middlewares options ''listTemplates''\<rparr>,
     \<lparr>rt_Method = ''GET'', rt_Path = ro_BaseURL options @ ''/templates/:type/:id'', rt_Handler = GetTemplate_wrapper,
      rt_Middlewares = operation_middlewares options ''getTemplate''\<rparr>]"

definition RegisterHandlers :: "'m route list \<Rightarrow> 'm route list" where
  "RegisterHandlers router = RegisterHandlersWithOptions router \<lparr>ro_BaseURL = [], ro_OperationMiddlewares = []\<rparr>"

definition RegisterHandlersWithBaseURL :: "'m route list \<Rightarrow> string \<Rightarrow> 'm route list" where
  "RegisterHandlersWithBaseURL router baseURL =
    RegisterHandlersWithOptions router \<lparr>ro_BaseURL = baseURL, ro_OperationMiddlewares = []\<rparr>"

subsection \<open>The embedded description\<close>

text \<open>base64, the reader of deflate with its \<open>Close\<close>, \<open>path.Clean\<close> and the loader of kin-openapi are
  arguments; \<open>chunks\<close> is \<open>swaggerSpec\<close>. The loader is given the function it reads external
  references with.\<close>

definition decodeSpec ::
  "(string \<Rightarrow> string result) \<Rightarrow> (string \<Rightarrow> string result) \<Rightarrow> (string \<Rightarrow> go_error option) \<Rightarrow> string list \<Rightarrow> string result" where
  "decodeSpec base64 inflate close chunks =
    (let encoded = concat chunks in
     case base64 encoded of
       Inl err \<Rightarrow> Inl (Errorf [Lit ''error base64 decoding spec: '', Cause] err)
     | Inr compressed \<Rightarrow>
        (case inflate compressed of
           Inl err \<Rightarrow> Inl (Errorf [Lit ''read flate: '', Cause] err)
         | Inr buf \<Rightarrow>
            (case close compressed of
               Some err \<Rightarrow> Inl (Errorf [Lit ''close flate reader: '', Cause] err)
             | None \<Rightarrow> Inr buf)))"

definition decodeSpecCached :: "string result \<Rightarrow> unit \<Rightarrow> string result" where
  "decodeSpecCached decoded = (\<lambda>_. decoded)"

definition PathToRawSpec :: "(unit \<Rightarrow> string result) \<Rightarrow> string \<Rightarrow> (string \<rightharpoonup> (unit \<Rightarrow> string result))" where
  "PathToRawSpec rawSpec pathToFile = (if 0 < length pathToFile then [pathToFile \<mapsto> rawSpec] else Map.empty)"

definition ReadFromURI :: "(string \<Rightarrow> string) \<Rightarrow> (string \<rightharpoonup> (unit \<Rightarrow> string result)) \<Rightarrow> string \<Rightarrow> string result" where
  "ReadFromURI clean resolvePath url =
    (let pathToFile = clean url in
     case resolvePath pathToFile of
       None \<Rightarrow> Inl (ErrorfNew [Lit ''path not found: '', Lit pathToFile])
     | Some getSpec \<Rightarrow> getSpec ())"

definition GetSpec ::
  "((string \<Rightarrow> string result) \<Rightarrow> string \<Rightarrow> 's result) \<Rightarrow> (string \<Rightarrow> string) \<Rightarrow> (unit \<Rightarrow> string result) \<Rightarrow> 's result" where
  "GetSpec load clean rawSpec =
    (let resolvePath = PathToRawSpec rawSpec [] in
     case rawSpec () of
       Inl err \<Rightarrow> Inl err
     | Inr specData \<Rightarrow> load (ReadFromURI clean resolvePath) specData)"

definition GetSpecJSON :: "(unit \<Rightarrow> string result) \<Rightarrow> string result" where
  "GetSpecJSON rawSpec = rawSpec ()"

definition GetSwagger ::
  "((string \<Rightarrow> string result) \<Rightarrow> string \<Rightarrow> 's result) \<Rightarrow> (string \<Rightarrow> string) \<Rightarrow> (unit \<Rightarrow> string result) \<Rightarrow> 's result" where
  "GetSwagger load clean rawSpec = GetSpec load clean rawSpec"

lemma GetSpec_embedded:
  "GetSpec load clean rawSpec =
    (case rawSpec () of Inl err \<Rightarrow> Inl err
     | Inr specData \<Rightarrow> load (\<lambda>url. Inl (ErrorfNew [Lit ''path not found: '', Lit (clean url)])) specData)"
proof -
  have "ReadFromURI clean Map.empty = (\<lambda>url. Inl (ErrorfNew [Lit ''path not found: '', Lit (clean url)]))"
    by (simp add: fun_eq_iff ReadFromURI_def)
  then show ?thesis by (cases "rawSpec ()") (simp_all add: GetSpec_def PathToRawSpec_def)
qed

subsection \<open>Properties\<close>

lemma no_middlewares [simp]: "with_middlewares (NewStrictHandler ssi []) operation handler = handler"
  by (simp add: with_middlewares_def NewStrictHandler_def)

lemma with_middlewares_snoc:
  "with_middlewares (NewStrictHandler ssi (ms @ [m])) operation handler
    = m (with_middlewares (NewStrictHandler ssi ms) operation handler) operation"
  by (simp add: with_middlewares_def NewStrictHandler_def)

lemma NewStrictHandler_ssi [simp]: "sh_ssi (NewStrictHandler ssi ms) = ssi"
  by (simp add: NewStrictHandler_def)

lemmas wiring = NewTemplateService_def NewService_def Handler_New_def

lemmas strict_server_simps = strict_server_def wiring Handler_interface_def lift_ssi_def respond_def as_reply_def Let_def

lemma direct_SendNotification:
  "strictHandler_SendNotification enc (strict_server q addr repo publish uuid now draw c) bound (rw, w)
    = (let ((err, rw'), w') = strict_SendNotification enc addr repo publish uuid now c bound rw w in (Some err, (rw', w')))"
  by (auto simp: strict_server_simps strictHandler_SendNotification_def SendNotification_func_def strict_SendNotification_def
      VisitSendNotificationResponse_def split: sum.splits prod.splits)

lemma direct_SendNotificationBatch:
  "strictHandler_SendNotificationBatch enc (strict_server q addr repo publish uuid now draw c) bounds (rw, w)
    = (let ((err, rw'), w') = strict_SendNotificationBatch enc q addr repo publish draw c bounds rw w in (Some err, (rw', w')))"
  by (auto simp: strict_server_simps strictHandler_SendNotificationBatch_def SendNotificationBatch_func_def
      strict_SendNotificationBatch_def VisitSendNotificationBatchResponse_def split: sum.splits prod.splits)

lemma direct_ListTemplates:
  "strictHandler_ListTemplates enc (strict_server q addr repo publish uuid now draw c) params (rw, w)
    = (let (err, rw') = strict_ListTemplates enc repo params rw in (Some err, (rw', w)))"
  by (auto simp: strict_server_simps strictHandler_ListTemplates_def ListTemplates_func_def strict_ListTemplates_def
      VisitListTemplatesResponse_def split: sum.splits prod.splits)

lemma direct_GetTemplate:
  "strictHandler_GetTemplate enc (strict_server q addr repo publish uuid now draw c) pType tid (rw, w)
    = (let (err, rw') = strict_GetTemplate enc repo pType tid rw in (Some err, (rw', w)))"
  by (auto simp: strict_server_simps strictHandler_GetTemplate_def GetTemplate_func_def strict_GetTemplate_def
      VisitGetTemplateResponse_def split: sum.splits prod.splits)


end
