(* ===== verification/Rest_Server.thy ===== *)
theory Rest_Server
  imports Openapi
begin

text \<open>
  internal/transport/rest/server.go, which assembles the Echo server, and
  internal/transport/rest/middleware/logging.go. An Echo server is the settings
  and registrations that the code makes on it; a request passes the server's
  middleware in the order of the \<open>Use\<close> calls, then that of the route's group, then the
  route's own, and a route of a group has the group's prefix before its path, as Echo
  documents it. What Echo's own middleware does is outside.
\<close>

subsection \<open>middleware/logging.go\<close>

text \<open>A logger is the fields it adds to every line. The context of a request holds the logger and the request
  ID that the response header has.\<close>

type_synonym logger = "(string \<times> string) list"

record request_context =
  rq_RequestID :: string
  rq_Logger :: logger

definition ContextLogger :: "logger \<Rightarrow> (request_context \<Rightarrow> 'r) \<Rightarrow> request_context \<Rightarrow> 'r" where
  "ContextLogger logger next c = next (c\<lparr>rq_Logger := logger @ [(''request_id'', rq_RequestID c)]\<rparr>)"

record RequestLoggerConfig =
  lc_LogMethod :: bool
  lc_LogURIPath :: bool
  lc_LogStatus :: bool
  lc_LogLatency :: bool
  lc_LogError :: bool
  lc_HandleError :: bool

definition RequestLogger_config :: RequestLoggerConfig where
  "RequestLogger_config =
    \<lparr>lc_LogMethod = True, lc_LogURIPath = True, lc_LogStatus = True, lc_LogLatency = True, lc_LogError = True,
     lc_HandleError = True\<rparr>"

record RequestLoggerValues =
  lv_Method :: string
  lv_URIPath :: string
  lv_Status :: int
  lv_Latency :: int
  lv_Error :: "go_error option"

datatype log_value = LogText string | LogInt int | LogDur int | LogErr "go_error option"

record log_line =
  ll_Level :: log_level
  ll_Fields :: "(string \<times> log_value) list"
  ll_Message :: string

text \<open>\<open>LogValuesFunc\<close>: the line it writes.\<close>

definition LogValuesFunc :: "request_context \<Rightarrow> RequestLoggerValues \<Rightarrow> log_line" where
  "LogValuesFunc c v =
    (let logger = map (\<lambda>(k, x). (k, LogText x)) (rq_Logger c);
         (level, event) =
           (if 500 \<le> lv_Status v then (ErrorLevel, logger @ [(''error'', LogErr (lv_Error v))])
            else if 400 \<le> lv_Status v then (WarnLevel, logger)
            else (InfoLevel, logger))
     in \<lparr>ll_Level = level,
         ll_Fields = event @ [(''method'', LogText (lv_Method v)), (''path'', LogText (lv_URIPath v)),
           (''status'', LogInt (lv_Status v)), (''duration_ms'', LogDur (lv_Latency v))],
         ll_Message = ''request handled''\<rparr>)"

subsection \<open>server.go\<close>

text \<open>Nanoseconds.\<close>

definition readHeaderTimeout :: int where "readHeaderTimeout = 5000000000"
definition readTimeout :: int where "readTimeout = 15000000000"
definition writeTimeout :: int where "writeTimeout = 30000000000"
definition idleTimeout :: int where "idleTimeout = 60000000000"

datatype 's middleware =
    RequestID
  | ContextLogger_mw logger
  | RequestLogger_mw RequestLoggerConfig
  | Recover
  | OapiRequestValidator 's bool

datatype error_handler = DefaultHTTPErrorHandler | Own_httpErrorHandler

record 's group =
  gr_Prefix :: string
  gr_Use :: "'s middleware list"
  gr_Routes :: "'s middleware route list"

record 's echo =
  ec_HideBanner :: bool
  ec_HidePort :: bool
  ec_HTTPErrorHandler :: error_handler
  ec_ReadHeaderTimeout :: int
  ec_ReadTimeout :: int
  ec_WriteTimeout :: int
  ec_IdleTimeout :: int
  ec_Use :: "'s middleware list"
  ec_Routes :: "'s middleware route list"
  ec_Groups :: "'s group list"

definition echo_New :: "'s echo" where
  "echo_New =
    \<lparr>ec_HideBanner = False, ec_HidePort = False, ec_HTTPErrorHandler = DefaultHTTPErrorHandler,
     ec_ReadHeaderTimeout = 0, ec_ReadTimeout = 0, ec_WriteTimeout = 0, ec_IdleTimeout = 0,
     ec_Use = [], ec_Routes = [], ec_Groups = []\<rparr>"

definition Use :: "'s middleware \<Rightarrow> 's echo \<Rightarrow> 's echo" where
  "Use m server = server\<lparr>ec_Use := ec_Use server @ [m]\<rparr>"

definition NewServer ::
  "((string \<Rightarrow> string result) \<Rightarrow> string \<Rightarrow> 's result) \<Rightarrow> (string \<Rightarrow> string) \<Rightarrow> (unit \<Rightarrow> string result) \<Rightarrow> logger
    \<Rightarrow> 's echo result" where
  "NewServer load clean rawSpec logger =
    (case GetSpec load clean rawSpec of
       Inl err \<Rightarrow> Inl (Errorf [Lit ''failed to load embedded OpenAPI spec: '', Cause] err)
     | Inr spec \<Rightarrow>
        (let server = echo_New;
             server = server\<lparr>ec_HideBanner := True\<rparr>;
             server = server\<lparr>ec_HidePort := True\<rparr>;
             server = server\<lparr>ec_HTTPErrorHandler := Own_httpErrorHandler\<rparr>;
             server = server\<lparr>ec_ReadHeaderTimeout := readHeaderTimeout\<rparr>;
             server = server\<lparr>ec_ReadTimeout := readTimeout\<rparr>;
             server = server\<lparr>ec_WriteTimeout := writeTimeout\<rparr>;
             server = server\<lparr>ec_IdleTimeout := idleTimeout\<rparr>;
             server = Use RequestID server;
             server = Use (ContextLogger_mw logger) server;
             server = Use (RequestLogger_mw RequestLogger_config) server;
             server = Use Recover server;
             server = server\<lparr>ec_Routes := ec_Routes server @
               [\<lparr>rt_Method = ''GET'', rt_Path = ''/health'', rt_Handler = HealthCheck_handler, rt_Middlewares = []\<rparr>]\<rparr>;
             apiGroup = \<lparr>gr_Prefix = ''/api/v1'', gr_Use = [OapiRequestValidator spec True], gr_Routes = []\<rparr>;
             apiGroup = apiGroup\<lparr>gr_Routes := RegisterHandlers (gr_Routes apiGroup)\<rparr>
         in Inr (server\<lparr>ec_Groups := ec_Groups server @ [apiGroup]\<rparr>)))"

text \<open>All routes of a server: method, full path, handler, and the middleware a request passes before it.\<close>

definition server_routes :: "'s echo \<Rightarrow> (string \<times> string \<times> endpoint \<times> 's middleware list) list" where
  "server_routes server =
    map (\<lambda>r. (rt_Method r, rt_Path r, rt_Handler r, ec_Use server @ rt_Middlewares r)) (ec_Routes server)
    @ concat (map (\<lambda>g. map (\<lambda>r. (rt_Method r, gr_Prefix g @ rt_Path r, rt_Handler r,
         ec_Use server @ gr_Use g @ rt_Middlewares r)) (gr_Routes g)) (ec_Groups server))"

lemma NewServer_Inr:
  assumes "NewServer load clean rawSpec logger = Inr server"
  shows "\<exists>s. GetSpec load clean rawSpec = Inr s \<and> ec_HTTPErrorHandler server = Own_httpErrorHandler \<and> ec_WriteTimeout server = writeTimeout
    \<and> server_routes server =
      [(''GET'', ''/health'', HealthCheck_handler,
          [RequestID, ContextLogger_mw logger, RequestLogger_mw RequestLogger_config, Recover]),
       (''POST'', ''/api/v1/notifications'', SendNotification_wrapper,
          [RequestID, ContextLogger_mw logger, RequestLogger_mw RequestLogger_config, Recover, OapiRequestValidator s True]),
       (''POST'', ''/api/v1/notifications/batch'', SendNotificationBatch_wrapper,
          [RequestID, ContextLogger_mw logger, RequestLogger_mw RequestLogger_config, Recover, OapiRequestValidator s True]),
       (''GET'', ''/api/v1/templates'', ListTemplates_wrapper,
          [RequestID, ContextLogger_mw logger, RequestLogger_mw RequestLogger_config, Recover, OapiRequestValidator s True]),
       (''GET'', ''/api/v1/templates/:type/:id'', GetTemplate_wrapper,
          [RequestID, ContextLogger_mw logger, RequestLogger_mw RequestLogger_config, Recover, OapiRequestValidator s True])]"
  using assms
  by (cases "GetSpec load clean rawSpec")
     (auto simp: NewServer_def Let_def Use_def echo_New_def server_routes_def RegisterHandlers_def
       RegisterHandlersWithOptions_def operation_middlewares_def)

lemma HasPrefix_templates:
  "\<not> HasPrefix ''/health'' ''/api/v1/templates''" "\<not> HasPrefix ''/api/v1/notifications'' ''/api/v1/templates''"
  "\<not> HasPrefix ''/api/v1/notifications/batch'' ''/api/v1/templates''"
  "HasPrefix ''/api/v1/templates'' ''/api/v1/templates''" "HasPrefix ''/api/v1/templates/:type/:id'' ''/api/v1/templates''"
  by code_simp+

subsection \<open>Properties\<close>

text \<open>The server that is assembled: no two routes share a method and a path; every route of the API, and no
  other, is behind the validation of requests; every route, the health check included, is logged with its
  request ID and recovered from panics; and the paths for which the error handler turns a missing template
  into a 404 are exactly those of the two template routes. One publish fits into the time the server has to
  write a response.\<close>

theorem NewServer_routes:
  assumes "NewServer load clean rawSpec logger = Inr server"
  shows "ec_HTTPErrorHandler server = Own_httpErrorHandler
    \<and> distinct (map (\<lambda>(m, p, h, ms). (m, p)) (server_routes server))
    \<and> (\<forall>(m, p, h, ms) \<in> set (server_routes server).
         take 4 ms = [RequestID, ContextLogger_mw logger, RequestLogger_mw RequestLogger_config, Recover]
         \<and> ((\<exists>s. OapiRequestValidator s True \<in> set ms \<and> GetSpec load clean rawSpec = Inr s) \<longleftrightarrow> h \<noteq> HealthCheck_handler)
         \<and> (HasPrefix p ''/api/v1/templates'' \<longleftrightarrow> h = ListTemplates_wrapper \<or> h = GetTemplate_wrapper))
    \<and> DefaultPublishTimeout < ec_WriteTimeout server"
proof -
  obtain s where "GetSpec load clean rawSpec = Inr s" using NewServer_Inr [OF assms] by blast
  with NewServer_Inr [OF assms] show ?thesis
    by (auto simp: HasPrefix_templates DefaultPublishTimeout_def writeTimeout_def)
qed

theorem NewServer_routes_witness:
  "\<exists>server :: unit echo. NewServer (\<lambda>_ _. Inr ()) (\<lambda>s. s) (\<lambda>_. Inr []) [] = Inr server \<and> DefaultPublishTimeout < ec_WriteTimeout server"
proof -
  obtain server :: "unit echo" where run: "NewServer (\<lambda>_ _. Inr ()) (\<lambda>s. s) (\<lambda>_. Inr []) [] = Inr server"
    by (simp add: NewServer_def Let_def GetSpec_def)
  from NewServer_routes [OF run] run show ?thesis by blast
qed

text \<open>The line that is logged for a request: its level follows the status, it carries the request ID and the
  error only of a server error, and besides these only method, path, status and duration; nothing else of
  the request can reach the log.\<close>

theorem request_log_line:
  "ContextLogger base (\<lambda>c. LogValuesFunc c v) c =
    \<lparr>ll_Level = RequestLogger_level (lv_Status v),
     ll_Fields = map (\<lambda>(k, x). (k, LogText x)) base @ [(''request_id'', LogText (rq_RequestID c))]
       @ (if RequestLogger_level (lv_Status v) = ErrorLevel then [(''error'', LogErr (lv_Error v))] else [])
       @ [(''method'', LogText (lv_Method v)), (''path'', LogText (lv_URIPath v)),
          (''status'', LogInt (lv_Status v)), (''duration_ms'', LogDur (lv_Latency v))],
     ll_Message = ''request handled''\<rparr>"
  by (simp add: ContextLogger_def LogValuesFunc_def RequestLogger_level_def Let_def)

end
