(* ===== verification/Pipeline.thy ===== *)
theory Pipeline
  imports Startup Step_Relation
begin

text \<open>
  The goroutines of a worker process: the one that \<open>Consume\<close> of
  internal/infrastructure/rabbitmq/consumer.go starts, the one that \<open>adapt\<close> of
  cmd/worker/main.go starts, and the consumer's \<open>Run\<close>, with the two unbuffered channels between
  them, and the end of the two \<open>main\<close> functions. A goroutine is where it waits: for a
  delivery, with a delivery in hand that the next one has not taken yet, or
  ended, its channel closed. A \<open>select\<close> with several ready cases takes any of them.
\<close>

subsection \<open>Channels and goroutines\<close>

datatype 'b goroutine = Receiving | Sending 'b | Ended

datatype running = Looping | Returned "go_error option"

text \<open>\<open>pl_raw\<close> is what the client library still delivers before it closes its channel,
  \<open>pl_cancelled\<close> is \<open>ctx.Err()\<close>; \<open>pl_handled\<close> keeps what \<open>Run\<close> has handled.\<close>

record ('b, 's) pipeline =
  pl_raw :: "'b list"
  pl_closed :: bool
  pl_forward :: "'b goroutine"
  pl_adapt :: "'b goroutine"
  pl_run :: running
  pl_cancelled :: "go_error option"
  pl_worker :: 's
  pl_handled :: "'b list"

definition pipeline_start :: "'b list \<Rightarrow> bool \<Rightarrow> 's \<Rightarrow> ('b, 's) pipeline" where
  "pipeline_start deliveries closed w =
    \<lparr>pl_raw = deliveries, pl_closed = closed, pl_forward = Receiving, pl_adapt = Receiving, pl_run = Looping,
     pl_cancelled = None, pl_worker = w, pl_handled = []\<rparr>"

text \<open>\<open>for d := range raw { out <- Delivery{raw: d} }\<close>, then \<open>close(out)\<close>.\<close>

inductive Consume_forward :: "('b, 's) pipeline \<Rightarrow> ('b, 's) pipeline \<Rightarrow> bool" where
  receive: "pl_forward p = Receiving \<Longrightarrow> pl_raw p = b # rest \<Longrightarrow>
    Consume_forward p (p\<lparr>pl_raw := rest, pl_forward := Sending b\<rparr>)"
| close_out: "pl_forward p = Receiving \<Longrightarrow> pl_raw p = [] \<Longrightarrow> pl_closed p \<Longrightarrow>
    Consume_forward p (p\<lparr>pl_forward := Ended\<rparr>)"

text \<open>The loop of \<open>adapt\<close>; receiving a delivery takes it from the goroutine before.\<close>

inductive adapt :: "('b, 's) pipeline \<Rightarrow> ('b, 's) pipeline \<Rightarrow> bool" where
  cancelled: "pl_adapt p = Receiving \<Longrightarrow> pl_cancelled p = Some e \<Longrightarrow> adapt p (p\<lparr>pl_adapt := Ended\<rparr>)"
| in_closed: "pl_adapt p = Receiving \<Longrightarrow> pl_forward p = Ended \<Longrightarrow> adapt p (p\<lparr>pl_adapt := Ended\<rparr>)"
| receive: "pl_adapt p = Receiving \<Longrightarrow> pl_forward p = Sending b \<Longrightarrow>
    adapt p (p\<lparr>pl_forward := Receiving, pl_adapt := Sending b\<rparr>)"

text \<open>The loop of \<open>Run\<close>; \<open>H\<close> is \<open>handle\<close> on a delivery.\<close>

inductive Run_loop :: "('b \<Rightarrow> 's \<Rightarrow> 's) \<Rightarrow> ('b, 's) pipeline \<Rightarrow> ('b, 's) pipeline \<Rightarrow> bool" for H where
  cancelled: "pl_run p = Looping \<Longrightarrow> pl_cancelled p = Some e \<Longrightarrow> Run_loop H p (p\<lparr>pl_run := Returned (Some e)\<rparr>)"
| closed: "pl_run p = Looping \<Longrightarrow> pl_adapt p = Ended \<Longrightarrow> Run_loop H p (p\<lparr>pl_run := Returned None\<rparr>)"
| deliver: "pl_run p = Looping \<Longrightarrow> pl_adapt p = Sending b \<Longrightarrow>
    Run_loop H p (p\<lparr>pl_adapt := Receiving, pl_worker := H b (pl_worker p), pl_handled := pl_handled p @ [b]\<rparr>)"

inductive pipe_step :: "('b \<Rightarrow> 's \<Rightarrow> 's) \<Rightarrow> ('b, 's) pipeline \<Rightarrow> ('b, 's) pipeline \<Rightarrow> bool" for H where
  forward: "Consume_forward p p' \<Longrightarrow> pipe_step H p p'"
| adapting: "adapt p p' \<Longrightarrow> pipe_step H p p'"
| running: "Run_loop H p p' \<Longrightarrow> pipe_step H p p'"
| cancel: "pl_cancelled p = None \<Longrightarrow> pipe_step H p (p\<lparr>pl_cancelled := Some e\<rparr>)"

lemmas pipe_steps = pipe_step.simps Consume_forward.simps adapt.simps Run_loop.simps

subsection \<open>The end of the main functions\<close>

text \<open>What the \<open>select\<close> of the worker's \<open>main\<close> picks.\<close>

datatype main_choice = Quit | RunDone "go_error option"

datatype exit = Fatal go_error | Stopped

text \<open>A fatal log line ends the process at once; otherwise the deferred calls run, the last one first: the
  publishing connection is closed, then the consuming one.\<close>

definition worker_main_end ::
  "'w amqp \<Rightarrow> ('p, 'w) worker_process \<Rightarrow> go_error option \<Rightarrow> main_choice \<Rightarrow> ('p, 'w broker, 'w broker) worker
    \<Rightarrow> exit \<times> ('p, 'w broker, 'w broker) worker" where
  "worker_main_end amqp process ctx_Err choice w =
    (let w' = w\<lparr>wk_pub := snd (Connection_Close amqp (wp_publisherConn process) (wk_pub w))\<rparr>;
         stop = (Stopped, w'\<lparr>wk_con := snd (Connection_Close amqp (wp_consumerConn process) (wk_con w'))\<rparr>)
     in case choice of
          Quit \<Rightarrow> stop
        | RunDone err \<Rightarrow>
           (case err of
              Some e \<Rightarrow> if ctx_Err = None then (Fatal e, w) else stop
            | None \<Rightarrow> stop))"

lemma Connection_Close_calls:
  "\<exists>r r'. bk_calls (snd (Connection_Close amqp \<lparr>cn_conn = True, cn_ch = True\<rparr> s)) = bk_calls s @ [(Close_channel, r), (Close_conn, r')]"
proof -
  obtain r s1 where chan: "invoke amqp Close_channel s = (r, s1)" by fastforce
  obtain r' s2 where conn: "invoke amqp Close_conn s1 = (r', s2)" by fastforce
  show ?thesis
    using invoke_calls [OF chan] invoke_calls [OF conn]
    by (cases r') (auto simp: Connection_Close_def try_call_def chan conn)
qed

definition shutdownTimeout :: int where
  "shutdownTimeout = 10000000000"

text \<open>\<open>server.Start\<close> runs until it fails; that it was closed is no failure. On a signal the server is
  shut down under a deadline. \<open>is_closed\<close> tells \<open>http.ErrServerClosed\<close>.\<close>

definition api_serve :: "(go_error \<Rightarrow> bool) \<Rightarrow> go_error option \<Rightarrow> exit option" where
  "api_serve is_closed err =
    (case err of Some e \<Rightarrow> if \<not> is_closed e then Some (Fatal e) else None | None \<Rightarrow> None)"

definition api_main_end ::
  "'w amqp \<Rightarrow> Connection \<Rightarrow> (ctx \<Rightarrow> go_error option) \<Rightarrow> int \<Rightarrow> 'w broker \<Rightarrow> exit \<times> 'w broker" where
  "api_main_end amqp conn Shutdown now s =
    (case Shutdown (WithTimeout Background now shutdownTimeout) of
       Some err \<Rightarrow> (Fatal err, s)
     | None \<Rightarrow> (Stopped, snd (Connection_Close amqp conn s)))"

subsection \<open>What the goroutines keep\<close>

fun in_hand :: "'b goroutine \<Rightarrow> 'b list" where
  "in_hand (Sending b) = [b]"
| "in_hand _ = []"

definition run_result :: "running \<Rightarrow> go_error option option" where
  "run_result r = (case r of Looping \<Rightarrow> None | Returned err \<Rightarrow> Some err)"

definition pipe_inv :: "('b \<Rightarrow> 's \<Rightarrow> 's) \<Rightarrow> 'b list \<Rightarrow> bool \<Rightarrow> 's \<Rightarrow> ('b, 's) pipeline \<Rightarrow> bool" where
  "pipe_inv H deliveries closed w p \<longleftrightarrow>
    pl_handled p @ in_hand (pl_adapt p) @ in_hand (pl_forward p) @ pl_raw p = deliveries
    \<and> pl_closed p = closed
    \<and> pl_worker p = fold H (pl_handled p) w
    \<and> (pl_forward p = Ended \<longrightarrow> pl_raw p = [] \<and> closed)
    \<and> (pl_adapt p = Ended \<longrightarrow> pl_forward p = Ended \<or> pl_cancelled p \<noteq> None)
    \<and> (pl_run p = Returned None \<longrightarrow> pl_adapt p = Ended)
    \<and> (\<forall>e. pl_run p = Returned (Some e) \<longrightarrow> pl_cancelled p = Some e)"

lemma pipe_inv_step: "pipe_step H p p' \<Longrightarrow> pipe_inv H ds cl w p \<Longrightarrow> pipe_inv H ds cl w p'"
proof (induction rule: pipe_step.induct)
  case (forward p p')
  then show ?case by (cases rule: Consume_forward.cases) (simp_all add: pipe_inv_def)
next
  case (adapting p p')
  then show ?case by (cases rule: adapt.cases) (auto simp: pipe_inv_def split: option.splits)
next
  case (running p p')
  then show ?case by (cases rule: Run_loop.cases) (auto simp: pipe_inv_def split: option.splits)
next
  case (cancel p e)
  then show ?case by (auto simp: pipe_inv_def split: option.splits)
qed

interpretation pipe: stepping "pipe_step H" "pipe_inv H deliveries cl w"
  for H :: "'b \<Rightarrow> 's \<Rightarrow> 's" and deliveries cl w
  by unfold_locales (blast intro: pipe_inv_step)

lemma pipe_inv_reachable:
  assumes "(pipe_step H)\<^sup>*\<^sup>* (pipeline_start deliveries cl w) p"
  shows "pipe_inv H deliveries cl w p"
  by (rule pipe.run_inv [OF assms]) (simp add: pipe_inv_def pipeline_start_def)

text \<open>Every step of a goroutine brings a delivery or an end forward.\<close>

fun stage :: "'b goroutine \<Rightarrow> nat" where
  "stage Receiving = 1"
| "stage (Sending b) = 2"
| "stage Ended = 0"

definition pipe_measure :: "('b, 's) pipeline \<Rightarrow> nat" where
  "pipe_measure p =
    4 * length (pl_raw p) + 2 * stage (pl_forward p) + stage (pl_adapt p)
    + (if pl_run p = Looping then 1 else 0) + (if pl_cancelled p = None then 1 else 0)"

lemma pipe_measure_step: "pipe_step H p p' \<Longrightarrow> pipe_measure p' < pipe_measure p"
  by (auto simp: pipe_measure_def pipe_steps)

interpretation pipe_ends: descending "pipe_step H" pipe_measure for H :: "'b \<Rightarrow> 's \<Rightarrow> 's"
  by unfold_locales (rule pipe_measure_step)

text \<open>No goroutine can go on.\<close>

definition pipe_stuck :: "('b \<Rightarrow> 's \<Rightarrow> 's) \<Rightarrow> ('b, 's) pipeline \<Rightarrow> bool" where
  "pipe_stuck H p \<longleftrightarrow> (\<nexists>p'. Consume_forward p p' \<or> adapt p p' \<or> Run_loop H p p')"

lemma pipe_stuck_iff:
  "pipe_stuck H p \<longleftrightarrow>
    \<not> (pl_forward p = Receiving \<and> (pl_raw p \<noteq> [] \<or> pl_closed p))
    \<and> \<not> (pl_adapt p = Receiving \<and> (pl_cancelled p \<noteq> None \<or> pl_forward p \<noteq> Receiving))
    \<and> \<not> (pl_run p = Looping \<and> (pl_cancelled p \<noteq> None \<or> pl_adapt p \<noteq> Receiving))"
proof -
  have "(\<exists>p'. Consume_forward p p') \<longleftrightarrow> pl_forward p = Receiving \<and> (pl_raw p \<noteq> [] \<or> pl_closed p)"
    by (cases "pl_raw p") (auto simp: Consume_forward.simps)
  moreover have "(\<exists>p'. adapt p p') \<longleftrightarrow> pl_adapt p = Receiving \<and> (pl_cancelled p \<noteq> None \<or> pl_forward p \<noteq> Receiving)"
    by (cases "pl_forward p") (auto simp: adapt.simps)
  moreover have "(\<exists>p'. Run_loop H p p') \<longleftrightarrow> pl_run p = Looping \<and> (pl_cancelled p \<noteq> None \<or> pl_adapt p \<noteq> Receiving)"
    by (cases "pl_adapt p") (auto simp: Run_loop.simps)
  ultimately show ?thesis by (auto simp: pipe_stuck_def)
qed

text \<open>The choices of \<open>Run\<close> that lead to a state.\<close>

definition run_events :: "('b, 's) pipeline \<Rightarrow> 'b event list" where
  "run_events p = map Deliver (pl_handled p) @
    (case pl_run p of Looping \<Rightarrow> [] | Returned None \<Rightarrow> [Closed] | Returned (Some e) \<Rightarrow> [Done e])"

lemma taken_delivers: "taken (map Deliver bs @ es) = bs @ taken es"
  by (induction bs) simp_all

lemma taken_run_events: "taken (run_events p) = pl_handled p"
  by (simp add: run_events_def taken_delivers split: running.split option.split)

lemma Run_delivers:
  "Run unmarshal co c (map (map_event (as_delivery con)) (map Deliver bs @ es)) w
    = Run unmarshal co c (map (map_event (as_delivery con)) es) (fold (\<lambda>b. handle unmarshal co c (as_delivery con b)) bs w)"
  by (induction bs arbitrary: w) simp_all

lemma Run_run_events:
  "Run unmarshal co c (map (map_event (as_delivery con)) (run_events p)) w
    = (run_result (pl_run p), fold (\<lambda>b. handle unmarshal co c (as_delivery con b)) (pl_handled p) w)"
  unfolding run_events_def Run_delivers by (simp add: run_result_def split: running.split option.split)

definition sample_pipe :: "(nat, nat list) pipeline" where
  "sample_pipe = pipeline_start [7] True []"

lemma sample_pipe_closes:
  "\<exists>p. (pipe_step (#) ^^ 6) sample_pipe p \<and> pl_cancelled p = None \<and> pl_run p = Returned None \<and> pipe_stuck (#) p"
proof -
  let ?p1 = "sample_pipe\<lparr>pl_raw := [], pl_forward := Sending 7\<rparr>"
  let ?p2 = "?p1\<lparr>pl_forward := Receiving, pl_adapt := Sending 7\<rparr>"
  let ?p3 = "?p2\<lparr>pl_adapt := Receiving, pl_worker := 7 # pl_worker ?p2, pl_handled := pl_handled ?p2 @ [7]\<rparr>"
  let ?p4 = "?p3\<lparr>pl_forward := Ended\<rparr>"
  let ?p5 = "?p4\<lparr>pl_adapt := Ended\<rparr>"
  let ?p6 = "?p5\<lparr>pl_run := Returned None\<rparr>"
  have "pipe_step (#) sample_pipe ?p1" "pipe_step (#) ?p1 ?p2" "pipe_step (#) ?p2 ?p3" "pipe_step (#) ?p3 ?p4"
    "pipe_step (#) ?p4 ?p5" "pipe_step (#) ?p5 ?p6"
    by (simp_all add: pipe_steps sample_pipe_def pipeline_start_def)
  then have "(pipe_step (#) ^^ 6) sample_pipe ?p6"
    by (simp add: eval_nat_numeral relcompp_apply) blast
  then show ?thesis
    by (intro exI [of _ ?p6]) (simp add: pipe_stuck_iff sample_pipe_def pipeline_start_def)
qed

subsection \<open>Properties\<close>

text \<open>C14. The goroutines of a worker are \<open>Run\<close> on the deliveries of the broker: in every state they can
  reach, under every schedule and whenever the context is cancelled, what has been handled, what is in
  the hands of the goroutines and what is still to come are the deliveries, in their order, none lost and
  none twice; and the worker is where \<open>Run\<close> gets by handling those that have been handled, with the
  result \<open>Run\<close> has then.\<close>

theorem pipeline_refines_Run:
  assumes "(pipe_step (\<lambda>b. handle unmarshal co c (as_delivery con b)))\<^sup>*\<^sup>* (pipeline_start deliveries closed w) p"
  shows "pl_handled p @ in_hand (pl_adapt p) @ in_hand (pl_forward p) @ pl_raw p = deliveries
    \<and> (\<exists>es. taken es = pl_handled p
         \<and> Run unmarshal co c (map (map_event (as_delivery con)) es) w = (run_result (pl_run p), pl_worker p))"
proof -
  note inv = pipe_inv_reachable [OF assms, unfolded pipe_inv_def]
  with Run_run_events [of unmarshal co c con p w] taken_run_events [of p]
  show ?thesis by (intro conjI exI [of _ "run_events p"]) simp_all
qed

theorem pipeline_refines_Run_witness:
  "\<exists>(p :: (Delivery, (unit outbound, bool broker, bool broker) worker) pipeline) es.
    pl_handled p = [] \<and> pl_cancelled p = Some (External ''context canceled'') \<and> taken es = pl_handled p
    \<and> Run unary_unmarshal sample_consumer Background (map (map_event (as_delivery sample_amqp)) es) sample_worker
       = (Some (Some (External ''context canceled'')), pl_worker p)"
proof -
  let ?H = "\<lambda>b. handle unary_unmarshal sample_consumer Background (as_delivery sample_amqp b)"
  let ?p0 = "pipeline_start [sample_delivery] False sample_worker"
  let ?p1 = "?p0\<lparr>pl_cancelled := Some (External ''context canceled'')\<rparr>"
  let ?p2 = "?p1\<lparr>pl_run := Returned (Some (External ''context canceled''))\<rparr>"
  have "pipe_step ?H ?p0 ?p1" "pipe_step ?H ?p1 ?p2"
    by (simp_all add: pipe_steps pipeline_start_def)
  then have "(pipe_step ?H)\<^sup>*\<^sup>* ?p0 ?p2"
    using steps_run [of "pipe_step ?H" "[?p0, ?p1, ?p2]"] by simp
  then obtain es where "taken es = pl_handled ?p2"
    "Run unary_unmarshal sample_consumer Background (map (map_event (as_delivery sample_amqp)) es) sample_worker
      = (run_result (pl_run ?p2), pl_worker ?p2)"
    using pipeline_refines_Run by blast
  then show ?thesis
    by (intro exI [of _ ?p2] exI [of _ es]) (simp add: pipeline_start_def run_result_def)
qed



text \<open>The worker never reports that it has stopped unexpectedly: whatever \<open>Run\<close> has returned, \<open>main\<close> takes it for
  a normal end. This includes the case that the broker has closed the deliveries, when \<open>Run\<close> returns nil
  without a cancellation.\<close>

lemma worker_exits_quietly:
  assumes "(pipe_step H)\<^sup>*\<^sup>* (pipeline_start deliveries closed w) p"
    and "\<And>r. choice = RunDone r \<Longrightarrow> pl_run p = Returned r"
  shows "worker_main_end amqp process (pl_cancelled p) choice v
    = (Stopped, v\<lparr>wk_pub := snd (Connection_Close amqp (wp_publisherConn process) (wk_pub v)),
         wk_con := snd (Connection_Close amqp (wp_consumerConn process) (wk_con v))\<rparr>)"
proof -
  have "e = None \<or> pl_cancelled p \<noteq> None" if "choice = RunDone e" for e
    using pipe_inv_reachable [OF assms(1), unfolded pipe_inv_def] assms(2) [OF that] by (cases e) simp_all
  then show ?thesis by (cases choice) (auto simp: worker_main_end_def Let_def split: option.split)
qed

text \<open>C30. Cancelling does not end the goroutine of \<open>adapt\<close> when it holds a delivery: \<open>Run\<close> may have returned, and then
  nobody takes the delivery; the goroutine waits for ever, and the one before it with it.\<close>

theorem adapt_outlives_cancel:
  "\<exists>p. (pipe_step H)\<^sup>*\<^sup>* (pipeline_start [b, b'] closed w) p \<and> pipe_stuck H p \<and> pl_cancelled p \<noteq> None
    \<and> pl_run p = Returned (pl_cancelled p) \<and> pl_adapt p = Sending b \<and> pl_forward p = Sending b' \<and> pl_handled p = []"
proof -
  let ?p0 = "pipeline_start [b, b'] closed w"
  let ?p1 = "?p0\<lparr>pl_raw := [b'], pl_forward := Sending b\<rparr>"
  let ?p2 = "?p1\<lparr>pl_forward := Receiving, pl_adapt := Sending b\<rparr>"
  let ?p3 = "?p2\<lparr>pl_raw := [], pl_forward := Sending b'\<rparr>"
  let ?p4 = "?p3\<lparr>pl_cancelled := Some (External ''context canceled'')\<rparr>"
  let ?p5 = "?p4\<lparr>pl_run := Returned (Some (External ''context canceled''))\<rparr>"
  have "pipe_step H ?p0 ?p1" "pipe_step H ?p1 ?p2" "pipe_step H ?p2 ?p3" "pipe_step H ?p3 ?p4" "pipe_step H ?p4 ?p5"
    by (simp_all add: pipe_steps pipeline_start_def)
  then have "(pipe_step H)\<^sup>*\<^sup>* ?p0 ?p5"
    using steps_run [of "pipe_step H" "[?p0, ?p1, ?p2, ?p3, ?p4, ?p5]"] by simp
  then show ?thesis
    by (rule exI [of _ ?p5, OF conjI]) (simp add: pipe_stuck_iff pipeline_start_def)
qed


end
