(* ===== verification/Publisher_Mutex.thy ===== *)
theory Publisher_Mutex
  imports Rabbit Step_Relation
begin

text \<open>
  Several goroutines that publish at once over one \<open>Publisher\<close> of
  internal/infrastructure/rabbitmq/publisher.go, as the requests of an API process do. A publish
  goes in the steps between which others can run: encoding and taking the deadline, the mutex,
  the send, the wait for the confirm, and the unlock of the deferred call. Between any two
  steps time may pass and the client library may do its own work. Nothing but the
  mutex orders the goroutines: when it is free, any that waits may take it.
\<close>

subsection \<open>Steps of a publish\<close>

text \<open>Where a goroutine is in \<open>publish\<close>, with the context and the body it has made.\<close>

datatype publish_pc =
    PubEnter
  | PubLock ctx string
  | PubSend ctx string
  | PubWait ctx string
  | PubUnlock "go_error option"
  | PubDone "go_error option"

record 'w publishers =
  mx_mu :: "nat option"
  mx_pc :: "nat \<Rightarrow> publish_pc"
  mx_broker :: "'w broker"

text \<open>The arguments of each goroutine's call.\<close>

record publish_args =
  pa_ctx :: ctx
  pa_key :: string
  pa_msg :: Message

definition publishers_start :: "'w broker \<Rightarrow> 'w publishers" where
  "publishers_start s = \<lparr>mx_mu = None, mx_pc = (\<lambda>_. PubEnter), mx_broker = s\<rparr>"

abbreviation goes :: "nat \<Rightarrow> publish_pc \<Rightarrow> 'w publishers \<Rightarrow> 'w publishers" where
  "goes i pc st \<equiv> st\<lparr>mx_pc := (mx_pc st)(i := pc)\<rparr>"

inductive publish_step ::
  "'w amqp \<Rightarrow> (Message \<Rightarrow> string result) \<Rightarrow> Publisher \<Rightarrow> (nat \<Rightarrow> publish_args) \<Rightarrow> nat
    \<Rightarrow> 'w publishers \<Rightarrow> 'w publishers \<Rightarrow> bool"
  for amqp marshal p args i where
  marshal_err: "mx_pc st i = PubEnter \<Longrightarrow> marshal (pa_msg (args i)) = Inl err \<Longrightarrow>
    publish_step amqp marshal p args i st
      (goes i (PubDone (Some (Errorf [Lit ''marshal notification '', Lit (m_ID (pa_msg (args i))), Lit '': '', Cause] err))) st)"
| with_timeout: "mx_pc st i = PubEnter \<Longrightarrow> marshal (pa_msg (args i)) = Inr body \<Longrightarrow>
    publish_step amqp marshal p args i st
      (goes i (PubLock (WithTimeout (pa_ctx (args i)) (amqp_now amqp (bk_env (mx_broker st))) (pb_timeout p)) body) st)"
| lock: "mx_pc st i = PubLock c body \<Longrightarrow> mx_mu st = None \<Longrightarrow>
    publish_step amqp marshal p args i st (goes i (PubSend c body) (st\<lparr>mx_mu := Some i\<rparr>))"
| send_err: "mx_pc st i = PubSend c body \<Longrightarrow>
    invoke amqp (PublishDeferred c Exchange (pa_key (args i)) False False (publishing (pa_msg (args i)) body)) (mx_broker st)
      = (RErr err, s') \<Longrightarrow>
    publish_step amqp marshal p args i st
      (goes i (PubUnlock (Some (Errorf [Lit ''publish notification '', Lit (m_ID (pa_msg (args i))), Lit '': '', Cause] err)))
        (st\<lparr>mx_broker := s'\<rparr>))"
| send: "mx_pc st i = PubSend c body \<Longrightarrow>
    invoke amqp (PublishDeferred c Exchange (pa_key (args i)) False False (publishing (pa_msg (args i)) body)) (mx_broker st)
      = (r, s') \<Longrightarrow> \<not> failed r \<Longrightarrow>
    publish_step amqp marshal p args i st (goes i (PubWait c body) (st\<lparr>mx_broker := s'\<rparr>))"
| wait_confirm: "mx_pc st i = PubWait c body \<Longrightarrow> invoke amqp (WaitConfirm c) (mx_broker st) = (r, s') \<Longrightarrow>
    publish_step amqp marshal p args i st
      (goes i (PubUnlock (case r of
           RErr err \<Rightarrow> Some (Errorf [Lit ''await confirm for notification '', Lit (m_ID (pa_msg (args i))), Lit '': '', Cause] err)
         | _ \<Rightarrow> if r = RAcked True then None
                else Some (Errorf [Cause, Lit '': notification '', Lit (m_ID (pa_msg (args i))), Lit '' nacked by broker'']
                       (Sentinel ErrPublishFailed))))
        (st\<lparr>mx_broker := s'\<rparr>))"
| unlock: "mx_pc st i = PubUnlock res \<Longrightarrow>
    publish_step amqp marshal p args i st (goes i (PubDone res) (st\<lparr>mx_mu := None\<rparr>))"

text \<open>A step of any goroutine, or time that passes.\<close>

inductive publishers_step ::
  "'w amqp \<Rightarrow> (Message \<Rightarrow> string result) \<Rightarrow> Publisher \<Rightarrow> (nat \<Rightarrow> publish_args) \<Rightarrow> 'w publishers \<Rightarrow> 'w publishers \<Rightarrow> bool"
  for amqp marshal p args where
  goroutine: "publish_step amqp marshal p args i st st' \<Longrightarrow> publishers_step amqp marshal p args st st'"
| pass: "publishers_step amqp marshal p args st (st\<lparr>mx_broker := (mx_broker st)\<lparr>bk_env := w\<rparr>\<rparr>)"

subsection \<open>What the goroutines keep\<close>

fun in_section :: "publish_pc \<Rightarrow> bool" where
  "in_section (PubSend c body) = True"
| "in_section (PubWait c body) = True"
| "in_section (PubUnlock res) = True"
| "in_section _ = False"

fun pc_body :: "publish_pc \<Rightarrow> string option" where
  "pc_body (PubLock c body) = Some body"
| "pc_body (PubSend c body) = Some body"
| "pc_body (PubWait c body) = Some body"
| "pc_body _ = None"

definition nil_result :: "publish_pc \<Rightarrow> bool" where
  "nil_result pc \<longleftrightarrow> pc = PubUnlock None \<or> pc = PubDone None"

definition message_of :: "(Message \<Rightarrow> string result) \<Rightarrow> publish_args \<Rightarrow> string \<times> string" where
  "message_of marshal a = (pa_key a, case marshal (pa_msg a) of Inr body \<Rightarrow> body | Inl _ \<Rightarrow> [])"

definition mutex_inv :: "(Message \<Rightarrow> string result) \<Rightarrow> (nat \<Rightarrow> publish_args) \<Rightarrow> 'w publishers \<Rightarrow> bool" where
  "mutex_inv marshal args st \<longleftrightarrow>
    (\<forall>i. in_section (mx_pc st i) \<longleftrightarrow> mx_mu st = Some i)
    \<and> (\<forall>i body. pc_body (mx_pc st i) = Some body \<longrightarrow> marshal (pa_msg (args i)) = Inr body)"

text \<open>The publish whose confirm is awaited was the last call, and the confirmed messages are those of
  the publishes with result nil, each once.\<close>

definition calls_inv ::
  "(Message \<Rightarrow> string result) \<Rightarrow> (nat \<Rightarrow> publish_args) \<Rightarrow> (string \<times> string) list \<Rightarrow> 'w publishers \<Rightarrow> bool" where
  "calls_inv marshal args before st \<longleftrightarrow>
    (\<forall>i c body. mx_pc st i = PubWait c body \<longrightarrow>
      (\<exists>h r. \<not> failed r \<and> bk_calls (mx_broker st) =
         h @ [(PublishDeferred c Exchange (pa_key (args i)) False False (publishing (pa_msg (args i)) body), r)]))
    \<and> (\<exists>ids. distinct ids \<and> set ids = {i. nil_result (mx_pc st i)}
         \<and> confirmed (mx_broker st) = before @ map (\<lambda>i. message_of marshal (args i)) ids)
    \<and> (\<forall>i. nil_result (mx_pc st i) \<longrightarrow> (\<exists>body. marshal (pa_msg (args i)) = Inr body))"

lemma mutex_inv_goes:
  assumes "mutex_inv marshal args st"
    and "in_section pc \<longleftrightarrow> mx_mu st' = Some i" "\<And>j. j \<noteq> i \<Longrightarrow> mx_mu st' = Some j \<longleftrightarrow> mx_mu st = Some j"
    and "\<And>body. pc_body pc = Some body \<Longrightarrow> marshal (pa_msg (args i)) = Inr body"
    and "mx_pc st' = (mx_pc st)(i := pc)"
  shows "mutex_inv marshal args st'"
  using assms by (simp add: mutex_inv_def)

lemma mutex_inv_step:
  assumes "publish_step amqp marshal p args i st st'" "mutex_inv marshal args st"
  shows "mutex_inv marshal args st'"
proof -
  have mine: "in_section (mx_pc st i) \<longleftrightarrow> mx_mu st = Some i"
    and body: "pc_body (mx_pc st i) = Some body \<Longrightarrow> marshal (pa_msg (args i)) = Inr body" for body
    using assms(2) by (simp_all add: mutex_inv_def)
  from assms(1) show ?thesis
    by (cases rule: publish_step.cases; intro mutex_inv_goes [OF assms(2), where i = i and pc = "mx_pc st' i"])
       (use mine body in auto)
qed

lemma calls_inv_goes:
  assumes "mutex_inv marshal args st" "calls_inv marshal args before st"
    and "\<And>j. j \<noteq> i \<Longrightarrow> \<not> in_section (mx_pc st j)" "\<not> nil_result (mx_pc st i)"
    and "mx_pc st' = (mx_pc st)(i := pc)"
    and "\<And>c body. pc = PubWait c body \<Longrightarrow> \<exists>h r. \<not> failed r \<and> bk_calls (mx_broker st') =
         h @ [(PublishDeferred c Exchange (pa_key (args i)) False False (publishing (pa_msg (args i)) body), r)]"
    and "confirmed (mx_broker st') = confirmed (mx_broker st) @ (if nil_result pc then [message_of marshal (args i)] else [])"
    and "nil_result pc \<Longrightarrow> \<exists>body. marshal (pa_msg (args i)) = Inr body"
  shows "calls_inv marshal args before st'"
proof -
  obtain ids where ids: "distinct ids" "set ids = {j. nil_result (mx_pc st j)}"
    "confirmed (mx_broker st) = before @ map (\<lambda>i. message_of marshal (args i)) ids"
    using assms(2) by (auto simp: calls_inv_def)
  let ?ids = "ids @ (if nil_result pc then [i] else [])"
  have "distinct ?ids" "set ?ids = {j. nil_result (mx_pc st' j)}"
    using ids assms(4,5) by auto
  moreover have "confirmed (mx_broker st') = before @ map (\<lambda>i. message_of marshal (args i)) ?ids"
    using ids assms(7) by simp
  moreover have "mx_pc st' j = PubWait c body \<Longrightarrow> j = i \<and> pc = PubWait c body" for j c body
    using assms(3) [of j] assms(5) by (cases "j = i") auto
  moreover have "\<exists>body. marshal (pa_msg (args j)) = Inr body" if "nil_result (mx_pc st' j)" for j
    using that assms(2,5,8) by (cases "j = i") (auto simp: calls_inv_def)
  ultimately show ?thesis
    unfolding calls_inv_def using assms(6) by blast
qed


lemma confirmed_one:
  assumes "invoke amqp call s = (r, s')" "\<not> acknowledged (call, r)"
  shows "confirmed s' = confirmed s"
  using assms by (simp add: confirmed_def invoke_calls [OF assms(1)] confirmed_calls_append)

lemma confirmed_wait:
  assumes "invoke amqp (WaitConfirm c) s = (r, s')"
    and "bk_calls s = h @ [(PublishDeferred c' Exchange key mandatory immediate pub, r0)]" "\<not> failed r0"
  shows "confirmed s' = confirmed s @ (if r = RAcked True then [(key, pub_Body pub)] else [])"
  using assms(2,3) by (simp add: confirmed_def invoke_calls [OF assms(1)] confirmed_calls_append)

lemma calls_inv_step:
  assumes step: "publish_step amqp marshal p args i st st'"
    and inv: "mutex_inv marshal args st" "calls_inv marshal args before st"
  shows "calls_inv marshal args before st'"
proof -
  have others: "\<not> in_section (mx_pc st j)" if "in_section (mx_pc st i) \<or> mx_mu st = None" "j \<noteq> i" for j
    using inv(1) that by (auto simp: mutex_inv_def)
  have body: "pc_body (mx_pc st i) = Some body \<Longrightarrow>
      message_of marshal (args i) = (pa_key (args i), body) \<and> marshal (pa_msg (args i)) = Inr body" for body
    using inv(1) by (simp add: mutex_inv_def message_of_def)
  show ?thesis
    using step
  proof (cases rule: publish_step.cases)
    case (send_err c body s' err)
    then show ?thesis
      using others by (intro calls_inv_goes [OF inv, where i = i and pc = "mx_pc st' i"])
        (auto simp: nil_result_def confirmed_one)
  next
    case (send c body r s')
    then show ?thesis
      using others by (intro calls_inv_goes [OF inv, where i = i and pc = "mx_pc st' i"])
        (auto simp: nil_result_def confirmed_one invoke_calls)
  next
    case (wait_confirm c body r s')
    obtain h r0 where "\<not> failed r0" "bk_calls (mx_broker st) =
        h @ [(PublishDeferred c Exchange (pa_key (args i)) False False (publishing (pa_msg (args i)) body), r0)]"
      using inv(2) [unfolded calls_inv_def] wait_confirm(2) by blast
    from confirmed_wait [OF wait_confirm(3) this(2,1)]
    have conf: "confirmed s' = confirmed (mx_broker st) @ (if r = RAcked True then [message_of marshal (args i)] else [])"
      using body wait_confirm(2) by (simp add: publishing_def)
    from wait_confirm show ?thesis
      using others by (intro calls_inv_goes [OF inv, where i = i and pc = "mx_pc st' i"])
        (auto simp: nil_result_def conf body split: amqp_reply.splits)
  qed (use inv(2) in \<open>auto simp: calls_inv_def nil_result_def\<close>)
qed


lemma publishers_step_inv:
  assumes "publishers_step amqp marshal p args st st'" "mutex_inv marshal args st" "calls_inv marshal args before st"
  shows "mutex_inv marshal args st' \<and> calls_inv marshal args before st'"
  using assms(1)
proof (cases rule: publishers_step.cases)
  case (goroutine i)
  with assms(2,3) show ?thesis by (blast intro: mutex_inv_step calls_inv_step)
next
  case (pass w)
  with assms(2,3) show ?thesis by (simp add: mutex_inv_def calls_inv_def confirmed_def)
qed

interpretation mutex: stepping "publishers_step amqp marshal p args" "\<lambda>st. mutex_inv marshal args st \<and> calls_inv marshal args before st"
  for amqp :: "'w amqp" and marshal p args before
  by unfold_locales (use publishers_step_inv in blast)

lemma start_inv: "mutex_inv marshal args (publishers_start s) \<and> calls_inv marshal args (confirmed s) (publishers_start s)"
  by (simp add: mutex_inv_def calls_inv_def publishers_start_def nil_result_def)

subsection \<open>A publish that is left alone\<close>

text \<open>What \<open>Publisher_publish\<close> computes is a run of the steps of one goroutine that finds the mutex free.\<close>

lemma solo_publish:
  assumes "mx_pc st i = PubEnter" "mx_mu st = None"
    and "Publisher_publish amqp marshal p (pa_ctx (args i)) (pa_key (args i)) (pa_msg (args i)) (mx_broker st) = (res, s')"
  shows "(publish_step amqp marshal p args i)\<^sup>*\<^sup>* st (goes i (PubDone res) (st\<lparr>mx_broker := s'\<rparr>))"
proof (cases "marshal (pa_msg (args i))")
  case (Inl err)
  note step = publish_step.marshal_err [of st i marshal args err amqp p, OF assms(1) Inl]
  with assms(3) Inl show ?thesis by (auto simp: Publisher_publish_def intro!: r_into_rtranclp)
next
  case (Inr body)
  let ?run = "(publish_step amqp marshal p args i)\<^sup>*\<^sup>*"
  let ?c = "publish_deadline amqp p (pa_ctx (args i)) (mx_broker st)"
  let ?call = "PublishDeferred ?c Exchange (pa_key (args i)) False False (publishing (pa_msg (args i)) body)"
  let ?st1 = "goes i (PubLock ?c body) st"
  let ?st2 = "goes i (PubSend ?c body) (?st1\<lparr>mx_mu := Some i\<rparr>)"
  have "publish_step amqp marshal p args i st ?st1"
    using publish_step.with_timeout [of st i marshal args body amqp p, OF assms(1) Inr] by (simp add: publish_deadline_def)
  moreover have "publish_step amqp marshal p args i ?st1 ?st2"
    by (rule publish_step.lock) (simp_all add: assms(2))
  ultimately have sending: "?run st ?st2" by (simp add: rtranclp.rtrancl_into_rtrancl)
  have unlocked: "?run st (goes i (PubDone res) (st\<lparr>mx_broker := s'\<rparr>))"
    if "?run st st3" "st3 = goes i (PubUnlock res) (?st2\<lparr>mx_broker := s'\<rparr>)" for st3
  proof -
    have "publish_step amqp marshal p args i st3 (goes i (PubDone res) (st3\<lparr>mx_mu := None\<rparr>))"
      by (rule publish_step.unlock) (simp add: that(2))
    moreover have "goes i (PubDone res) (st3\<lparr>mx_mu := None\<rparr>) = goes i (PubDone res) (st\<lparr>mx_broker := s'\<rparr>)"
      using assms(2) by (simp add: that(2))
    ultimately show ?thesis using that(1) by (simp add: rtranclp.rtrancl_into_rtrancl)
  qed
  note unfold = Publisher_publish_def publish_deadline_def [symmetric] publishing_def [symmetric] Let_def
  obtain r1 s1 where call: "invoke amqp ?call (mx_broker st) = (r1, s1)" by (cases "invoke amqp ?call (mx_broker st)")
  show ?thesis
  proof (cases "failed r1")
    case True
    then obtain err where err: "r1 = RErr err" by (cases r1) auto
    have "publish_step amqp marshal p args i ?st2 (goes i (PubUnlock res) (?st2\<lparr>mx_broker := s'\<rparr>))"
      using publish_step.send_err [of ?st2 i ?c body amqp args err s1 marshal p] call err assms(3) Inr by (simp add: unfold)
    with sending show ?thesis by (intro unlocked) (simp_all add: rtranclp.rtrancl_into_rtrancl)
  next
    case False
    let ?st3 = "goes i (PubWait ?c body) (?st2\<lparr>mx_broker := s1\<rparr>)"
    obtain r2 s2 where wait: "invoke amqp (WaitConfirm ?c) s1 = (r2, s2)" by (cases "invoke amqp (WaitConfirm ?c) s1")
    have "publish_step amqp marshal p args i ?st2 ?st3"
      using publish_step.send [of ?st2 i ?c body amqp args r1 s1 marshal p] call False by simp
    moreover have "publish_step amqp marshal p args i ?st3 (goes i (PubUnlock res) (?st2\<lparr>mx_broker := s'\<rparr>))"
      using publish_step.wait_confirm [of ?st3 i ?c body amqp r2 s2 marshal p args] call wait False assms(3) Inr
      by (auto simp: unfold split: amqp_reply.splits if_splits)
    ultimately show ?thesis
      using sending by (intro unlocked) (simp_all add: rtranclp.rtrancl_into_rtrancl)
  qed
qed


subsection \<open>Every publish ends\<close>

fun pc_left :: "publish_pc \<Rightarrow> nat" where
  "pc_left PubEnter = 5"
| "pc_left (PubLock c body) = 4"
| "pc_left (PubSend c body) = 3"
| "pc_left (PubWait c body) = 2"
| "pc_left (PubUnlock res) = 1"
| "pc_left (PubDone res) = 0"

text \<open>Time passes, then one of the first \<open>n\<close> goroutines makes a step.\<close>

definition one_of ::
  "'w amqp \<Rightarrow> (Message \<Rightarrow> string result) \<Rightarrow> Publisher \<Rightarrow> (nat \<Rightarrow> publish_args) \<Rightarrow> nat
    \<Rightarrow> 'w publishers \<Rightarrow> 'w publishers \<Rightarrow> bool" where
  "one_of amqp marshal p args n st st' \<longleftrightarrow>
    (\<exists>i < n. \<exists>w. publish_step amqp marshal p args i (st\<lparr>mx_broker := (mx_broker st)\<lparr>bk_env := w\<rparr>\<rparr>) st')"

lemma publish_step_left:
  "publish_step amqp marshal p args i st st' \<Longrightarrow>
    \<exists>pc. mx_pc st' = (mx_pc st)(i := pc) \<and> pc_left pc < pc_left (mx_pc st i)"
  by (induction rule: publish_step.induct) auto

lemma one_of_left:
  assumes "one_of amqp marshal p args n st st'"
  shows "(\<Sum>i<n. pc_left (mx_pc st' i)) < (\<Sum>i<n. pc_left (mx_pc st i))" "\<And>j. n \<le> j \<Longrightarrow> mx_pc st' j = mx_pc st j"
proof -
  obtain i w where i: "i < n" "publish_step amqp marshal p args i (st\<lparr>mx_broker := (mx_broker st)\<lparr>bk_env := w\<rparr>\<rparr>) st'"
    using assms by (auto simp: one_of_def)
  then obtain pc where pc: "mx_pc st' = (mx_pc st)(i := pc)" "pc_left pc < pc_left (mx_pc st i)"
    using publish_step_left by fastforce
  then show "(\<Sum>i<n. pc_left (mx_pc st' i)) < (\<Sum>i<n. pc_left (mx_pc st i))"
    using i(1) by (intro sum_strict_mono_ex1) (auto intro: bexI [of _ i])
  show "mx_pc st' j = mx_pc st j" if "n \<le> j" for j using pc(1) i(1) that by simp
qed

lemma one_of_inv:
  assumes "one_of amqp marshal p args n st st'" "mutex_inv marshal args st"
  shows "mutex_inv marshal args st'"
proof -
  obtain i w where step: "publish_step amqp marshal p args i (st\<lparr>mx_broker := (mx_broker st)\<lparr>bk_env := w\<rparr>\<rparr>) st'"
    using assms(1) by (auto simp: one_of_def)
  have "mutex_inv marshal args (st\<lparr>mx_broker := (mx_broker st)\<lparr>bk_env := w\<rparr>\<rparr>)"
    using assms(2) by (simp add: mutex_inv_def)
  then show ?thesis by (rule mutex_inv_step [OF step])
qed

interpretation bounded: ending "one_of amqp marshal p args n"
    "\<lambda>st. mutex_inv marshal args st \<and> (\<forall>j \<ge> n. mx_pc st j = PubEnter)" "\<lambda>st. \<Sum>i<n. pc_left (mx_pc st i)"
  for amqp :: "'w amqp" and marshal p args n
  by unfold_locales (auto simp: one_of_left one_of_inv)

lemma section_steps: "in_section (mx_pc st i) \<Longrightarrow> \<exists>st'. publish_step amqp marshal p args i st st'"
proof (cases "mx_pc st i")
  case (PubSend c body)
  obtain r s' where r: "invoke amqp (PublishDeferred c Exchange (pa_key (args i)) False False (publishing (pa_msg (args i)) body))
      (mx_broker st) = (r, s')" by fastforce
  show ?thesis
  proof (cases r)
    case (RErr err)
    with publish_step.send_err [of st i c body amqp args err s' marshal p] PubSend r show ?thesis by blast
  qed (use publish_step.send [of st i c body amqp args r s' marshal p] PubSend r in auto)
next
  case (PubWait c body)
  obtain r s' where "invoke amqp (WaitConfirm c) (mx_broker st) = (r, s')" by fastforce
  with publish_step.wait_confirm [of st i c body amqp r s' marshal p args] PubWait show ?thesis by blast
next
  case (PubUnlock res)
  with publish_step.unlock [of st i res amqp marshal p args] show ?thesis by blast
qed simp_all

lemma some_goroutine_steps:
  assumes inv: "mutex_inv marshal args st" "\<forall>j \<ge> n. mx_pc st j = PubEnter"
    and i: "i < n" "\<nexists>res. mx_pc st i = PubDone res"
  shows "\<exists>j < n. \<exists>st'. publish_step amqp marshal p args j st st'"
proof (cases "mx_pc st i")
  case PubEnter
  with publish_step.marshal_err [of st i marshal args _ amqp p] publish_step.with_timeout [of st i marshal args _ amqp p] i(1)
  show ?thesis by (cases "marshal (pa_msg (args i))") blast+
next
  case (PubLock c body)
  show ?thesis
  proof (cases "mx_mu st")
    case None
    with publish_step.lock [of st i c body amqp marshal p args] PubLock i(1) show ?thesis by blast
  next
    case (Some j)
    then have j: "in_section (mx_pc st j)" using inv(1) by (simp add: mutex_inv_def)
    then have "j < n" using inv(2) by (cases "j < n") auto
    with section_steps [OF j] show ?thesis by blast
  qed
qed (use i section_steps [of st i amqp marshal p args] in auto)


lemma one_ofI: "i < n \<Longrightarrow> publish_step amqp marshal p args i st st' \<Longrightarrow> one_of amqp marshal p args n st st'"
  unfolding one_of_def by (intro exI [of _ i] conjI exI [of _ "bk_env (mx_broker st)"]) simp_all

lemma goroutine_run:
  "(publish_step amqp marshal p args i)\<^sup>*\<^sup>* st st' \<Longrightarrow> (publishers_step amqp marshal p args)\<^sup>*\<^sup>* st st'"
proof (induction rule: rtranclp_induct)
  case (step st1 st2)
  from step.IH publishers_step.goroutine [OF step.hyps(2)] show ?case by (rule rtranclp.rtrancl_into_rtrancl)
qed simp

subsection \<open>Properties\<close>

definition sample_args :: "nat \<Rightarrow> publish_args" where
  "sample_args i = \<lparr>pa_ctx = Background, pa_key = ''push.bulk'', pa_msg = NewMessage sample_notification None\<rparr>"

lemma sample_solo:
  "\<exists>st. (publish_step sample_amqp (\<lambda>m. Inr (m_ID m)) \<lparr>pb_timeout = 5\<rparr> sample_args 0)\<^sup>*\<^sup>*
      (publishers_start (sample_broker True)) st \<and> mx_pc st = (\<lambda>_. PubEnter)(0 := PubDone None)"
proof -
  obtain s' where run: "Publisher_publish sample_amqp (\<lambda>m. Inr (m_ID m)) \<lparr>pb_timeout = 5\<rparr> (pa_ctx (sample_args 0))
      (pa_key (sample_args 0)) (pa_msg (sample_args 0)) (mx_broker (publishers_start (sample_broker True))) = (None, s')"
    by (simp add: Publisher_publish_def Let_def invoke_def sample_amqp_def sample_broker_def publishers_start_def)
  let ?st = "goes 0 (PubDone None) ((publishers_start (sample_broker True))\<lparr>mx_broker := s'\<rparr>)"
  have "(publish_step sample_amqp (\<lambda>m. Inr (m_ID m)) \<lparr>pb_timeout = 5\<rparr> sample_args 0)\<^sup>*\<^sup>* (publishers_start (sample_broker True)) ?st"
    by (rule solo_publish) (use run in \<open>simp_all add: publishers_start_def\<close>)
  then show ?thesis by (intro exI [of _ ?st]) (simp add: publishers_start_def)
qed

text \<open>C10. Publishes that run at once do not disturb each other: whatever the schedule and whatever the
  broker and the clock do, at most one goroutine is between the lock and the unlock, and the messages the
  broker has confirmed are those of the publishes whose result is nil, each exactly once; a publish
  that got an error has confirmed nothing.\<close>

theorem publishers_serialised:
  assumes "(publishers_step amqp marshal p args)\<^sup>*\<^sup>* (publishers_start s) st"
  shows "(\<forall>i j. in_section (mx_pc st i) \<and> in_section (mx_pc st j) \<longrightarrow> i = j)
    \<and> (\<exists>ids. distinct ids \<and> set ids = {i. nil_result (mx_pc st i)}
         \<and> (\<forall>i \<in> set ids. \<exists>body. marshal (pa_msg (args i)) = Inr body)
         \<and> confirmed (mx_broker st) = confirmed s @ map (\<lambda>i. message_of marshal (args i)) ids)"
proof -
  note inv = mutex.run_inv [OF assms start_inv]
  have "\<forall>i j. in_section (mx_pc st i) \<and> in_section (mx_pc st j) \<longrightarrow> i = j"
    using inv by (auto simp: mutex_inv_def)
  moreover have "\<exists>ids. distinct ids \<and> set ids = {i. nil_result (mx_pc st i)}
      \<and> confirmed (mx_broker st) = confirmed s @ map (\<lambda>i. message_of marshal (args i)) ids"
    "\<forall>i. nil_result (mx_pc st i) \<longrightarrow> (\<exists>body. marshal (pa_msg (args i)) = Inr body)"
    using inv unfolding calls_inv_def by blast+
  ultimately show ?thesis by (metis (mono_tags, lifting) mem_Collect_eq)
qed

theorem publishers_serialised_witness:
  "\<exists>st. (publishers_step sample_amqp (\<lambda>m. Inr (m_ID m)) \<lparr>pb_timeout = 5\<rparr> sample_args)\<^sup>*\<^sup>*
      (publishers_start (sample_broker True)) st \<and> confirmed (mx_broker st) = [(''push.bulk'', ''notif_1'')]"
proof -
  obtain st where st: "(publish_step sample_amqp (\<lambda>m. Inr (m_ID m)) \<lparr>pb_timeout = 5\<rparr> sample_args 0)\<^sup>*\<^sup>*
      (publishers_start (sample_broker True)) st" "mx_pc st = (\<lambda>_. PubEnter)(0 := PubDone None)"
    using sample_solo by blast
  have run: "(publishers_step sample_amqp (\<lambda>m. Inr (m_ID m)) \<lparr>pb_timeout = 5\<rparr> sample_args)\<^sup>*\<^sup>*
      (publishers_start (sample_broker True)) st"
    by (rule goroutine_run [OF st(1)])
  have "{i. nil_result (mx_pc st i)} = {0}" by (auto simp: st(2) nil_result_def)
  with publishers_serialised [OF run] obtain ids where "distinct ids" "set ids = {0}"
    "confirmed (mx_broker st) = confirmed (sample_broker True) @ map (\<lambda>i. message_of (\<lambda>m. Inr (m_ID m)) (sample_args i)) ids"
    by auto
  moreover from this(1,2) have "ids = [0]"
    by (cases ids) (auto simp: subset_singleton_iff)
  ultimately show ?thesis
    using run by (intro exI [of _ st])
      (simp add: sample_args_def message_of_def NewMessage_def sample_notification_def confirmed_def sample_broker_def)
qed

text \<open>C22. Every publish ends: \<open>n\<close> goroutines make at most five steps each, and where none of them can go on,
  all of them have returned; the mutex is never left locked.\<close>

theorem publishers_finish:
  assumes "(one_of amqp marshal p args n ^^ k) (publishers_start s) st"
  shows "k \<le> 5 * n \<and>
    ((\<nexists>st'. one_of amqp marshal p args n st st') \<longrightarrow> (\<forall>i < n. \<exists>res. mx_pc st i = PubDone res) \<and> mx_mu st = None)"
proof -
  have start: "mutex_inv marshal args (publishers_start s) \<and> (\<forall>j \<ge> n. mx_pc (publishers_start s) j = PubEnter)"
    using start_inv [of marshal args s] by (simp add: publishers_start_def)
  from bounded.run_inv [OF relpowp_imp_rtranclp [OF assms] start]
  have inv: "mutex_inv marshal args st" and run: "\<forall>j \<ge> n. mx_pc st j = PubEnter" by simp_all
  have "(\<forall>i < n. \<exists>res. mx_pc st i = PubDone res) \<and> mx_mu st = None" if stuck: "\<nexists>st'. one_of amqp marshal p args n st st'"
  proof -
    have "\<exists>res. mx_pc st i = PubDone res" if "i < n" for i
      using some_goroutine_steps [of marshal args st n i amqp p] inv run that stuck by (blast intro: one_ofI)
    note ended = this
    have "\<not> in_section (mx_pc st j)" for j
      using ended [of j] run by (cases "j < n") auto
    then have "mx_mu st \<noteq> Some j" for j using inv by (simp add: mutex_inv_def)
    with ended show ?thesis by (cases "mx_mu st") auto
  qed
  with bounded.run_bound [OF assms start] show ?thesis by (auto simp: publishers_start_def)
qed

theorem publishers_finish_witness:
  "\<exists>st. (one_of sample_amqp (\<lambda>m. Inl (External ''bad'')) \<lparr>pb_timeout = 5\<rparr> sample_args 1 ^^ 1) (publishers_start (sample_broker True)) st
    \<and> (\<exists>res. mx_pc st 0 = PubDone res) \<and> mx_mu st = None \<and> (1::nat) \<le> 5 * 1"
proof -
  let ?m = "\<lambda>m. Inl (External ''bad'')"
  obtain st where st: "publish_step sample_amqp ?m \<lparr>pb_timeout = 5\<rparr> sample_args 0 (publishers_start (sample_broker True)) st"
      "mx_pc st 0 = PubDone (Some (Errorf [Lit ''marshal notification '', Lit (m_ID (pa_msg (sample_args 0))), Lit '': '', Cause] (External ''bad'')))"
    using publish_step.marshal_err [of "publishers_start (sample_broker True)" 0 ?m sample_args "External ''bad''" sample_amqp "\<lparr>pb_timeout = 5\<rparr>"]
    by (fastforce simp: publishers_start_def)
  then have run: "(one_of sample_amqp ?m \<lparr>pb_timeout = 5\<rparr> sample_args 1 ^^ 1) (publishers_start (sample_broker True)) st"
    by (auto intro: one_ofI)
  have "\<nexists>st'. one_of sample_amqp ?m \<lparr>pb_timeout = 5\<rparr> sample_args 1 st st'"
    using st(2) by (auto simp: one_of_def elim!: publish_step.cases)
  with publishers_finish [OF run] run show ?thesis by auto
qed


text \<open>A broker that never confirms: the wait for a confirm ends at its deadline, no other call takes time.\<close>

definition hung_amqp :: "int amqp" where
  "hung_amqp =
    \<lparr>amqp_invoke = (\<lambda>call now. case call of
       WaitConfirm c \<Rightarrow>
         (RErr (External ''context deadline exceeded''), case ctx_deadline c of None \<Rightarrow> now | Some t \<Rightarrow> max now t)
     | _ \<Rightarrow> (ROk, now)),
     amqp_now = (\<lambda>now. now)\<rparr>"

text \<open>Three goroutines publish one message over it. The first has the lock and waits for the confirm until its
  deadline; the third, which entered just before that, gets the lock next and waits until its own.\<close>

definition hung_state ::
  "nat option \<Rightarrow> publish_pc \<Rightarrow> publish_pc \<Rightarrow> publish_pc \<Rightarrow> int \<Rightarrow> (amqp_call \<times> amqp_reply) list \<Rightarrow> int publishers" where
  "hung_state mu pc0 pc1 pc2 now calls =
    \<lparr>mx_mu = mu, mx_pc = (\<lambda>_. PubEnter)(0 := pc0, 1 := pc1, 2 := pc2), mx_broker = \<lparr>bk_env = now, bk_calls = calls\<rparr>\<rparr>"

definition hung_publish :: "ctx \<Rightarrow> amqp_call" where
  "hung_publish c = PublishDeferred c Exchange ''push.bulk'' False False (publishing (NewMessage sample_notification None) ''notif_1'')"

definition hung_result :: "go_error option" where
  "hung_result = Some (Errorf [Lit ''await confirm for notification '', Lit ''notif_1'', Lit '': '', Cause] (External ''context deadline exceeded''))"

abbreviation ctx_first :: ctx where "ctx_first \<equiv> \<lparr>ctx_deadline = Some DefaultPublishTimeout\<rparr>"
abbreviation ctx_third :: ctx where "ctx_third \<equiv> \<lparr>ctx_deadline = Some (2 * DefaultPublishTimeout - 1)\<rparr>"
abbreviation hung_lock :: "ctx \<Rightarrow> publish_pc" where "hung_lock c \<equiv> PubLock c ''notif_1''"
abbreviation hung_calls :: "ctx \<Rightarrow> (amqp_call \<times> amqp_reply) list" where
  "hung_calls c \<equiv> [(hung_publish c, ROk), (WaitConfirm c, RErr (External ''context deadline exceeded''))]"

abbreviation hung_step :: "int publishers \<Rightarrow> int publishers \<Rightarrow> bool" where
  "hung_step \<equiv> publishers_step hung_amqp (\<lambda>m. Inr (m_ID m)) \<lparr>pb_timeout = DefaultPublishTimeout\<rparr> sample_args"

lemma hung_go:
  "publish_step hung_amqp (\<lambda>m. Inr (m_ID m)) \<lparr>pb_timeout = DefaultPublishTimeout\<rparr> sample_args i st st' \<Longrightarrow> hung_step st st'"
  by (rule publishers_step.goroutine)

lemmas hung_defs = publish_step.simps hung_state_def fun_eq_iff sample_args_def hung_amqp_def invoke_def WithTimeout_def Background_def
  hung_publish_def hung_result_def NewMessage_def sample_notification_def DefaultPublishTimeout_def

text \<open>Up to the moment before the deadline of the first.\<close>

lemma hung_first:
  "hung_step\<^sup>*\<^sup>* (hung_state None PubEnter PubEnter PubEnter 0 [])
    (hung_state (Some 0) (PubWait ctx_first ''notif_1'') (hung_lock ctx_first) (hung_lock ctx_third) (DefaultPublishTimeout - 1)
      [(hung_publish ctx_first, ROk)])"
proof -
  let ?L = "hung_lock ctx_first" and ?W = "PubWait ctx_first ''notif_1''" and ?h = "[(hung_publish ctx_first, ROk)]"
  have "hung_step (hung_state None PubEnter PubEnter PubEnter 0 []) (hung_state None ?L PubEnter PubEnter 0 [])"
    "hung_step (hung_state None ?L PubEnter PubEnter 0 []) (hung_state None ?L ?L PubEnter 0 [])"
    "hung_step (hung_state None ?L ?L PubEnter 0 []) (hung_state (Some 0) (PubSend ctx_first ''notif_1'') ?L PubEnter 0 [])"
    "hung_step (hung_state (Some 0) (PubSend ctx_first ''notif_1'') ?L PubEnter 0 []) (hung_state (Some 0) ?W ?L PubEnter 0 ?h)"
    by (rule hung_go [of 0], force simp: hung_defs) (rule hung_go [of 1], force simp: hung_defs,
        (rule hung_go [of 0], force simp: hung_defs)+)
  moreover have "hung_step (hung_state (Some 0) ?W ?L PubEnter 0 ?h) (hung_state (Some 0) ?W ?L PubEnter (DefaultPublishTimeout - 1) ?h)"
    by (auto simp: publishers_step.simps hung_state_def)
  moreover have "hung_step (hung_state (Some 0) ?W ?L PubEnter (DefaultPublishTimeout - 1) ?h)
      (hung_state (Some 0) ?W ?L (hung_lock ctx_third) (DefaultPublishTimeout - 1) ?h)"
    by (rule hung_go [of 2]) (force simp: hung_defs)
  ultimately show ?thesis
    by (meson converse_rtranclp_into_rtranclp r_into_rtranclp)
qed

text \<open>The third takes the lock, while the second still waits for it.\<close>

lemma hung_third:
  "hung_step\<^sup>*\<^sup>*
    (hung_state (Some 0) (PubWait ctx_first ''notif_1'') (hung_lock ctx_first) (hung_lock ctx_third) (DefaultPublishTimeout - 1)
      [(hung_publish ctx_first, ROk)])
    (hung_state (Some 2) (PubDone hung_result) (hung_lock ctx_first) (PubUnlock hung_result) (2 * DefaultPublishTimeout - 1)
      (hung_calls ctx_first @ hung_calls ctx_third))"
proof -
  let ?L = "hung_lock ctx_first" and ?T = DefaultPublishTimeout and ?h = "hung_calls ctx_first"
  have "hung_step (hung_state (Some 0) (PubWait ctx_first ''notif_1'') ?L (hung_lock ctx_third) (?T - 1) [(hung_publish ctx_first, ROk)])
      (hung_state (Some 0) (PubUnlock hung_result) ?L (hung_lock ctx_third) ?T ?h)"
    "hung_step (hung_state (Some 0) (PubUnlock hung_result) ?L (hung_lock ctx_third) ?T ?h)
      (hung_state None (PubDone hung_result) ?L (hung_lock ctx_third) ?T ?h)"
    by (rule hung_go [of 0], force simp: hung_defs)+
  moreover have "hung_step (hung_state None (PubDone hung_result) ?L (hung_lock ctx_third) ?T ?h)
      (hung_state (Some 2) (PubDone hung_result) ?L (PubSend ctx_third ''notif_1'') ?T ?h)"
    "hung_step (hung_state (Some 2) (PubDone hung_result) ?L (PubSend ctx_third ''notif_1'') ?T ?h)
      (hung_state (Some 2) (PubDone hung_result) ?L (PubWait ctx_third ''notif_1'') ?T (?h @ [(hung_publish ctx_third, ROk)]))"
    "hung_step (hung_state (Some 2) (PubDone hung_result) ?L (PubWait ctx_third ''notif_1'') ?T (?h @ [(hung_publish ctx_third, ROk)]))
      (hung_state (Some 2) (PubDone hung_result) ?L (PubUnlock hung_result) (2 * ?T - 1) (?h @ hung_calls ctx_third))"
    by (rule hung_go [of 2], force simp: hung_defs)+
  ultimately show ?thesis
    by (meson converse_rtranclp_into_rtranclp r_into_rtranclp)
qed

text \<open>C38. The deadline of a publish does not bound its wait for the lock, even when every call of the library
  honours the deadline it is given: a goroutine can still wait for the mutex, with nothing done, almost
  another timeout after its own deadline has passed.\<close>

theorem lock_wait_past_deadline:
  "\<exists>st body.
    (publishers_step hung_amqp (\<lambda>m. Inr (m_ID m)) \<lparr>pb_timeout = DefaultPublishTimeout\<rparr> sample_args)\<^sup>*\<^sup>*
      (publishers_start \<lparr>bk_env = 0, bk_calls = []\<rparr>) st
    \<and> mx_pc st 1 = PubLock \<lparr>ctx_deadline = Some DefaultPublishTimeout\<rparr> body
    \<and> amqp_now hung_amqp (bk_env (mx_broker st)) = 2 * DefaultPublishTimeout - 1"
proof -
  have "hung_state None PubEnter PubEnter PubEnter 0 [] = publishers_start \<lparr>bk_env = 0, bk_calls = []\<rparr>"
    by (simp add: publishers_start_def hung_state_def fun_eq_iff)
  with rtranclp_trans [OF hung_first hung_third] show ?thesis
    by (intro exI conjI) (simp, simp add: hung_state_def, simp add: hung_state_def hung_amqp_def)
qed

end
