(* ===== verification/Http_System.thy ===== *)
theory Http_System
  imports Openapi
begin

text \<open>
  The HTTP interface of an API process over the whole system: the body of a request is bound
  by the strict server, which calls the handler over the repository and the publisher of the
  process, and the reply is what the response writer has committed when the error handler is
  done. A post is a step of \<open>System\<close>, a batch is a run of it, so that what is shown
  of the system holds for what clients send and are told. The error Echo makes of a body
  that cannot be read is \<open>bad\<close>.
\<close>

subsection \<open>Requests to a process\<close>

definition bind_body :: "(string \<Rightarrow> go_error) \<Rightarrow> (string \<Rightarrow> 'r option) \<Rightarrow> string \<Rightarrow> 'r result" where
  "bind_body bad dec body = (case dec body of None \<Rightarrow> Inl (bad body) | Some r \<Rightarrow> Inr r)"

text \<open>The strict server of a process in a deployment, and what the client gets: nothing when the handler
  has panicked.\<close>

definition process_server ::
  "('x, 'h, 'w, 'o, 'd) deployment \<Rightarrow> (string \<Rightarrow> string) \<Rightarrow> string \<Rightarrow> int \<Rightarrow> (nat \<Rightarrow> string \<times> int) \<Rightarrow> ctx
    \<Rightarrow> 'w broker strictHandler" where
  "process_server D q uuid now draw c =
    strict_server q (dp_parse D) (dp_repo D) (Publisher_Publish (dp_amqp D) (marshal_in D) (dp_publisher D)) uuid now draw c"

definition answered ::
  "encoders \<Rightarrow> (string \<Rightarrow> string) \<Rightarrow> string \<Rightarrow> go_error option option \<times> (writer \<times> 'w) \<Rightarrow> writer \<times> 'w" where
  "answered enc q path result =
    (case result of
       (None, s) \<Rightarrow> (None, snd s)
     | (Some err, s) \<Rightarrow> (handle_error enc q path (err, fst s), snd s))"

definition post_notification ::
  "('x, 'h, 'w, 'o, 'd) deployment \<Rightarrow> encoders \<Rightarrow> (string \<Rightarrow> string) \<Rightarrow> (string \<Rightarrow> go_error) \<Rightarrow> string \<Rightarrow> int
    \<Rightarrow> (nat \<Rightarrow> string \<times> int) \<Rightarrow> ctx \<Rightarrow> string \<Rightarrow> 'w broker \<Rightarrow> writer \<times> 'w broker" where
  "post_notification D enc q bad uuid now draw c body b =
    answered enc q ''/api/v1/notifications''
      (wrapper_SendNotification enc (process_server D q uuid now draw c)
        (bind_body bad (Decode_SendNotification (dp_floats D)) body) (None, b))"

definition post_batch ::
  "('x, 'h, 'w, 'o, 'd) deployment \<Rightarrow> encoders \<Rightarrow> (string \<Rightarrow> string) \<Rightarrow> (string \<Rightarrow> go_error) \<Rightarrow> string \<Rightarrow> int
    \<Rightarrow> (nat \<Rightarrow> string \<times> int) \<Rightarrow> ctx \<Rightarrow> string \<Rightarrow> 'w broker \<Rightarrow> writer \<times> 'w broker" where
  "post_batch D enc q bad uuid now draw c body b =
    answered enc q ''/api/v1/notifications/batch''
      (wrapper_SendNotificationBatch enc (process_server D q uuid now draw c)
        (bind_body bad (Decode_SendNotificationBatch (dp_floats D)) body) (None, b))"

text \<open>The state of the system after a process \<open>i\<close> has run \<open>Service_Send\<close>.\<close>

definition after_send ::
  "('x, 'h, 'w, 'o, 'd) deployment \<Rightarrow> string \<Rightarrow> int \<Rightarrow> SendRequest \<Rightarrow> SendResponse result \<Rightarrow> nat \<Rightarrow> 'w broker
    \<Rightarrow> ('w, 'o, 'd) system \<Rightarrow> ('w, 'o, 'd) system" where
  "after_send D uuid now req res i b s =
    s\<lparr>sy_apis := (sy_apis s)(i := b),
      sy_held := sy_held s + mset (new_confirmed (sy_apis s i) b),
      sy_accepted := sy_accepted s @ accepted_message D uuid now req res\<rparr>"

definition after_post ::
  "('x, 'h, 'w, 'o, 'd) deployment \<Rightarrow> string \<Rightarrow> int \<Rightarrow> ctx \<Rightarrow> SendNotificationRequest \<Rightarrow> nat \<Rightarrow> ('w, 'o, 'd) system \<Rightarrow> ('w, 'o, 'd) system" where
  "after_post D uuid now c r i s =
    (let (res, b) = api_send D uuid now c (toSendRequest r) (sy_apis s i) in after_send D uuid now (toSendRequest r) res i b s)"

text \<open>Every template has an ID in UTF-8, as the names of template files are.\<close>

definition utf8_names :: "('x, 'h, 'w, 'o, 'd) deployment \<Rightarrow> bool" where
  "utf8_names D \<longleftrightarrow> (\<forall>tid t tmpl. Service_Resolve (dp_repo D) tid t = Inr tmpl \<longrightarrow> utf8_valid (t_ID tmpl))"

subsection \<open>A request is a step\<close>

lemma send_is_step:
  assumes "api_send D uuid now c req (sy_apis s i) = (res, b)" "json_request D uuid now req"
  shows "sys_step D s (after_send D uuid now req res i b s)"
  using sys_step.send [OF assms, of "{#}"] by (simp add: after_send_def)

lemma decoded_json_request:
  assumes "floats_ok (dp_floats D)" "utf8_names D" "utf8_valid uuid" "request_ok (maxNestingDepth - 1) r"
  shows "json_request D uuid now (toSendRequest r)"
  unfolding json_request_def
  using request_ok_transportable [OF assms(4,3)] assms(2) by (auto simp: utf8_names_def)

lemma Handler_send_api:
  assumes "Handler_send (dp_parse D) (dp_repo D) (Publisher_Publish (dp_amqp D) (marshal_in D) (dp_publisher D)) uuid now c r b = (res, b')"
  obtains sent where "api_send D uuid now c (toSendRequest r) b = (sent, b')"
    "res = (case sent of Inl err \<Rightarrow> Inl err | Inr resp \<Rightarrow> Inr \<lparr>na_Id = sp_ID resp, na_Status = Pending, na_CreatedAt = sp_CreatedAt resp\<rparr>)"
  using assms by (auto simp: Handler_send_def api_send_def split: prod.splits sum.splits)

lemma post_notification_run:
  assumes "Decode_SendNotification (dp_floats D) body = Some r"
    and "post_notification D enc q bad uuid now draw c body b = (reply, b')"
  obtains result where "strict_SendNotification enc (dp_parse D) (dp_repo D)
      (Publisher_Publish (dp_amqp D) (marshal_in D) (dp_publisher D)) uuid now c (Inr r) None b = (result, b')"
    "reply = handle_error enc q ''/api/v1/notifications'' result"
  using assms
  by (auto simp: post_notification_def wrapper_SendNotification_def process_server_def bind_body_def answered_def
      direct_SendNotification split: prod.splits)


lemma post_batch_run:
  assumes "Decode_SendNotificationBatch (dp_floats D) body = Some rs"
    and "post_batch D enc q bad uuid now draw c body b = (reply, b')"
  obtains results where "batch_loop q (dp_parse D) (dp_repo D)
      (Publisher_Publish (dp_amqp D) (marshal_in D) (dp_publisher D)) draw c 0 rs b = (results, b')"
    "reply = handle_error enc q ''/api/v1/notifications/batch'' (VisitSendNotificationBatchResponse enc results None)"
  using assms
  by (auto simp: post_batch_def wrapper_SendNotificationBatch_def process_server_def bind_body_def answered_def
      direct_SendNotificationBatch strict_SendNotificationBatch_def Handler_SendNotificationBatch_def split: prod.splits)

lemma strict_send_api:
  assumes "strict_SendNotification enc (dp_parse D) (dp_repo D)
      (Publisher_Publish (dp_amqp D) (marshal_in D) (dp_publisher D)) uuid now c (Inr r) None b = (result, b')"
  obtains sent where "api_send D uuid now c (toSendRequest r) b = (sent, b')"
    "result = (case sent of Inl err \<Rightarrow> (Some err, None)
       | Inr resp \<Rightarrow> VisitSendNotificationResponse enc \<lparr>na_Id = sp_ID resp, na_Status = Pending, na_CreatedAt = sp_CreatedAt resp\<rparr> None)"
  using assms
  by (auto simp: strict_SendNotification_def Handler_SendNotification_def Handler_send_def api_send_def split: prod.splits sum.splits)

lemma accepted_ids:
  assumes "api_send D uuid now c req b = (sent, b')"
  shows "map m_ID (accepted_message D uuid now req sent) = (case sent of Inl _ \<Rightarrow> [] | Inr resp \<Rightarrow> [sp_ID resp])"
  using assms [unfolded api_send_def]
proof (cases rule: Service_Send_cases)
  case (published tmpl r)
  then show ?thesis by (cases r) (simp_all add: accepted_message_def request_message_def)
qed (simp_all add: accepted_message_def)

text \<open>Of several requests one after another, the system takes as many steps.\<close>

lemma batch_is_run:
  assumes ok: "floats_ok (dp_floats D)" "utf8_names D" "\<forall>k. utf8_valid (fst (draw k))"
    and "\<And>r. r \<in> set rs \<Longrightarrow> request_ok (maxNestingDepth - 1) r"
    and "batch_loop q (dp_parse D) (dp_repo D) (Publisher_Publish (dp_amqp D) (marshal_in D) (dp_publisher D)) draw c k rs (sy_apis s i)
      = (results, b)"
  shows "(\<exists>s' ms. (sys_step D ^^ length rs) s s' \<and> sy_apis s' = (sy_apis s)(i := b) \<and> sy_workers s' = sy_workers s
    \<and> sy_accepted s' = sy_accepted s @ ms
    \<and> map m_ID ms = map na_Id (List.map_filter bi_Notification results))
    \<and> map bi_Index results = [k..<k + length rs]"
  using assms(4,5)
proof (induction rs arbitrary: k s results)
  case Nil
  then show ?case by (intro conjI exI [of _ s] exI [of _ "[]"]) (auto simp: map_filter_simps)
next
  case (Cons r rs)
  let ?publish = "Publisher_Publish (dp_amqp D) (marshal_in D) (dp_publisher D)"
  obtain res b1 where send: "Handler_send (dp_parse D) (dp_repo D) ?publish (fst (draw k)) (snd (draw k)) c r (sy_apis s i) = (res, b1)"
    by fastforce
  obtain rest b2 where loop: "batch_loop q (dp_parse D) (dp_repo D) ?publish draw c (Suc k) rs b1 = (rest, b2)" by fastforce
  from send obtain sent where sent: "api_send D (fst (draw k)) (snd (draw k)) c (toSendRequest r) (sy_apis s i) = (sent, b1)"
      "res = (case sent of Inl err \<Rightarrow> Inl err | Inr resp \<Rightarrow> Inr \<lparr>na_Id = sp_ID resp, na_Status = Pending, na_CreatedAt = sp_CreatedAt resp\<rparr>)"
    by (rule Handler_send_api)
  define s1 where "s1 = after_send D (fst (draw k)) (snd (draw k)) (toSendRequest r) sent i b1 s"
  have req: "json_request D (fst (draw k)) (snd (draw k)) (toSendRequest r)"
    using decoded_json_request [OF ok(1,2)] ok(3) Cons.prems(1) by simp
  from send_is_step [OF sent(1) req] have step: "sys_step D s s1" by (simp add: s1_def)
  have s1: "sy_apis s1 = (sy_apis s)(i := b1)" "sy_workers s1 = sy_workers s"
    "sy_accepted s1 = sy_accepted s @ accepted_message D (fst (draw k)) (snd (draw k)) (toSendRequest r) sent"
    by (simp_all add: s1_def after_send_def)
  from Cons.prems(2) send loop have results: "results =
      (case res of Inl err \<Rightarrow> \<lparr>bi_Index = k, bi_Error = Some (snd (MapError q err)), bi_Notification = None\<rparr>
         | Inr a \<Rightarrow> \<lparr>bi_Index = k, bi_Error = None, bi_Notification = Some a\<rparr>) # rest" and b: "b2 = b"
    by (simp_all add: Let_def)
  have "batch_loop q (dp_parse D) (dp_repo D) ?publish draw c (Suc k) rs (sy_apis s1 i) = (rest, b)"
    using loop b by (simp add: s1(1))
  from Cons.IH [OF _ this] Cons.prems(1) obtain s' ms where s': "(sys_step D ^^ length rs) s1 s'" "sy_apis s' = (sy_apis s1)(i := b)"
    "sy_workers s' = sy_workers s1" "sy_accepted s' = sy_accepted s1 @ ms" "map m_ID ms = map na_Id (List.map_filter bi_Notification rest)"
    and rest: "map bi_Index rest = [Suc k..<Suc k + length rs]"
    by (metis list.set_intros(2))
  have "map bi_Index results = [k..<k + length (r # rs)]"
    using rest results by (cases res) (simp_all add: upt_conv_Cons del: upt_Suc)
  moreover have "(sys_step D ^^ length (r # rs)) s s'" using relpowp_Suc_I2 [of "sys_step D", OF step s'(1)] by simp
  moreover have "map m_ID (accepted_message D (fst (draw k)) (snd (draw k)) (toSendRequest r) sent @ ms)
      = map na_Id (List.map_filter bi_Notification results)"
    using accepted_ids [OF sent(1)] s'(5) sent(2) results by (cases sent) (simp_all add: map_filter_simps)
  ultimately show ?case
    using s'(2-4) s1 by (intro conjI exI [of _ s'] exI) (assumption | simp)+
qed


lemma sys_step_accepted: "sys_step D s s' \<Longrightarrow> \<exists>new. sy_accepted s' = sy_accepted s @ new"
  by (induction rule: sys_step.induct) auto

interpretation kept: stepping "sys_step D" "\<lambda>s. reachable D s \<and> m \<in> set (sy_accepted s)"
  for D :: "('x, 'h, 'w, 'o, 'd) deployment" and m
proof unfold_locales
  fix s s' assume "reachable D s \<and> m \<in> set (sy_accepted s)" "sys_step D s s'"
  then show "reachable D s' \<and> m \<in> set (sy_accepted s')"
    using sys_step_accepted [of D s s'] by (auto intro: reachable.step)
qed

subsection \<open>Properties\<close>

text \<open>C16. Every post of a notification that can be read is a step of the system: the API process runs \<open>Service_Send\<close> on
  the request, whose message can travel, and the reply is 202 with the JSON of an acceptance, or an
  error. So what holds of the system holds for what clients send.\<close>

theorem post_is_step:
  assumes "floats_ok (dp_floats D)" "utf8_names D" "utf8_valid uuid"
    and "Decode_SendNotification (dp_floats D) body = Some r"
    and "post_notification D enc q bad uuid now draw c body (sy_apis s i) = (reply, b)"
  shows "sys_step D s (after_post D uuid now c r i s) \<and> sy_apis (after_post D uuid now c r i s) i = b
    \<and> reply = handle_error enc q ''/api/v1/notifications''
       (case fst (api_send D uuid now c (toSendRequest r) (sy_apis s i)) of
          Inl err \<Rightarrow> (Some err, None)
        | Inr resp \<Rightarrow> visit enc 202 (enc_Accepted enc \<lparr>na_Id = uuid, na_Status = Pending, na_CreatedAt = now\<rparr>) None)"
proof -
  obtain result where run: "strict_SendNotification enc (dp_parse D) (dp_repo D)
      (Publisher_Publish (dp_amqp D) (marshal_in D) (dp_publisher D)) uuid now c (Inr r) None (sy_apis s i) = (result, b)"
    and reply: "reply = handle_error enc q ''/api/v1/notifications'' result"
    using assms(4,5) by (rule post_notification_run)
  from run obtain res where res: "api_send D uuid now c (toSendRequest r) (sy_apis s i) = (res, b)"
    "result = (case res of Inl err \<Rightarrow> (Some err, None)
       | Inr resp \<Rightarrow> VisitSendNotificationResponse enc \<lparr>na_Id = sp_ID resp, na_Status = Pending, na_CreatedAt = sp_CreatedAt resp\<rparr> None)"
    by (rule strict_send_api)
  have "resp = \<lparr>sp_ID = uuid, sp_Status = StatusPending, sp_CreatedAt = now\<rparr>" if "res = Inr resp" for resp
    using res(1) [unfolded api_send_def] that by (cases rule: Service_Send_cases) (auto split: option.splits)
  moreover have "json_request D uuid now (toSendRequest r)"
    using decoded_json_request [OF assms(1-3)] Decode_SendNotification_ok [OF assms(1,4)] by blast
  note send_is_step [OF res(1) this]
  ultimately show ?thesis
    using res reply by (auto simp: after_post_def after_send_def VisitSendNotificationResponse_def split: sum.split)
qed

text \<open>A process for the examples, and the body of a request it accepts.\<close>

definition sample_post :: string where
  \<open>sample_post = ''{"recipient":{"email":"user@example.com"},"type":"email"}''\<close>

lemma sample_post_decodes: "Decode_SendNotification sample_floats sample_post = Some sample_api_request"
proof -
  let ?j = "JObj [(''recipient'', JObj [(''email'', JStr ''user@example.com'')]), (''type'', JStr ''email'')]"
  have "fst (the (parse_value (2 * length sample_post + 2) maxNestingDepth sample_post)) = ?j
      \<and> parse_value (2 * length sample_post + 2) maxNestingDepth sample_post \<noteq> None"
    by code_simp
  then have "\<exists>rest. parse_value (2 * length sample_post + 2) maxNestingDepth sample_post = Some (?j, rest)"
    by (metis option.collapse prod.collapse)
  moreover have "unquote ''type'' = ''type''" "unquote ''recipient'' = ''recipient''" "unquote ''email'' = ''email''"
    "unquote ''user@example.com'' = ''user@example.com''"
    by (intro unquote_plain; simp)+
  ultimately show ?thesis
    by (auto simp: Decode_SendNotification_def Decode_def decode_SendNotificationRequest_def field_name_def decode_ptr_def
        decode_api_Recipient_def store_api_Recipient_def zero_SendNotificationRequest_def sample_api_request_def
        store_SendNotificationRequest_def decode_string_def simp del: parse_value.simps)
qed

lemma sample_utf8_names: "utf8_names sample_deployment"
  by (auto simp: utf8_names_def sample_deployment_def Service_Resolve_def file_Repository_def FileRepository_Get_def
      FileRepository_GetDefault_def type_map_def sample_repository_def sample_default_def sample_welcome_def
      Template_New_def utf8_valid_ascii split: if_splits option.splits)

lemma sample_deployment_fields [simp]:
  "dp_floats sample_deployment = sample_floats" "dp_parse sample_deployment = Some"
  "dp_repo sample_deployment = file_Repository sample_iteration sample_repository"
  "dp_amqp sample_deployment = steady_amqp" "dp_publisher sample_deployment = sample_publisher"
  by (simp_all add: sample_deployment_def)

lemma sample_system_api: "sy_apis sample_system i = idle_broker"
  by (simp add: sample_system_def)

lemma sample_posted:
  "\<exists>buf b. post_notification sample_deployment sample_api_encoders (\<lambda>s. s) (\<lambda>_. codec_error) ''n1'' 7 (\<lambda>_. (''n'', 7)) Background
      sample_post idle_broker = (Some (202, buf), b)"
proof -
  obtain b where send: "Service_Send Some (file_Repository sample_iteration sample_repository)
      (Publisher_Publish steady_amqp (Marshal_Message sample_floats) sample_publisher) ''n1'' 7 Background sample_request idle_broker
      = (Inr \<lparr>sp_ID = ''n1'', sp_Status = StatusPending, sp_CreatedAt = 7\<rparr>, b)"
    using sample_api_send by (auto simp: api_send_def)
  obtain time where "FormatTime 7 = Some time" using FormatTime_Some [of 7] by (auto simp: writable_time_def)
  then obtain buf where "enc_Accepted sample_api_encoders \<lparr>na_Id = ''n1'', na_Status = Pending, na_CreatedAt = 7\<rparr> = Inr buf"
    by (simp add: sample_api_encoders_def api_encoders_def json_NotificationAccepted_Some Encode_def)
  then show ?thesis
    by (simp add: post_notification_def bind_body_def sample_post_decodes wrapper_SendNotification_def process_server_def
        direct_SendNotification strict_SendNotification_def Handler_SendNotification_def Handler_send_def sample_toSendRequest send
        VisitSendNotificationResponse_def visit_def answered_def)
qed


theorem post_is_step_witness:
  "\<exists>buf b. post_notification sample_deployment sample_api_encoders (\<lambda>s. s) (\<lambda>_. codec_error) ''n1'' 7 (\<lambda>_. (''n'', 7)) Background
      sample_post (sy_apis sample_system 0) = (Some (202, buf), b)
    \<and> sys_step sample_deployment sample_system (after_post sample_deployment ''n1'' 7 Background sample_api_request 0 sample_system)"
proof -
  obtain buf b where run: "post_notification sample_deployment sample_api_encoders (\<lambda>s. s) (\<lambda>_. codec_error) ''n1'' 7
      (\<lambda>_. (''n'', 7)) Background sample_post (sy_apis sample_system 0) = (Some (202, buf), b)"
    using sample_posted by (auto simp: sample_system_api)
  have "utf8_valid ''n1''" "Decode_SendNotification (dp_floats sample_deployment) sample_post = Some sample_api_request"
    by (simp_all add: sample_post_decodes utf8_valid_ascii)
  from post_is_step [OF sample_deployment_floats sample_utf8_names this run] run show ?thesis by blast
qed

text \<open>C17. A batch that can be read is a run of the system, one step for each of its requests, in their order; the
  reply is that of the results of its items, and the notifications accepted by the run are those the
  results report, in order.\<close>

theorem post_batch_is_run:
  assumes "floats_ok (dp_floats D)" "utf8_names D" "\<forall>k. utf8_valid (fst (draw k))"
    and "Decode_SendNotificationBatch (dp_floats D) body = Some rs"
    and "post_batch D enc q bad uuid now draw c body (sy_apis s i) = (reply, b)"
  shows "\<exists>s' ms results. (sys_step D ^^ length rs) s s' \<and> sy_apis s' = (sy_apis s)(i := b) \<and> sy_workers s' = sy_workers s
    \<and> sy_accepted s' = sy_accepted s @ ms \<and> map m_ID ms = map na_Id (List.map_filter bi_Notification results)
    \<and> map bi_Index results = [0..<length rs]
    \<and> reply = handle_error enc q ''/api/v1/notifications/batch'' (VisitSendNotificationBatchResponse enc results None)"
proof -
  obtain results where run: "batch_loop q (dp_parse D) (dp_repo D)
      (Publisher_Publish (dp_amqp D) (marshal_in D) (dp_publisher D)) draw c 0 rs (sy_apis s i) = (results, b)"
    and "reply = handle_error enc q ''/api/v1/notifications/batch'' (VisitSendNotificationBatchResponse enc results None)"
    using assms(4,5) by (rule post_batch_run)
  with batch_is_run [OF assms(1-3) Decode_SendNotificationBatch_ok [OF assms(1,4)] run] show ?thesis by auto
qed

definition sample_batch_post :: string where
  \<open>sample_batch_post = ''{"notifications":[{"type":"email"},{"type":"sms"}]}''\<close>

lemma sample_batch_decodes: "\<exists>r r'. Decode_SendNotificationBatch sample_floats sample_batch_post = Some [r, r']"
proof -
  let ?j = "JObj [(''notifications'', JArr [JObj [(''type'', JStr ''email'')], JObj [(''type'', JStr ''sms'')]])]"
  have "fst (the (parse_value (2 * length sample_batch_post + 2) maxNestingDepth sample_batch_post)) = ?j
      \<and> parse_value (2 * length sample_batch_post + 2) maxNestingDepth sample_batch_post \<noteq> None"
    by code_simp
  then have "\<exists>rest. parse_value (2 * length sample_batch_post + 2) maxNestingDepth sample_batch_post = Some (?j, rest)"
    by (metis option.collapse prod.collapse)
  moreover have "unquote ''type'' = ''type''" "unquote ''notifications'' = ''notifications''" "unquote ''email'' = ''email''"
    "unquote ''sms'' = ''sms''"
    by (intro unquote_plain; simp)+
  ultimately show ?thesis
    by (auto simp: Decode_SendNotificationBatch_def Decode_def decode_SendNotificationBatchRequest_def field_name_def
        decode_slice_def decode_SendNotificationRequest_def store_SendNotificationRequest_def decode_string_def
        simp del: parse_value.simps)
qed

theorem post_batch_is_run_witness:
  "\<exists>s' ms (results :: BatchItemResult list). (sys_step sample_deployment ^^ 2) sample_system s' \<and> sy_accepted s' = ms
    \<and> map m_ID ms = map na_Id (List.map_filter bi_Notification results) \<and> map bi_Index results = [0, 1]"
proof -
  obtain r r' where decoded: "Decode_SendNotificationBatch (dp_floats sample_deployment) sample_batch_post = Some [r, r']"
    using sample_batch_decodes by auto
  obtain reply b where run: "post_batch sample_deployment sample_api_encoders (\<lambda>s. s) (\<lambda>_. codec_error) ''n1'' 7 (\<lambda>_. (''n'', 7))
      Background sample_batch_post (sy_apis sample_system 0) = (reply, b)"
    by fastforce
  have "\<forall>k. utf8_valid (fst ((\<lambda>_. (''n'', 7 :: int)) (k :: nat)))" by (simp add: utf8_valid_ascii)
  note steps = post_batch_is_run [OF sample_deployment_floats sample_utf8_names this decoded run]
  have "length [r, r'] = 2" "[0..<2] = [0, 1 :: nat]" "sy_accepted sample_system = []"
    by simp (simp_all add: numeral_2_eq_2 sample_system_def)
  from steps [unfolded this append_Nil] show ?thesis by (elim exE conjE, intro exI conjI) assumption+
qed



end
