(* ===== verification/Api_Main.thy ===== *)
theory Api_Main
  imports Rest_Server Pipeline
begin

text \<open>
  cmd/api/main.go: the steps of \<open>main\<close> in their order, each of which ends the process on an error,
  the server that is assembled over the repository and the publisher, serving until a
  signal, and the shutdown. What the clients do to the broker in the meantime is an argument; it is
  what \<open>System\<close> and \<open>Http_System\<close> are about.
\<close>

subsection \<open>The main function\<close>

record ('w, 's) api_process =
  ap_Server :: "'s echo"
  ap_Addr :: string
  ap_Handler :: "'w broker Handler"
  ap_Conn :: Connection

definition api_start ::
  "(string \<Rightarrow> string) \<Rightarrow> filesystem \<Rightarrow> (string \<Rightarrow> frontMatter result) \<Rightarrow> iteration \<Rightarrow> 'w amqp \<Rightarrow> (Message \<Rightarrow> string result)
    \<Rightarrow> ((string \<Rightarrow> string result) \<Rightarrow> string \<Rightarrow> 's result) \<Rightarrow> (string \<Rightarrow> string) \<Rightarrow> (unit \<Rightarrow> string result) \<Rightarrow> logger
    \<Rightarrow> 'w broker \<Rightarrow> ('w, 's) api_process result \<times> 'w broker" where
  "api_start getenv fs yaml it amqp marshal load clean rawSpec logger s =
    (case LoadAPI getenv of
       Inl err \<Rightarrow> (Inl err, s)
     | Inr cfg \<Rightarrow>
    (case NewFileRepository fs yaml (api_TemplatesDir cfg) of
       Inl err \<Rightarrow> (Inl err, s)
     | Inr templateRepo \<Rightarrow>
    (case Dial amqp (api_RabbitURL cfg) s of
       (Inl err, s) \<Rightarrow> (Inl err, s)
     | (Inr conn, s) \<Rightarrow>
    (case NewPublisher amqp [] s of
       (Inl err, s) \<Rightarrow> (Inl err, s)
     | (Inr pub, s) \<Rightarrow>
    (case NewServer load clean rawSpec logger of
       Inl err \<Rightarrow> (Inl err, s)
     | Inr server \<Rightarrow>
        (let tmplSvc = NewTemplateService (file_Repository it templateRepo);
             notifSvc = NewService (Publisher_Publish amqp marshal pub) tmplSvc
         in (Inr \<lparr>ap_Server = server, ap_Addr = api_Addr cfg, ap_Handler = Handler_New notifSvc tmplSvc, ap_Conn = conn\<rparr>, s)))))))"

text \<open>\<open>start_err\<close> is the error \<open>server.Start\<close> returned before a signal came, if it returned one.\<close>

definition api_main ::
  "(string \<Rightarrow> string) \<Rightarrow> filesystem \<Rightarrow> (string \<Rightarrow> frontMatter result) \<Rightarrow> iteration \<Rightarrow> 'w amqp \<Rightarrow> (Message \<Rightarrow> string result)
    \<Rightarrow> ((string \<Rightarrow> string result) \<Rightarrow> string \<Rightarrow> 's result) \<Rightarrow> (string \<Rightarrow> string) \<Rightarrow> (unit \<Rightarrow> string result) \<Rightarrow> logger
    \<Rightarrow> (('w, 's) api_process \<Rightarrow> 'w broker \<Rightarrow> 'w broker) \<Rightarrow> (go_error \<Rightarrow> bool) \<Rightarrow> go_error option
    \<Rightarrow> (ctx \<Rightarrow> go_error option) \<Rightarrow> int \<Rightarrow> 'w broker \<Rightarrow> exit \<times> 'w broker" where
  "api_main getenv fs yaml it amqp marshal load clean rawSpec logger traffic is_closed start_err Shutdown now s =
    (case api_start getenv fs yaml it amqp marshal load clean rawSpec logger s of
       (Inl err, s) \<Rightarrow> (Fatal err, s)
     | (Inr process, s) \<Rightarrow>
        (let s = traffic process s in
         case api_serve is_closed start_err of
           Some code \<Rightarrow> (code, s)
         | None \<Rightarrow> api_main_end amqp (ap_Conn process) Shutdown now s))"

subsection \<open>The calls of a start\<close>

text \<open>The broker calls between two states are among some.\<close>

definition calls_within :: "amqp_call set \<Rightarrow> 'w broker \<Rightarrow> 'w broker \<Rightarrow> bool" where
  "calls_within C s s' \<longleftrightarrow> (\<exists>h. bk_calls s' = bk_calls s @ h \<and> fst ` set h \<subseteq> C)"

lemma calls_within_refl: "calls_within C s s"
  by (simp add: calls_within_def)

lemma calls_within_trans: "calls_within C s s' \<Longrightarrow> calls_within C s' s'' \<Longrightarrow> calls_within C s s''"
  by (fastforce simp: calls_within_def)

lemma calls_within_try_call: "try_call amqp wrap call s = (e, s') \<Longrightarrow> call \<in> C \<Longrightarrow> calls_within C s s'"
  by (auto simp: calls_within_def try_call_def invoke_def split: prod.splits amqp_reply.splits)

lemma calls_within_invoke: "call \<in> C \<Longrightarrow> calls_within C s (snd (invoke amqp call s))"
  by (auto simp: calls_within_def invoke_def split: prod.split)

text \<open>The calls that cannot confirm a message.\<close>

definition set_up_calls :: "amqp_call set" where
  "set_up_calls = {c. (\<forall>ctx e k m i p. c \<noteq> PublishDeferred ctx e k m i p) \<and> (\<forall>ctx. c \<noteq> WaitConfirm ctx)}"

lemma set_up_simps [simp]:
  "Dial_conn url \<in> set_up_calls" "Open_channel \<in> set_up_calls" "Close_conn \<in> set_up_calls" "Confirm b \<in> set_up_calls"
  by (simp_all add: set_up_calls_def)

lemma topology_set_up: "set topology_calls \<subseteq> set_up_calls"
  by (auto simp: topology_calls_def lane_calls_def set_up_calls_def)

lemma run_calls_within: "run_calls amqp steps s = (e, s') \<Longrightarrow> fst ` set steps \<subseteq> C \<Longrightarrow> calls_within C s s'"
proof (cases e)
  case None
  assume "run_calls amqp steps s = (e, s')" "fst ` set steps \<subseteq> C"
  with None run_calls_None [of amqp steps s s'] show ?thesis
    by (fastforce simp: calls_within_def dest: set_zip_leftD)
next
  case (Some x)
  assume run: "run_calls amqp steps s = (e, s')" and C: "fst ` set steps \<subseteq> C"
  from run_calls_Some [OF run [unfolded Some]] obtain k rs err where k: "k < length steps"
      "bk_calls s' = bk_calls s @ zip (map fst (take k steps)) rs @ [(fst (steps ! k), RErr err)]"
    by blast
  have "fst (steps ! k) \<in> C" "set (map fst (take k steps)) \<subseteq> C"
    using k(1) C by (auto dest: in_set_takeD)
  with k(2) set_zip_fst [of "map fst (take k steps)" rs] show ?thesis
    by (auto simp: calls_within_def)
qed

lemma Dial_within: "Dial amqp url s = (res, s') \<Longrightarrow> calls_within set_up_calls s s'"
  by (auto simp: Dial_def split: prod.splits option.splits
      intro: calls_within_try_call calls_within_trans [OF calls_within_try_call calls_within_try_call]
        calls_within_trans [OF calls_within_trans [OF calls_within_try_call calls_within_try_call] calls_within_invoke])

lemma DeclareTopology_within: "DeclareTopology amqp s = (e, s') \<Longrightarrow> calls_within set_up_calls s s'"
proof -
  assume run: "DeclareTopology amqp s = (e, s')"
  obtain steps where steps: "DeclareTopology amqp = run_calls amqp steps" "map fst steps = topology_calls"
    using DeclareTopology_run by blast
  have "fst ` set steps = set topology_calls" by (simp flip: steps(2))
  then show ?thesis
    using run topology_set_up by (intro run_calls_within [of amqp steps s e]) (simp_all add: steps(1))
qed

lemma NewPublisher_within: "NewPublisher amqp opts s = (res, s') \<Longrightarrow> calls_within set_up_calls s s'"
  by (auto simp: NewPublisher_def split: prod.splits option.splits
      intro: calls_within_try_call calls_within_trans [OF calls_within_try_call DeclareTopology_within])

lemma set_up_confirms_nothing:
  assumes "calls_within set_up_calls s s'"
  shows "confirmed s' = confirmed s"
proof -
  obtain h where h: "bk_calls s' = bk_calls s @ h" "fst ` set h \<subseteq> set_up_calls"
    using assms by (auto simp: calls_within_def)
  have "\<not> acknowledged (c, r) \<and> published (c, r) = None" if "c \<in> set_up_calls" for c and r :: amqp_reply
    using that by (cases c) (auto simp: acknowledged_def published_def set_up_calls_def)
  then have quiet: "\<not> acknowledged x \<and> published x = None" if "x \<in> set h" for x
    using that h(2) by (cases x) force
  then have "confirmed_calls h = []"
    by (induction h rule: confirmed_calls.induct) auto
  moreover have "h = [] \<or> \<not> acknowledged (hd h)" using quiet by (cases h) auto
  ultimately show ?thesis by (simp add: confirmed_def h(1) confirmed_calls_append)
qed

definition api_calls :: "API \<Rightarrow> amqp_call list" where
  "api_calls cfg = [Dial_conn (api_RabbitURL cfg), Open_channel] @ (Confirm False # topology_calls)"

lemma api_calls_bound:
  assumes "made [Dial_conn url, Open_channel] h1" "made (Confirm False # topology_calls) h2"
  shows "bound_queues (h1 @ h2) key =
    (if key \<in> set lane_keys then [key] else if key = DeadLetterRoutingKey then [DeadLetterQueue] else [])"
proof -
  obtain r topo where h2: "h2 = (Confirm False, r) # topo"
    using assms(2) by (cases h2) (auto simp: made_def)
  with assms(2) have "made topology_calls topo" by (simp add: made_def)
  moreover have "bound_queues h1 key = []" using made_no_bind [OF assms(1)] by auto
  ultimately show ?thesis by (simp add: h2 made_topology_bound)
qed

text \<open>How a start ends.\<close>

lemma api_start_cases:
  assumes "api_start getenv fs yaml it amqp marshal load clean rawSpec logger s = (res, s')"
  obtains (failed) err where "res = Inl err" "confirmed s' = confirmed s"
  | (started) cfg r conn pub server h1 h2 where "confirmed s' = confirmed s"
      "LoadAPI getenv = Inr cfg" "NewFileRepository fs yaml (api_TemplatesDir cfg) = Inr r"
      "NewServer load clean rawSpec logger = Inr server" "bk_calls s' = bk_calls s @ h1 @ h2"
      "made [Dial_conn (api_RabbitURL cfg), Open_channel] h1" "made (Confirm False # topology_calls) h2"
      "res = Inr \<lparr>ap_Server = server, ap_Addr = api_Addr cfg,
         ap_Handler = Handler_New (NewService (Publisher_Publish amqp marshal pub) (NewTemplateService (file_Repository it r)))
           (NewTemplateService (file_Repository it r)), ap_Conn = conn\<rparr>"
      "pub = \<lparr>pb_timeout = DefaultPublishTimeout\<rparr>" "conn = \<lparr>cn_conn = True, cn_ch = True\<rparr>"
proof (cases "\<exists>cfg r. LoadAPI getenv = Inr cfg \<and> NewFileRepository fs yaml (api_TemplatesDir cfg) = Inr r")
  case False
  then show thesis
    using assms failed by (auto simp: api_start_def split: sum.splits)
next
  case True
  then obtain cfg r where ready: "LoadAPI getenv = Inr cfg" "NewFileRepository fs yaml (api_TemplatesDir cfg) = Inr r" by blast
  obtain d s1 where dial: "Dial amqp (api_RabbitURL cfg) s = (d, s1)" by fastforce
  obtain p s2 where pub: "NewPublisher amqp [] s1 = (p, s2)" by fastforce
  have quiet: "confirmed s1 = confirmed s" "confirmed s2 = confirmed s"
    using set_up_confirms_nothing [OF Dial_within [OF dial]] set_up_confirms_nothing [OF NewPublisher_within [OF pub]] by simp_all
  note run = assms [unfolded api_start_def Let_def ready sum.case dial prod.case]
  show thesis
  proof (cases "\<exists>conn pub server. d = Inr conn \<and> p = Inr pub \<and> NewServer load clean rawSpec logger = Inr server")
    case False
    then show thesis
      using run failed quiet by (cases d; cases p; cases "NewServer load clean rawSpec logger") (auto simp: pub)
  next
    case True
    then obtain conn pub server where all: "d = Inr conn" "p = Inr pub"
        "NewServer load clean rawSpec logger = Inr server" by blast
    obtain h1 where h1: "bk_calls s1 = bk_calls s @ h1" "made [Dial_conn (api_RabbitURL cfg), Open_channel] h1"
      using Dial_made [OF dial] all(1) by blast
    obtain h2 where h2: "bk_calls s2 = bk_calls s1 @ h2" "made (Confirm False # topology_calls) h2"
      using NewPublisher_made [OF pub] all(2) by blast
    have "pub = \<lparr>pb_timeout = DefaultPublishTimeout\<rparr>" "conn = \<lparr>cn_conn = True, cn_ch = True\<rparr>"
      using pub dial all(1,2) by (auto simp: NewPublisher_def Dial_def split: prod.splits option.splits)
    moreover have "s' = s2" "res = Inr \<lparr>ap_Server = server, ap_Addr = api_Addr cfg,
         ap_Handler = Handler_New (NewService (Publisher_Publish amqp marshal pub) (NewTemplateService (file_Repository it r)))
           (NewTemplateService (file_Repository it r)), ap_Conn = conn\<rparr>"
      using run by (simp_all add: all pub)
    ultimately show thesis
      using started ready all(3) quiet(2) h1 h2 by simp
  qed
qed

subsection \<open>Properties\<close>


definition sample_api_env :: "string \<Rightarrow> string" where
  "sample_api_env key = (if key = ''TEMPLATES_DIR'' then ''templates'' else [])"

lemma sample_api_start:
  "\<exists>(process :: (bool, unit) api_process) s'. api_start sample_api_env sample_fs no_yaml sample_iteration sample_amqp sample_marshal
      (\<lambda>_ _. Inr ()) (\<lambda>s. s) (\<lambda>_. Inr []) [] (sample_broker True) = (Inr process, s')"
proof -
  obtain s1 where s1: "Dial sample_amqp defaultRabbitURL (sample_broker True) = (Inr \<lparr>cn_conn = True, cn_ch = True\<rparr>, s1)"
    using sample_accepts(1) by blast
  obtain s2 where s2: "NewPublisher sample_amqp [] s1 = (Inr sample_publisher, s2)"
    using sample_accepts(2) by blast
  have "LoadAPI sample_api_env = Inr \<lparr>api_Addr = '':8080'', api_TemplatesDir = ''templates'', api_RabbitURL = defaultRabbitURL\<rparr>"
    by (simp add: LoadAPI_def sample_api_env_def envOr_def)
  then show ?thesis
    by (simp add: api_start_def sample_repository_loads s1 s2 NewServer_def GetSpec_def Let_def)
qed


text \<open>How the process ends. It stops with success only when it has served and the shutdown came through in time;
  the last calls to the broker then close the channel and the connection. In every other end they
  stay open for the operating system.\<close>

theorem api_main_stops:
  assumes "api_main getenv fs yaml it amqp marshal load clean rawSpec logger traffic is_closed start_err Shutdown now s = (Stopped, s')"
  shows "\<exists>process s1 r r'. api_start getenv fs yaml it amqp marshal load clean rawSpec logger s = (Inr process, s1)
    \<and> (\<forall>e. start_err = Some e \<longrightarrow> is_closed e)
    \<and> Shutdown (WithTimeout Background now shutdownTimeout) = None
    \<and> bk_calls s' = bk_calls (traffic process s1) @ [(Close_channel, r), (Close_conn, r')]"
proof -
  obtain process s1 where start: "api_start getenv fs yaml it amqp marshal load clean rawSpec logger s = (Inr process, s1)"
    using assms by (auto simp: api_main_def split: prod.splits sum.splits)
  then have "ap_Conn process = \<lparr>cn_conn = True, cn_ch = True\<rparr>"
    by (cases rule: api_start_cases) simp_all
  with start assms Connection_Close_calls [of amqp "traffic process s1"] show ?thesis
    by (auto simp: api_main_def api_serve_def api_main_end_def Let_def split: option.splits if_splits)
qed

end
