(* ===== verification/Worker_Main.thy ===== *)
theory Worker_Main
  imports Pipeline System
begin

text \<open>
  cmd/worker/main.go as a whole, and a worker process inside the system. \<open>worker_main\<close> is the
  function \<open>main\<close>: the start, the goroutines until its \<open>select\<close> picks, and the end. A
  \<open>process_step\<close> is a step of the goroutines of one worker process, or of the rest of the system
  around it: the broker delivers to it what the queue of its lane holds, and other processes do what
  they do in \<open>System\<close>. As RabbitMQ documents it, a delivery that has not been settled is not
  delivered to anybody else while the process is connected. The process may be killed
  in any state, also in the middle of \<open>handle\<close>, and another one may be started in its place.
\<close>

subsection \<open>The main function\<close>

text \<open>\<open>running\<close> gives the state of the goroutines when the \<open>select\<close> has picked \<open>choice\<close> and the connections are
  closed, from the process that was started and what its connections have done. \<open>main\<close> does not wait for \<open>Run\<close>
  after a signal: a delivery in the middle of \<open>handle\<close> is cut off, which is the end of a process by \<open>killed_handling\<close>
  below. \<open>Run\<close> gets a context without deadline. The result has the connections at the end, the publishing
  one first; the records of both begin with the calls of the start.\<close>

definition worker_main ::
  "(string \<Rightarrow> string) \<Rightarrow> filesystem \<Rightarrow> (string \<Rightarrow> frontMatter result) \<Rightarrow> iteration
    \<Rightarrow> (string \<Rightarrow> string option) \<Rightarrow> ('x, 'h) engines \<Rightarrow> (go_int \<Rightarrow> ctx \<Rightarrow> 'o \<Rightarrow> go_error option \<times> 'o)
    \<Rightarrow> 'w amqp \<Rightarrow> (Message \<Rightarrow> string result)
    \<Rightarrow> (('o outbound, 'w) worker_process \<Rightarrow> 'w broker \<Rightarrow> (Delivery, ('o outbound, 'w broker, 'w broker) worker) pipeline)
    \<Rightarrow> main_choice \<Rightarrow> 'w broker \<Rightarrow> exit \<times> 'w broker \<times> 'w broker" where
  "worker_main getenv fs yaml it parser eng limiter amqp marshal running choice s =
    (case worker_start getenv fs yaml it parser eng limiter amqp marshal s of
       (Inl err, s) \<Rightarrow> (Fatal err, s, s)
     | (Inr process, s) \<Rightarrow>
        (let p = running process s;
             (code, w) = worker_main_end amqp process (pl_cancelled p) choice (pl_worker p)
         in (code, wk_pub w, wk_con w)))"

text \<open>What \<open>Run\<close> does with a delivery in a process.\<close>

definition process_handle ::
  "(string \<Rightarrow> Message result) \<Rightarrow> 'd amqp \<Rightarrow> ('p, 'w) worker_process \<Rightarrow> Delivery
    \<Rightarrow> ('p, 'w broker, 'd broker) worker \<Rightarrow> ('p, 'w broker, 'd broker) worker" where
  "process_handle unmarshal con process b = handle unmarshal (wp_Consumer process) Background (as_delivery con b)"

subsection \<open>A process inside the system\<close>

text \<open>The deliveries in the hands of the goroutines and still to come, none of them settled.\<close>

definition unsettled :: "('b, 's) pipeline \<Rightarrow> 'b list" where
  "unsettled p = in_hand (pl_adapt p) @ in_hand (pl_forward p) @ pl_raw p"

definition copies :: "string \<Rightarrow> Delivery list \<Rightarrow> (string \<times> string) multiset" where
  "copies key bs = image_mset (\<lambda>b. (key, dl_Body b)) (mset bs)"

definition place_worker ::
  "string \<times> nat \<Rightarrow> ('o outbound, 'w broker, 'd broker) worker \<Rightarrow> (string \<times> string) multiset
    \<Rightarrow> ('w, 'o, 'd) system \<Rightarrow> ('w, 'o, 'd) system" where
  "place_worker k w held s = s\<lparr>sy_workers := (sy_workers s)(k := w), sy_held := held\<rparr>"

type_synonym ('w, 'o, 'd) worker_pipeline = "(Delivery, ('o outbound, 'w broker, 'd broker) worker) pipeline"

inductive process_step ::
  "('x, 'h, 'w, 'o, 'd) deployment
    \<Rightarrow> (Delivery \<Rightarrow> ('o outbound, 'w broker, 'd broker) worker \<Rightarrow> ('o outbound, 'w broker, 'd broker) worker)
    \<Rightarrow> string \<Rightarrow> nat \<Rightarrow> ('w, 'o, 'd) system \<times> ('w, 'o, 'd) worker_pipeline
    \<Rightarrow> ('w, 'o, 'd) system \<times> ('w, 'o, 'd) worker_pipeline \<Rightarrow> bool" for D H key i where
  arrive: "\<not> pl_closed p \<Longrightarrow> add_mset (key, dl_Body b) (copies key (unsettled p)) \<subseteq># sy_held s \<Longrightarrow>
    process_step D H key i (s, p) (s, p\<lparr>pl_raw := pl_raw p @ [b]\<rparr>)"
| disconnect: "process_step D H key i (s, p) (s, p\<lparr>pl_closed := True\<rparr>)"
| goroutines: "pipe_step H p p' \<Longrightarrow> pl_handled p' = pl_handled p \<Longrightarrow> process_step D H key i (s, p) (s, p')"
| handles: "Run_loop H p p' \<Longrightarrow> pl_handled p' = pl_handled p @ [b] \<Longrightarrow>
    held = sy_held s \<or> last (settled (wk_con (pl_worker p'))) = (dl_Tag b, Acked) \<and> held = sy_held s - {#(key, dl_Body b)#} \<Longrightarrow>
    set_mset extra \<subseteq> set (new_sent (wk_pub (pl_worker p)) (wk_pub (pl_worker p'))) \<Longrightarrow>
    process_step D H key i (s, p)
      (place_worker (key, i) (pl_worker p') (held + mset (new_confirmed (wk_pub (pl_worker p)) (wk_pub (pl_worker p'))) + extra) s, p')"
| others: "sys_step D s s' \<Longrightarrow> sy_workers s' (key, i) = sy_workers s (key, i) \<Longrightarrow> copies key (unsettled p) \<subseteq># sy_held s' \<Longrightarrow>
    process_step D H key i (s, p) (s', p)"
| killed: "ob_calls (wk_out w) = ob_calls (wk_out (pl_worker p)) \<Longrightarrow>
    process_step D H key i (s, p) (place_worker (key, i) w (sy_held s) s, pipeline_start [] False w)"
| killed_handling: "pl_adapt p = Sending b \<Longrightarrow>
    set_mset extra \<subseteq> set (new_sent (wk_pub (pl_worker p)) (wk_pub (H b (pl_worker p)))) \<Longrightarrow>
    length (ob_calls (wk_out (pl_worker p))) \<le> k \<Longrightarrow>
    ob_calls (wk_out w) = take k (ob_calls (wk_out (H b (pl_worker p)))) \<Longrightarrow>
    process_step D H key i (s, p) (place_worker (key, i) w (sy_held s + extra) s, pipeline_start [] False w)"

lemma copies_simps [simp]:
  "copies key [] = {#}" "copies key (b # bs) = add_mset (key, dl_Body b) (copies key bs)"
  "copies key (bs @ bs') = copies key bs + copies key bs'"
  by (simp_all add: copies_def)

lemma place_worker_simps [simp]:
  "sy_workers (place_worker k w held s) = (sy_workers s)(k := w)" "sy_held (place_worker k w held s) = held"
  "sy_apis (place_worker k w held s) = sy_apis s" "sy_accepted (place_worker k w held s) = sy_accepted s"
  by (simp_all add: place_worker_def)

text \<open>Steps of the goroutines that handle nothing keep the worker and what is unsettled.\<close>

lemma goroutine_keeps:
  assumes "pipe_step H p p'" "pl_handled p' = pl_handled p"
  shows "pl_worker p' = pl_worker p \<and> copies key (unsettled p') = copies key (unsettled p)"
  using assms by (auto simp: pipe_steps unsettled_def)

lemma handled_delivery:
  assumes "Run_loop H p p'" "pl_handled p' = pl_handled p @ [b]"
  shows "pl_worker p' = H b (pl_worker p) \<and> copies key (unsettled p) = add_mset (key, dl_Body b) (copies key (unsettled p'))"
  using assms by (auto simp: Run_loop.simps unsettled_def)

lemma pipeline_start_simps [simp]:
  "unsettled (pipeline_start bs cl w) = bs" "pl_worker (pipeline_start bs cl w) = w"
  by (simp_all add: unsettled_def pipeline_start_def)

text \<open>What ties the process to the system.\<close>

definition process_inv :: "string \<Rightarrow> nat \<Rightarrow> ('w, 'o, 'd) system \<times> ('w, 'o, 'd) worker_pipeline \<Rightarrow> bool" where
  "process_inv key i x \<longleftrightarrow>
    sy_workers (fst x) (key, i) = pl_worker (snd x) \<and> copies key (unsettled (snd x)) \<subseteq># sy_held (fst x)"

lemma subseteq_minus_one: "add_mset x A \<subseteq># B \<Longrightarrow> A \<subseteq># B - {#x#}"
  by (simp add: insert_subset_eq_iff)

lemma process_step_inv:
  assumes "process_step D H key i x x'" "process_inv key i x"
  shows "process_inv key i x'"
  using assms
proof (cases rule: process_step.cases)
  case (goroutines p p' s)
  with assms(2) goroutine_keeps [of H p p' key] show ?thesis by (simp add: process_inv_def)
next
  case (handles p p' b held s extra)
  note b = handled_delivery [OF handles(3,4), of key]
  have "copies key (unsettled p') \<subseteq># held"
    using handles(5) assms(2) b by (auto simp: process_inv_def handles(1) dest: subseteq_minus_one mset_subset_eq_insertD)
  then show ?thesis
    by (simp add: process_inv_def handles(2) subset_mset.add_increasing2)
qed (auto simp: process_inv_def unsettled_def pipeline_start_def)

interpretation process: stepping "process_step D H key i" "process_inv key i"
  for D :: "('x, 'h, 'w, 'o, 'd) deployment" and H key i
  by unfold_locales (rule process_step_inv)

text \<open>Every step of the process is a step of the system, or none.\<close>

lemma process_step_simulated:
  fixes D :: "('x, 'h, 'w, 'o, 'd) deployment"
  assumes step: "process_step D H (RoutingKey t pr) i x x'" and inv: "process_inv (RoutingKey t pr) i x"
    and lane: "Type_IsValid t" "Priority_IsValid pr"
    and H: "\<And>b w. H b w = worker_handle D t Background (dl_Tag b) (dl_Body b) w"
  shows "fst x' = fst x \<or> sys_step D (fst x) (fst x')"
  using step
proof (cases rule: process_step.cases)
  case (handles p p' b held s extra)
  note b = handled_delivery [OF handles(3,4), of "RoutingKey t pr"]
  have at: "sy_workers s (RoutingKey t pr, i) = pl_worker p" "(RoutingKey t pr, dl_Body b) \<in># sy_held s"
    using inv b by (auto simp: process_inv_def handles(1) dest: mset_subset_eqD)
  have "worker_handle D t Background (dl_Tag b) (dl_Body b) (sy_workers s (RoutingKey t pr, i)) = pl_worker p'"
    using b by (simp add: at H)
  from sys_step.deliver [OF lane at(2) this handles(5)] handles(6)
  show ?thesis by (simp add: handles(1,2) at place_worker_def)
next
  case (killed w p s)
  have "ob_calls (wk_out (((sy_workers s)((RoutingKey t pr, i) := w)) k)) = ob_calls (wk_out (sy_workers s k))" for k
    using inv killed(3) by (simp add: process_inv_def killed(1))
  from sys_step.restart [of "(sy_workers s)((RoutingKey t pr, i) := w)" s D "sy_apis s", OF this]
  show ?thesis by (simp add: killed(1,2) place_worker_def)
next
  case (killed_handling p b extra k w s)
  have at: "sy_workers s (RoutingKey t pr, i) = pl_worker p" "(RoutingKey t pr, dl_Body b) \<in># sy_held s"
    using inv killed_handling(3) by (auto simp: process_inv_def killed_handling(1) unsettled_def dest: mset_subset_eqD)
  from sys_step.worker_crash [OF lane at(2), of D Background "dl_Tag b" i "H b (pl_worker p)" extra k w] killed_handling(4-6)
  show ?thesis by (simp add: killed_handling(1,2) at H place_worker_def)
qed simp_all

lemma process_run_simulated:
  fixes D :: "('x, 'h, 'w, 'o, 'd) deployment"
  assumes "(process_step D H (RoutingKey t pr) i)\<^sup>*\<^sup>* x x'" "process_inv (RoutingKey t pr) i x"
    and "Type_IsValid t" "Priority_IsValid pr" "\<And>b w. H b w = worker_handle D t Background (dl_Tag b) (dl_Body b) w"
  shows "(sys_step D)\<^sup>*\<^sup>* (fst x) (fst x')"
  using assms(1)
proof (induction rule: rtranclp_induct)
  case (step y z)
  have "process_inv (RoutingKey t pr) i y" by (rule process.run_inv [OF step.hyps(1) assms(2)])
  from process_step_simulated [OF step.hyps(2) this assms(3-5)] step.IH show ?case
    by (auto intro: rtranclp.rtrancl_into_rtrancl)
qed simp

subsection \<open>The process that main starts\<close>

text \<open>A deployment as the binary makes it from its environment.\<close>

definition deployed_as ::
  "('x, 'h, 'w, 'o, 'd) deployment \<Rightarrow> (string \<Rightarrow> string) \<Rightarrow> filesystem \<Rightarrow> (string \<Rightarrow> frontMatter result) \<Rightarrow> iteration
    \<Rightarrow> (go_int \<Rightarrow> ctx \<Rightarrow> 'o \<Rightarrow> go_error option \<times> 'o) \<Rightarrow> Worker \<Rightarrow> bool" where
  "deployed_as D getenv fs yaml it limiter cfg \<longleftrightarrow>
    LoadWorker getenv = Inr cfg
    \<and> (\<exists>r. NewFileRepository fs yaml (wc_TemplatesDir cfg) = Inr r \<and> dp_repo D = file_Repository it r)
    \<and> dp_outside D = stub_senders (limiter (wc_RateLimit cfg)) \<and> dp_publisher D = \<lparr>pb_timeout = DefaultPublishTimeout\<rparr>
    \<and> dp_maxRetries D = wc_MaxRetries cfg"

lemma started_consumer:
  assumes "worker_start getenv fs yaml it parser eng limiter amqp marshal s = (Inr process, s')"
  obtains cfg r where "LoadWorker getenv = Inr cfg" "NewFileRepository fs yaml (wc_TemplatesDir cfg) = Inr r"
    "wp_Consumer process = worker_consumer (stub_senders (limiter (wc_RateLimit cfg))) parser eng (file_Repository it r)
       (wc_Type cfg) amqp marshal \<lparr>pb_timeout = DefaultPublishTimeout\<rparr> (wc_MaxRetries cfg)"
    "wp_consumerConn process = \<lparr>cn_conn = True, cn_ch = True\<rparr>" "wp_publisherConn process = \<lparr>cn_conn = True, cn_ch = True\<rparr>"
proof -
  obtain cfg r where ready: "LoadWorker getenv = Inr cfg" "NewFileRepository fs yaml (wc_TemplatesDir cfg) = Inr r"
    using assms by (auto simp: worker_start_def split: sum.splits)
  then have "buildProcessor parser eng (wc_Type cfg) (NewRenderer (NewTemplateService (file_Repository it r))) (limiter (wc_RateLimit cfg))
      = Inr (lane_processor (stub_senders (limiter (wc_RateLimit cfg))) parser eng (file_Repository it r) (wc_Type cfg))"
    by (simp add: buildProcessor_eq LoadWorker_Inr NewRenderer_def NewTemplateService_def)
  from assms ready this show thesis
    by (cases rule: worker_connect_cases) (use that ready in \<open>simp_all add: worker_consumer_def\<close>)
qed

lemma started_process_handle:
  assumes "worker_start getenv fs yaml it (dp_parse D) (dp_engines D) limiter (dp_amqp D) (marshal_in D) s = (Inr process, s')"
    and "deployed_as D getenv fs yaml it limiter cfg"
  shows "process_handle (unmarshal_in D) (dp_con D) process b w
    = worker_handle D (wc_Type cfg) Background (dl_Tag b) (dl_Body b) w"
  using assms(1)
proof (cases rule: started_consumer)
  case (1 cfg' r)
  with assms(2) show ?thesis
    by (cases b) (auto simp: process_handle_def worker_handle_def deployed_as_def)
qed

lemma settled_close: "settled (snd (Connection_Close amqp conn s)) = settled s"
  by (simp add: Connection_Close_def Let_def try_call_state settled_invoke)

lemma handled_settled:
  assumes "wp_Consumer process = worker_consumer outside parser eng repo t amqp marshal pub n"
  shows "map fst (settled (wk_con (fold (process_handle unmarshal con process) bs w)))
    = map fst (settled (wk_con w)) @ map dl_Tag bs"
proof (induction bs arbitrary: w)
  case (Cons b bs)
  have "map fst (settled (wk_con (process_handle unmarshal con process b w))) = map fst (settled (wk_con w)) @ [dl_Tag b]"
    using worker.handle_settles [where con = con and unmarshal = unmarshal and outside = outside and eng = eng and repo = repo
        and t = t and amqp = amqp and marshal = marshal and p = pub and n = n and c = Background and b = b and s = w and parse = parser]
    by (auto simp: process_handle_def assms worker_consumer_def)
  with Cons.IH [of "process_handle unmarshal con process b w"] show ?case by simp
qed simp

subsection \<open>Properties\<close>


text \<open>A worker for the lane of the sample request.\<close>

definition sample_lane_env :: "string \<Rightarrow> string" where
  "sample_lane_env key =
    (if key = ''WORKER_TYPE'' then ''email'' else if key = ''WORKER_PRIORITY'' then ''transactional''
     else if key = ''TEMPLATES_DIR'' then ''templates'' else [])"

abbreviation open_limiter :: "go_int \<Rightarrow> ctx \<Rightarrow> unit \<Rightarrow> go_error option \<times> unit" where
  "open_limiter \<equiv> \<lambda>_ _ w. (None, w)"

definition sample_cfg :: Worker where
  "sample_cfg = \<lparr>wc_Type = TypeEmail, wc_Priority = PriorityTransactional, wc_TemplatesDir = ''templates'',
     wc_RabbitURL = defaultRabbitURL, wc_Prefetch = 1, wc_MaxRetries = 3, wc_RateLimit = 50\<rparr>"

lemma sample_lane_cfg: "LoadWorker sample_lane_env = Inr sample_cfg"
  by (simp add: LoadWorker_def sample_lane_env_def sample_cfg_def envOr_def envInt_def Type_IsValid_def Priority_IsValid_def)

lemma steady_accepts:
  "\<exists>s'. Dial steady_amqp url s = (Inr \<lparr>cn_conn = True, cn_ch = True\<rparr>, s')"
  "\<exists>s'. NewPublisher steady_amqp [] s = (Inr sample_publisher, s')"
  "\<exists>s'. Connection_Consume steady_amqp q n s = (None, s')"
  by (simp_all add: Dial_def NewPublisher_def Connection_Consume_def DeclareTopology_def declareLane_def allTypes_def
      allPriorities_def try_call_def invoke_def seqE_def steady_amqp_def Let_def sample_publisher_def)

lemma sample_worker_starts:
  "\<exists>process s'. worker_start sample_lane_env sample_fs no_yaml sample_iteration Some verbatim_engines open_limiter steady_amqp
      marshal idle_broker = (Inr process, s')"
proof -
  obtain s1 where s1: "Dial steady_amqp defaultRabbitURL idle_broker = (Inr \<lparr>cn_conn = True, cn_ch = True\<rparr>, s1)"
    using steady_accepts(1) by blast
  obtain s2 where s2: "Dial steady_amqp defaultRabbitURL s1 = (Inr \<lparr>cn_conn = True, cn_ch = True\<rparr>, s2)"
    using steady_accepts(1) by blast
  obtain s3 where s3: "NewPublisher steady_amqp [] s2 = (Inr sample_publisher, s3)"
    using steady_accepts(2) by blast
  obtain s4 where s4: "Connection_Consume steady_amqp (QueueName TypeEmail PriorityTransactional) 1 s3 = (None, s4)"
    using steady_accepts(3) by blast
  show ?thesis
    by (simp add: worker_start_def Let_def sample_lane_cfg sample_cfg_def sample_repository_loads buildProcessor_def s1 s2 s3 s4)
qed

lemma sample_deployed: "deployed_as sample_deployment sample_lane_env sample_fs no_yaml sample_iteration open_limiter sample_cfg"
proof -
  have "sample_outside = stub_senders (open_limiter n)" for n
    by (intro ext) (simp add: sample_outside_def stub_senders_def processor_outside_def stubEmailSender_Send_def
        stubSMSSender_Send_def stubPushSender_Send_def split: out_call.split)
  moreover have "wc_TemplatesDir sample_cfg = ''templates''" "wc_MaxRetries sample_cfg = 3"
    by (simp_all add: sample_cfg_def)
  ultimately show ?thesis
    by (simp add: deployed_as_def sample_lane_cfg sample_deployment_def sample_repository_loads sample_publisher_def)
qed


text \<open>C29. How \<open>main\<close> ends. A start that fails is the only end with an error: however \<open>Run\<close> has ended, also when the broker
  has closed the deliveries, \<open>main\<close> takes it for a normal end and exits with success. Then the channels and the
  connections have been closed; exactly the deliveries that were handled have been settled, each once and
  in their order, and they are a prefix of those that came, so the rest goes back to the broker.\<close>

theorem worker_main_ends:
  assumes "worker_main getenv fs yaml it parser eng limiter amqp marshal running choice s = (code, pub, con)"
    and "\<And>process s'. worker_start getenv fs yaml it parser eng limiter amqp marshal s = (Inr process, s') \<Longrightarrow>
      (pipe_step (process_handle unmarshal amqp process))\<^sup>*\<^sup>* (pipeline_start ds closed \<lparr>wk_out = out, wk_pub = s', wk_con = s'\<rparr>)
        (running process s') \<and> (\<forall>r. choice = RunDone r \<longrightarrow> pl_run (running process s') = Returned r)"
  shows "case worker_start getenv fs yaml it parser eng limiter amqp marshal s of
      (Inl err, s') \<Rightarrow> code = Fatal err
    | (Inr process, s') \<Rightarrow> code = Stopped
        \<and> (\<exists>w r1 r2 r3 r4 n. w = fold (process_handle unmarshal amqp process) (take n ds) \<lparr>wk_out = out, wk_pub = s', wk_con = s'\<rparr>
            \<and> bk_calls pub = bk_calls (wk_pub w) @ [(Close_channel, r1), (Close_conn, r2)]
            \<and> bk_calls con = bk_calls (wk_con w) @ [(Close_channel, r3), (Close_conn, r4)]
            \<and> map fst (settled con) = map fst (settled s') @ map dl_Tag (take n ds))"
proof (cases "worker_start getenv fs yaml it parser eng limiter amqp marshal s")
  case (Pair res s')
  show ?thesis
  proof (cases res)
    case (Inl err)
    with assms(1) Pair show ?thesis by (simp add: worker_main_def)
  next
    case (Inr process)
    let ?H = "process_handle unmarshal amqp process" and ?w0 = "\<lparr>wk_out = out, wk_pub = s', wk_con = s'\<rparr>" and ?p = "running process s'"
    have start: "worker_start getenv fs yaml it parser eng limiter amqp marshal s = (Inr process, s')"
      using Pair Inr by simp
    note run = assms(2) [OF start, THEN conjunct1] and picked = assms(2) [OF start, THEN conjunct2]
    define n where "n = length (pl_handled ?p)"
    have w: "pl_worker ?p = fold ?H (take n ds) ?w0"
      using pipe_inv_reachable [OF run] by (auto simp: pipe_inv_def n_def)
    obtain cfg :: Worker and r where co: "wp_Consumer process = worker_consumer (stub_senders (limiter (wc_RateLimit cfg))) parser eng
          (file_Repository it r) (wc_Type cfg) amqp marshal \<lparr>pb_timeout = DefaultPublishTimeout\<rparr> (wc_MaxRetries cfg)"
        and conns: "wp_consumerConn process = \<lparr>cn_conn = True, cn_ch = True\<rparr>" "wp_publisherConn process = \<lparr>cn_conn = True, cn_ch = True\<rparr>"
      using start by (rule started_consumer) (rule that; assumption)
    have ends: "code = Stopped \<and> pub = snd (Connection_Close amqp (wp_publisherConn process) (wk_pub (pl_worker ?p)))
        \<and> con = snd (Connection_Close amqp (wp_consumerConn process) (wk_con (pl_worker ?p)))"
      using assms(1) worker_exits_quietly [OF run, of choice amqp process "pl_worker ?p"] picked
      by (auto simp: worker_main_def start Let_def)
    obtain r1 r2 r3 r4 where "bk_calls pub = bk_calls (wk_pub (pl_worker ?p)) @ [(Close_channel, r1), (Close_conn, r2)]"
        "bk_calls con = bk_calls (wk_con (pl_worker ?p)) @ [(Close_channel, r3), (Close_conn, r4)]"
      using Connection_Close_calls [of amqp "wk_pub (pl_worker ?p)"] Connection_Close_calls [of amqp "wk_con (pl_worker ?p)"] ends
      by (auto simp: conns)
    moreover have "map fst (settled con) = map fst (settled s') @ map dl_Tag (take n ds)"
      using ends handled_settled [OF co, of unmarshal amqp "take n ds" ?w0] by (simp add: settled_close w)
    ultimately show ?thesis
      using ends unfolding start prod.case sum.case w by blast
  qed
qed

text \<open>The broker closes the deliveries before any has come.\<close>

definition sample_running :: "(unit outbound, unit) worker_process \<Rightarrow> unit broker \<Rightarrow> (unit, unit, unit) worker_pipeline" where
  "sample_running process s =
    (pipeline_start [] True \<lparr>wk_out = sample_outbound, wk_pub = s, wk_con = s\<rparr>)
      \<lparr>pl_forward := Ended, pl_adapt := Ended, pl_run := Returned None\<rparr>"

lemma sample_running_reached:
  "(pipe_step H)\<^sup>*\<^sup>* (pipeline_start [] True \<lparr>wk_out = sample_outbound, wk_pub = s, wk_con = s\<rparr>) (sample_running process s)"
proof -
  let ?p0 = "pipeline_start [] True \<lparr>wk_out = sample_outbound, wk_pub = s, wk_con = s\<rparr>"
  let ?p1 = "?p0\<lparr>pl_forward := Ended\<rparr>" and ?p2 = "?p0\<lparr>pl_forward := Ended, pl_adapt := Ended\<rparr>"
  have "pipe_step H ?p0 ?p1" "pipe_step H ?p1 ?p2" "pipe_step H ?p2 (sample_running process s)"
    by (simp_all add: pipe_steps pipeline_start_def sample_running_def)
  then show ?thesis using steps_run [of "pipe_step H" "[?p0, ?p1, ?p2, sample_running process s]"] by simp
qed

theorem worker_main_ends_witness:
  "\<exists>pub con r r'. worker_main sample_lane_env sample_fs no_yaml sample_iteration Some verbatim_engines open_limiter steady_amqp
      (marshal_in sample_deployment) sample_running (RunDone None) idle_broker = (Stopped, pub, con)
    \<and> drop (length (bk_calls con) - 2) (bk_calls con) = [(Close_channel, r), (Close_conn, r')]"
proof -
  let ?start = "worker_start sample_lane_env sample_fs no_yaml sample_iteration Some verbatim_engines open_limiter steady_amqp
      (marshal_in sample_deployment) idle_broker"
  obtain process b1 where start: "?start = (Inr process, b1)"
    using sample_worker_starts [of "marshal_in sample_deployment"] by blast
  obtain code pub con where main: "worker_main sample_lane_env sample_fs no_yaml sample_iteration Some verbatim_engines open_limiter
      steady_amqp (marshal_in sample_deployment) sample_running (RunDone None) idle_broker = (code, pub, con)"
    by (rule prod_cases3)
  have "(pipe_step (process_handle (unmarshal_in sample_deployment) steady_amqp process))\<^sup>*\<^sup>*
        (pipeline_start [] True \<lparr>wk_out = sample_outbound, wk_pub = s, wk_con = s\<rparr>) (sample_running process s)
      \<and> (\<forall>r. RunDone None = RunDone r \<longrightarrow> pl_run (sample_running process s) = Returned r)" for process s
    using sample_running_reached by (simp add: sample_running_def)
  from worker_main_ends [OF main this] obtain r r' where "code = Stopped"
      "bk_calls con = bk_calls b1 @ [(Close_channel, r), (Close_conn, r')]"
    by (auto simp: start)
  with main show ?thesis by (intro exI [of _ pub] exI [of _ con] exI [of _ r] exI [of _ r']) simp
qed

end
