(* ===== verification/Spec2Isabelle.thy ===== *)
theory Spec2Isabelle
  imports GoBase GoErrors Go_Strconv Go_Json Go_Time Provider Notification Message_Json Template File_Repository
    Template_Service Publisher_Port Delivery_Port Rabbit Send_Service Processor_Port Processors Consumer System
    Rest Strict_Server Config Startup Api_Json Openapi Rest_Server Pipeline
    Publisher_Mutex Step_Relation Http_System Api_Main Worker_Main
begin

text \<open>
  A model of the notification system of this repository and its correctness.

  The program. An API process accepts send requests over HTTP, validates them, resolves
  a template and publishes a message to RabbitMQ; it answers once the broker has
  confirmed the message. Messages go to one queue per channel and priority, a lane. A
  worker process consumes one lane: it renders the template, builds the message of its
  channel and calls the provider, waiting for a rate limiter first. A failure that a
  retry cannot fix is dropped; any other is published again on the lane with one more
  retry, and in the end on a dead-letter lane.

  The theories, in the order of their imports:

  GoBase is the prelude: Go strings as byte lists with UTF-8 decoding and the functions
  of strings and unicode the code uses, early return (seqE, forE, foldE), contexts with
  a deadline, values of type any, and the 64-bit int.

  Step_Relation has the locales of step relations with an invariant and a height, which are
  interpreted on the steps of the system, of a worker's goroutines and of the publishers.

  GoErrors has the error values of the program as one datatype, with Unwrap, errors.Is
  and errors.As.

  Go_Strconv, Go_Json and Go_Time model what the program uses of the standard library to put
  a message on the wire: decimal numbers, encoding/json on trees and on values of type any,
  and the RFC 3339 form of times. How a float64 is written and read is a parameter
  (floats), with the hypothesis floats_ok that a finite number is written as a JSON number that
  reads back as itself.

  Provider models internal/domain/provider: email addresses, phone numbers, device tokens
  and the outgoing messages. The three constructors share the locale value_object.

  Notification models internal/domain/notification: the entity with its statuses, the
  recipient and the queue message with its retry counter.

  Message_Json is the JSON of the queue message, by the rules of encoding/json for the struct
  types Message and Recipient: what publisher.go encodes and consumer.go decodes. The parser
  runs with fuel from the length of the text, shown to be enough, and with the depth limit
  of the package.

  Template models internal/domain/template, and states the repository interface as the
  record Repository and the locale template_repository, interpreted in File_Repository.

  File_Repository models internal/infrastructure/template/file_repository.go: loading a
  directory tree, front matter, lookups, the sorted listing. Its specification is a
  finite map from types and IDs to templates. The order in which Go visits a map is
  a parameter.

  Template_Service models internal/app/template/service.go over that interface.

  Publisher_Port, Delivery_Port and Processor_Port state the interfaces of the publisher
  (internal/domain/notification/publisher.go and internal/transport/queue/consumer.go),
  of a delivery and of a processor as locales.

  Rabbit models internal/infrastructure/rabbitmq over the calls of amqp091-go. A state
  keeps the client library's environment, which answers the calls, and the calls made so
  far. From these are read: the queues each routing key is bound to (bound_queues), the
  messages the broker has confirmed (confirmed) and the deliveries that have been
  answered (settled). The publisher and delivery locales are interpreted here.

  Publisher_Mutex runs any number of publishes at once over one publisher: the steps of
  publish between which other goroutines can run, the mutex, and time that passes. It shows that
  the mutex makes them one at a time, which is how Rabbit models them.

  Send_Service models internal/app/notification/service.go, over the repository and the
  publisher (locale send_service).

  Processors models internal/app/notification/renderer.go, the three processors, and
  buildProcessor and the stub senders of cmd/worker/main.go. All three processors are
  shown to follow one scheme: prepare, which depends on the message, the templates and
  the recipient alone, then dispatch. The processor locale is interpreted here.

  Consumer models internal/transport/queue/consumer.go over the publisher, the processor
  and the delivery (locale queue_consumer): handle and Run.

  System puts the parts together: a step relation of API processes that run Send, the
  messages the broker holds, and worker processes that run handle, any number of each, with
  the JSON of the messages between them. The broker may lose acknowledgements, keep messages
  it did not confirm and deliver in any order. A process may die in the middle of what it
  does and be started again.

  Rest models the handlers and the error mapping of internal/transport/rest, with the
  API types of the generated server.gen.go.

  Strict_Server models the strict server of server.gen.go between Echo and the handlers,
  and the answer of the error handler, up to the status and body committed.

  Config models internal/config/config.go.

  Startup models the steps of cmd/worker/main.go up to the point where the worker consumes.

  Api_Json is the JSON of the HTTP API: what the responses write and what the request
  bodies are decoded to, by the tags of the types in server.gen.go. Over it the answers of
  the strict server are followed to the bytes of the body.

  Openapi models the rest of server.gen.go: all response objects, the strict handler with
  middlewares (a function that may panic, on a value of any type), the wrapper, the
  registration of the routes and the functions over the embedded description. With no middleware it is shown
  to be the strict server of Strict_Server.

  Http_System is the HTTP interface over the whole system: the body of a post is bound, passes
  the strict server and the handler of a process, and is answered. A post is a step of System
  and a batch a run of it, so a 202 is a promise about every later state.

  Rest_Server models internal/transport/rest/server.go, the server as the settings, middleware
  and routes it is given, and middleware/logging.go.

  Pipeline models the goroutines of a worker and the ends of the two main functions: the
  forwarding goroutine of rabbitmq/consumer.go, adapt of cmd/worker/main.go and Run as steps on
  two unbuffered channels, any of which may come next, with a cancellation at any time. The
  steps are shown to refine the function Run of Consumer, and to end.

  Api_Main models cmd/api/main.go from the first step to the exit: the start, the server of
  Rest_Server over the repository and the publisher, and the shutdown.

  Worker_Main models cmd/worker/main.go from the first step to the exit, and the process it
  starts inside the system: steps of its goroutines, deliveries of the broker, what the other
  processes do, and kills and restarts in any state. Every run of it is shown to be a run of System.

  What is shown. Validation accepts exactly the documented inputs, and where it does not
  the difference is a theorem. Loading refines the map it documents. Send confirms
  exactly one valid, stamped message or nothing, with errors that tell the cause and
  map to the documented responses. A message the API accepted is never rejected by the
  worker for its recipient or its template ID. A delivery gets exactly one answer, and no
  message is acknowledged before it has been delivered, refused for good, or confirmed
  again by the broker. Retries are bounded by the limit. The declared topology routes
  every lane to its own queue. Of the whole system: no notification that was answered with 202 is lost, what is held
  can be read, retrying ends, and when the broker takes what it is sent every accepted
  notification comes to an outcome. The message that is read from the wire is the message
  that was written. The generated server adds nothing to the handlers, a batch is its
  requests sent one by one, and the goroutines of a worker lose, double and reorder nothing,
  though one of them can outlive a cancellation. What the two binaries start is what System is
  about: the API serves the strict server over its templates and its publisher, and a worker process
  is a worker of System at every step of its goroutines.

  Parameters. net/mail.ParseAddress, the two template engines, yaml.Unmarshal, the file
  system, the text of a float64, uuid and the clock, strconv.Quote, amqp091-go, the rate
  limiter and the senders are arguments of the definitions; what a theorem needs of them
  is a hypothesis of it (filesystem_ok, floats_ok, keeps_RetryCount). Publisher and Consumer
  take the codec as an argument; System gives them the one of Message_Json. Every loop of the code runs
  over a list, so the definitions are total without fuel; the consumer loop
  runs over the choices its select has made.

  Not modelled: Echo and its middleware, the request validator, the delivery of signals,
  the log lines other than that of a request, the bytes of the embedded API description, and
  the generated test doubles.
\<close>

end
